(* ===== verification/Prelude.thy ===== *)
theory Prelude
  imports Main "HOL-Library.List_Lexorder" "HOL-Library.Char_ord" "HOL-Library.Multiset"
begin

text \<open>
  What every component of the model shares: the Go values the code is written with, and the
  generic facts about them.

  A Go string is a \<^typ>\<open>string\<close>, one \<^typ>\<open>char\<close> per byte of its UTF-8 encoding, compared
  byte by byte as Go's \<open><\<close> does (the lexicographic order of List_Lexorder over Char_ord).
  An \<open>int64\<close> (and an \<open>int\<close>, 64 bits wide on the supported platforms) is an \<^typ>\<open>int\<close>,
  and \<open>i64\<close> writes out the wrap-around wherever the code's arithmetic can leave the range.
  A \<open>time.Time\<close> is the number of nanoseconds since the Unix epoch and a \<open>time.Duration\<close> a
  number of nanoseconds; \<open>time_sub\<close> saturates as \<open>Time.Sub\<close> does.
\<close>

named_theorems go_simps \<open>evaluation of the Go values shared by the components\<close>
named_theorems step_simps \<open>one-step facts of the components' state machines\<close>

subsection \<open>64-bit integers\<close>

type_synonym int64 = int
type_synonym gotime = int
type_synonym duration = int

definition max_int64 :: int64 where
  "max_int64 = 9223372036854775807"

definition min_int64 :: int64 where
  "min_int64 = - 9223372036854775808"

definition i64 :: "int \<Rightarrow> int64" where
  "i64 x = (x + 9223372036854775808) mod 18446744073709551616 - 9223372036854775808"

definition in_int64 :: "int \<Rightarrow> bool" where
  "in_int64 x \<longleftrightarrow> min_int64 \<le> x \<and> x \<le> max_int64"

lemmas int64_bounds = max_int64_def min_int64_def in_int64_def

lemma i64_id: "in_int64 x \<Longrightarrow> i64 x = x"
  by (simp add: i64_def int64_bounds)

lemma i64_id_nonneg: "0 \<le> x \<Longrightarrow> x \<le> max_int64 \<Longrightarrow> i64 x = x"
  by (simp add: i64_id int64_bounds)

lemma i64_range: "in_int64 (i64 x)"
proof -
  have "0 \<le> (x + 9223372036854775808) mod 18446744073709551616"
    and "(x + 9223372036854775808) mod 18446744073709551616 < 18446744073709551616"
    by simp_all
  then show ?thesis by (simp add: i64_def int64_bounds)
qed

text \<open>\<open>Time.Sub\<close>: the difference, clamped to the range of a duration.\<close>

definition time_sub :: "gotime \<Rightarrow> gotime \<Rightarrow> duration" where
  "time_sub a b = max min_int64 (min max_int64 (a - b))"

text \<open>The zero \<open>time.Time\<close>, which \<open>IsZero\<close> recognises: year 1 in UTC.\<close>

definition zero_time :: gotime where
  "zero_time = - 62135596800000000000"

definition nsec :: duration where "nsec = 1000000000"
definition nmin :: duration where "nmin = 60000000000"

subsection \<open>Strings\<close>

text \<open>
  \<open>strings.TrimSpace\<close> removes the white space of Unicode at both ends: the six ASCII
  characters, U+0085, U+00A0 and the longer encodings below. The first component of a
  pattern is the encoding of one white-space rune.
\<close>

definition space_runes :: "string list" where
  "space_runes =
     [[CHR 0x20], [CHR 0x09], [CHR 0x0A], [CHR 0x0B], [CHR 0x0C], [CHR 0x0D],
      [CHR 0xC2, CHR 0x85], [CHR 0xC2, CHR 0xA0], [CHR 0xE1, CHR 0x9A, CHR 0x80],
      [CHR 0xE2, CHR 0x80, CHR 0x80], [CHR 0xE2, CHR 0x80, CHR 0x81], [CHR 0xE2, CHR 0x80, CHR 0x82],
      [CHR 0xE2, CHR 0x80, CHR 0x83], [CHR 0xE2, CHR 0x80, CHR 0x84], [CHR 0xE2, CHR 0x80, CHR 0x85],
      [CHR 0xE2, CHR 0x80, CHR 0x86], [CHR 0xE2, CHR 0x80, CHR 0x87], [CHR 0xE2, CHR 0x80, CHR 0x88],
      [CHR 0xE2, CHR 0x80, CHR 0x89], [CHR 0xE2, CHR 0x80, CHR 0x8A], [CHR 0xE2, CHR 0x80, CHR 0xA8],
      [CHR 0xE2, CHR 0x80, CHR 0xA9], [CHR 0xE2, CHR 0x80, CHR 0xAF], [CHR 0xE2, CHR 0x81, CHR 0x9F],
      [CHR 0xE3, CHR 0x80, CHR 0x80]]"

fun strip_prefix :: "string \<Rightarrow> string \<Rightarrow> string option" where
  "strip_prefix [] s = Some s"
| "strip_prefix (p # ps) [] = None"
| "strip_prefix (p # ps) (c # s) = (if p = c then strip_prefix ps s else None)"

lemma strip_prefix_Some: "strip_prefix p s = Some r \<Longrightarrow> s = p @ r"
  by (induction p s rule: strip_prefix.induct) (auto split: if_splits)

fun strip_any :: "string list \<Rightarrow> string \<Rightarrow> string option" where
  "strip_any [] s = None"
| "strip_any (p # ps) s = (case strip_prefix p s of Some r \<Rightarrow> Some r | None \<Rightarrow> strip_any ps s)"

lemma strip_any_shorter:
  "strip_any ps s = Some r \<Longrightarrow> [] \<notin> set ps \<Longrightarrow> length r < length s"
  by (induction ps) (auto split: option.splits dest: strip_prefix_Some)

fun trim_with :: "string list \<Rightarrow> nat \<Rightarrow> string \<Rightarrow> string" where
  "trim_with ps 0 s = s"
| "trim_with ps (Suc n) s = (case strip_any ps s of Some r \<Rightarrow> trim_with ps n r | None \<Rightarrow> s)"

definition trim_left :: "string \<Rightarrow> string" where
  "trim_left s = trim_with space_runes (length s) s"

definition trim_right :: "string \<Rightarrow> string" where
  "trim_right s = rev (trim_with (map rev space_runes) (length s) (rev s))"

definition trim_space :: "string \<Rightarrow> string" where
  "trim_space s = trim_right (trim_left s)"

lemma strip_any_None: "strip_any ps s = None \<longleftrightarrow> (\<forall>p \<in> set ps. \<forall>r. s \<noteq> p @ r)"
proof -
  have strip: "strip_prefix p s = None \<longleftrightarrow> (\<forall>r. s \<noteq> p @ r)" for p s
    by (induction p s rule: strip_prefix.induct) auto
  show ?thesis by (induction ps) (auto simp: strip dest: strip_prefix_Some split: option.splits)
qed

lemma trim_with_stuck:
  "[] \<notin> set ps \<Longrightarrow> length s \<le> n \<Longrightarrow> strip_any ps (trim_with ps n s) = None"
proof (induction n arbitrary: s)
  case 0
  then show ?case by (auto simp: strip_any_None)
next
  case (Suc n)
  then show ?case using strip_any_shorter by (fastforce split: option.split)
qed

lemma trim_with_id: "strip_any ps s = None \<Longrightarrow> trim_with ps n s = s"
  by (cases n) auto

lemma trim_with_suffix: "\<exists>a. s = a @ trim_with ps n s"
proof (induction n arbitrary: s)
  case (Suc n)
  have strip: "\<exists>p. s = p @ r" if "strip_any ps s = Some r" for r
    using that by (induction ps) (auto split: option.splits dest: strip_prefix_Some)
  then show ?case using Suc.IH by (auto split: option.split) (metis append.assoc)
qed simp

lemma trim_space_idem [simp]: "trim_space (trim_space s) = trim_space s"
proof -
  define l where "l = trim_left s"
  define u where "u = trim_right l"
  have nonempty: "[] \<notin> set space_runes" "[] \<notin> set (map rev space_runes)" by (simp_all add: space_runes_def)
  have "strip_any space_runes l = None" unfolding l_def trim_left_def by (rule trim_with_stuck [OF nonempty(1)]) simp
  moreover have "\<exists>a. l = u @ a"
    using trim_with_suffix [of "rev l" "map rev space_runes" "length l"] unfolding u_def trim_right_def
    by (metis rev_append rev_rev_ident)
  ultimately have "strip_any space_runes u = None" by (auto simp: strip_any_None)
  then have left: "trim_left u = u" unfolding trim_left_def by (rule trim_with_id)
  have "strip_any (map rev space_runes) (rev u) = None"
    unfolding u_def trim_right_def rev_rev_ident by (rule trim_with_stuck [OF nonempty(2)]) simp
  then have "trim_right u = u" unfolding trim_right_def by (simp add: trim_with_id)
  then show ?thesis using left by (simp add: trim_space_def u_def [symmetric] l_def [symmetric])
qed

text \<open>
  \<open>strings.ToLower\<close> on ASCII letters. Bytes of a multi-byte rune are left as they are: the
  literals the code compares with have no upper-case letter beyond ASCII.
\<close>

definition lower_char :: "char \<Rightarrow> char" where
  "lower_char c = (let n = (of_char c :: nat) in if 65 \<le> n \<and> n \<le> 90 then char_of (n + 32) else c)"

definition to_lower :: "string \<Rightarrow> string" where
  "to_lower s = map lower_char s"

definition equal_fold :: "string \<Rightarrow> string \<Rightarrow> bool" where
  "equal_fold a b \<longleftrightarrow> to_lower a = to_lower b"

definition replace_char :: "char \<Rightarrow> char \<Rightarrow> string \<Rightarrow> string" where
  "replace_char a b s = map (\<lambda>c. if c = a then b else c) s"

fun str_contains :: "string \<Rightarrow> string \<Rightarrow> bool" where
  "str_contains [] p \<longleftrightarrow> p = []"
| "str_contains (c # s) p \<longleftrightarrow> take (length p) (c # s) = p \<or> str_contains s p"

lemma str_contains_iff: "str_contains s p \<longleftrightarrow> (\<exists>a b. s = a @ p @ b)"
proof (induction s)
  case Nil
  then show ?case by simp
next
  case (Cons c s)
  have "take (length p) (c # s) = p \<longleftrightarrow> (\<exists>b. c # s = p @ b)"
    by (metis append_eq_conv_conj append_take_drop_id)
  moreover have "(\<exists>a b. c # s = a @ p @ b) \<longleftrightarrow> (\<exists>b. c # s = p @ b) \<or> (\<exists>a b. s = a @ p @ b)"
    by (auto simp: Cons_eq_append_conv)
  ultimately show ?case using Cons.IH by simp
qed

lemma str_contains_self [simp]: "str_contains p p"
  by (auto simp: str_contains_iff intro: exI [of _ "[]"])

subsection \<open>Stable sorting by a strict order\<close>

text \<open>
  \<open>sort.SliceStable\<close> and, on a strict total order, \<open>sort.Slice\<close>: insertion from the right, an
  element going before the first one that is not smaller, so equal elements keep their order.
\<close>

fun insert_by :: "('a \<Rightarrow> 'a \<Rightarrow> bool) \<Rightarrow> 'a \<Rightarrow> 'a list \<Rightarrow> 'a list" where
  "insert_by lt x [] = [x]"
| "insert_by lt x (y # ys) = (if lt y x then y # insert_by lt x ys else x # y # ys)"

definition sort_by :: "('a \<Rightarrow> 'a \<Rightarrow> bool) \<Rightarrow> 'a list \<Rightarrow> 'a list" where
  "sort_by lt xs = foldr (insert_by lt) xs []"

lemma mset_insert_by [simp]: "mset (insert_by lt x ys) = add_mset x (mset ys)"
  by (induction ys) auto

lemma mset_sort_by [simp]: "mset (sort_by lt xs) = mset xs"
  by (induction xs) (auto simp: sort_by_def)

lemma set_sort_by [simp]: "set (sort_by lt xs) = set xs"
  by (metis mset_sort_by set_mset_mset)

lemma length_sort_by [simp]: "length (sort_by lt xs) = length xs"
  by (metis mset_sort_by size_mset)

lemma distinct_sort_by [simp]: "distinct (sort_by lt xs) = distinct xs"
  by (metis mset_sort_by mset_eq_imp_distinct_iff)

locale strict_weak =
  fixes lt :: "'a \<Rightarrow> 'a \<Rightarrow> bool"
  assumes lt_asym: "lt x y \<Longrightarrow> \<not> lt y x"
    and not_lt_trans: "\<not> lt y x \<Longrightarrow> \<not> lt z y \<Longrightarrow> \<not> lt z x"
begin

lemma insert_by_sorted:
  "sorted_wrt (\<lambda>a b. \<not> lt b a) ys \<Longrightarrow> sorted_wrt (\<lambda>a b. \<not> lt b a) (insert_by lt x ys)"
proof (induction ys)
  case Nil
  then show ?case by simp
next
  case (Cons y ys)
  have set_ins: "set (insert_by lt x ys) = insert x (set ys)"
    by (metis mset_insert_by set_mset_add_mset_insert set_mset_mset)
  show ?case
    using Cons set_ins by (auto dest: lt_asym not_lt_trans)
qed

lemma sort_by_sorted: "sorted_wrt (\<lambda>a b. \<not> lt b a) (sort_by lt xs)"
  by (induction xs) (auto simp: sort_by_def insert_by_sorted)

end

subsection \<open>Lists, options and folds\<close>

lemma fold_invariant:
  assumes "P s" and "\<And>x s. x \<in> set xs \<Longrightarrow> P s \<Longrightarrow> P (f x s)"
  shows "P (fold f xs s)"
  using assms by (induction xs arbitrary: s) auto

lemma length_filter_mono:
  "(\<And>x. x \<in> set xs \<Longrightarrow> P x \<Longrightarrow> Q x) \<Longrightarrow> length (filter P xs) \<le> length (filter Q xs)"
  by (induction xs) (auto simp: le_Suc_eq)

lemma sum_list_map_le:
  fixes f g :: "'a \<Rightarrow> int"
  shows "(\<And>x. x \<in> set xs \<Longrightarrow> f x \<le> g x) \<Longrightarrow> sum_list (map f xs) \<le> sum_list (map g xs)"
  by (induction xs) (auto intro: add_mono)

lemma sum_list_map_const: "sum_list (map (\<lambda>_. c) xs) = int (length xs) * c"
  by (induction xs) (auto simp: algebra_simps)

lemma sum_list_map_zero:
  fixes f :: "'a \<Rightarrow> int"
  shows "(\<And>x. x \<in> set xs \<Longrightarrow> f x = 0) \<Longrightarrow> sum_list (map f xs) = 0"
  by (induction xs) auto

lemma sum_list_map_update:
  fixes f :: "'a \<Rightarrow> int"
  shows "i < length cs \<Longrightarrow> sum_list (map f (cs[i := c])) = sum_list (map f cs) - f (cs ! i) + f c"
  by (induction cs arbitrary: i) (auto split: nat.splits)

lemma sort_remdups_Nil [simp]: "sort (remdups xs) = [] \<longleftrightarrow> xs = []"
  by (metis remdups_eq_nil_iff set_empty set_sort)

text \<open>Whether an optional value is there, decided without comparing values.\<close>

fun is_set :: "'a option \<Rightarrow> bool" where
  "is_set None \<longleftrightarrow> False"
| "is_set (Some x) \<longleftrightarrow> True"

lemma is_set_the: "is_set x \<Longrightarrow> x = Some (the x)"
  by (cases x) auto

text \<open>The first element satisfying a predicate of a list, with its position.\<close>

fun index_where :: "('a \<Rightarrow> bool) \<Rightarrow> 'a list \<Rightarrow> nat option" where
  "index_where p [] = None"
| "index_where p (x # xs) = (if p x then Some 0 else map_option Suc (index_where p xs))"

text \<open>\<open>x, err := f(); if err != nil { return err }\<close>\<close>

definition sum_bind :: "'e + 'a \<Rightarrow> ('a \<Rightarrow> 'e + 'b) \<Rightarrow> 'e + 'b" where
  "sum_bind r f = (case r of Inl e \<Rightarrow> Inl e | Inr x \<Rightarrow> f x)"

lemma sum_bind_Inr: "sum_bind r f = Inr y \<longleftrightarrow> (\<exists>x. r = Inr x \<and> f x = Inr y)"
  by (cases r) (simp_all add: sum_bind_def)

lemma map_sum_Inr: "map_sum f g r = Inr y \<longleftrightarrow> (\<exists>x. r = Inr x \<and> y = g x)"
  by (cases r) auto

end
