(* ===== verification/Lease_Store.thy ===== *)
theory Lease_Store
  imports Prelude
begin

text \<open>
  The persistent mutation leases of business/mutation_lease.go and business/lease_transaction.go:
  one row of the table scheduler_leases per leased name. Each operation is one transaction; a
  database failure anywhere in it (the argument \<open>fault\<close>) rolls it back and is the error
  \<open>StoreFault\<close>. The chunks of 500 names the statements are split into run inside one
  transaction and are one pass over the names here. A row whose expiry text does not parse is a
  row with \<open>lr_expires = None\<close>.

  The interface \<open>lease_store\<close> states what the resource guard relies on; its interpretation on
  this model is at the end.
\<close>

datatype lease_error =
    InvalidLeaseResource
  | NoLeaseResource
  | InvalidLeaseArguments
  | InvalidLeaseExpiry string
  | StoreFault

record lease_row =
  lr_owner :: string
  lr_checked :: gotime
  lr_acquired :: gotime
  lr_renewed :: gotime
  lr_expires :: "gotime option"

type_synonym leases = "string \<rightharpoonup> lease_row"

definition mutation_lease_prefix :: string where
  "mutation_lease_prefix = ''mutation/''"

text \<open>\<open>mutationLeaseNames\<close>: trimmed, non-empty, at most 512 bytes, prefixed, without duplicates, sorted.\<close>

fun valid_lease_resources :: "string list \<Rightarrow> bool" where
  "valid_lease_resources [] \<longleftrightarrow> True"
| "valid_lease_resources (r # rs) \<longleftrightarrow>
     (let t = trim_space r in t \<noteq> [] \<and> length t \<le> 512) \<and> valid_lease_resources rs"

definition mutation_lease_names :: "string list \<Rightarrow> lease_error + string list" where
  "mutation_lease_names resources =
     (if \<not> valid_lease_resources resources then Inl InvalidLeaseResource
      else if resources = [] then Inl NoLeaseResource
      else Inr (sort (remdups (map (\<lambda>r. mutation_lease_prefix @ trim_space r) resources))))"

text \<open>
  The first loop of \<open>AcquireMutationLease\<close>: the rows of the names, in the names' order. A live
  row of another owner answers \<open>False\<close>, an unreadable expiry is an error.
\<close>

fun lease_conflict :: "leases \<Rightarrow> string \<Rightarrow> gotime \<Rightarrow> string list \<Rightarrow> lease_error + bool" where
  "lease_conflict db owner now [] = Inr True"
| "lease_conflict db owner now (n # ns) =
     (case db n of
        None \<Rightarrow> lease_conflict db owner now ns
      | Some row \<Rightarrow>
          (case lr_expires row of
             None \<Rightarrow> Inl (InvalidLeaseExpiry n)
           | Some e \<Rightarrow>
               if lr_owner row \<noteq> owner \<and> now < e then Inr False
               else lease_conflict db owner now ns))"

definition insert_leases :: "string \<Rightarrow> gotime \<Rightarrow> duration \<Rightarrow> string list \<Rightarrow> leases \<Rightarrow> leases" where
  "insert_leases owner now ttl names db =
     (\<lambda>n. if n \<in> set names
          then Some \<lparr>lr_owner = owner, lr_checked = now, lr_acquired = now, lr_renewed = now,
                     lr_expires = Some (now + ttl)\<rparr>
          else db n)"

definition acquire_mutation_lease ::
  "bool \<Rightarrow> string \<Rightarrow> string list \<Rightarrow> gotime \<Rightarrow> duration \<Rightarrow> leases \<Rightarrow> (lease_error + bool) \<times> leases" where
  "acquire_mutation_lease fault owner resources now ttl db =
     (let owner = trim_space owner in
      case mutation_lease_names resources of
        Inl e \<Rightarrow> (Inl e, db)
      | Inr names \<Rightarrow>
          if owner = [] \<or> ttl < nsec then (Inl InvalidLeaseArguments, db)
          else if fault then (Inl StoreFault, db)
          else (case lease_conflict db owner now names of
                  Inl e \<Rightarrow> (Inl e, db)
                | Inr False \<Rightarrow> (Inr False, db)
                | Inr True \<Rightarrow> (Inr True, insert_leases owner now ttl names db)))"

text \<open>
  \<open>renewLeaseNames\<close>: every name has a row of this owner that has not expired, else nothing is
  renewed.
\<close>

fun renewal_valid :: "leases \<Rightarrow> string \<Rightarrow> gotime \<Rightarrow> string list \<Rightarrow> lease_error + bool" where
  "renewal_valid db owner now [] = Inr True"
| "renewal_valid db owner now (n # ns) =
     (case db n of
        None \<Rightarrow> (case renewal_valid db owner now ns of Inl e \<Rightarrow> Inl e | Inr _ \<Rightarrow> Inr False)
      | Some row \<Rightarrow>
          (case lr_expires row of
             None \<Rightarrow> Inl (InvalidLeaseExpiry n)
           | Some e \<Rightarrow>
               (case renewal_valid db owner now ns of
                  Inl err \<Rightarrow> Inl err
                | Inr ok \<Rightarrow> Inr (lr_owner row = owner \<and> now < e \<and> ok))))"

definition update_leases :: "gotime \<Rightarrow> duration \<Rightarrow> string list \<Rightarrow> leases \<Rightarrow> leases" where
  "update_leases now ttl names db =
     (\<lambda>n. if n \<in> set names
          then map_option (\<lambda>row. row\<lparr>lr_renewed := now, lr_expires := Some (now + ttl)\<rparr>) (db n)
          else db n)"

text \<open>
  The names go to the database in chunks of 500; a chunk with a missing, foreign or expired row
  ends the renewal before the next chunk is read.
\<close>

definition mutation_lease_sql_chunk :: nat where
  "mutation_lease_sql_chunk = 500"

function lease_chunks :: "string list \<Rightarrow> string list list" where
  "lease_chunks ns =
     (if ns = [] then []
      else take mutation_lease_sql_chunk ns # lease_chunks (drop mutation_lease_sql_chunk ns))"
  by pat_completeness auto
termination
  by (relation "measure length") (auto simp: mutation_lease_sql_chunk_def)

declare lease_chunks.simps [simp del]

lemma concat_lease_chunks: "concat (lease_chunks ns) = ns"
  by (induction ns rule: lease_chunks.induct) (subst lease_chunks.simps, simp)

fun renewal_chunks_valid :: "leases \<Rightarrow> string \<Rightarrow> gotime \<Rightarrow> string list list \<Rightarrow> lease_error + bool" where
  "renewal_chunks_valid db owner now [] = Inr True"
| "renewal_chunks_valid db owner now (c # cs) =
     (case renewal_valid db owner now c of
        Inl e \<Rightarrow> Inl e
      | Inr False \<Rightarrow> Inr False
      | Inr True \<Rightarrow> renewal_chunks_valid db owner now cs)"

definition renew_lease_names ::
  "bool \<Rightarrow> string \<Rightarrow> string list \<Rightarrow> gotime \<Rightarrow> duration \<Rightarrow> leases \<Rightarrow> (lease_error + bool) \<times> leases" where
  "renew_lease_names fault owner names now ttl db =
     (if fault then (Inl StoreFault, db)
      else case renewal_chunks_valid db owner now (lease_chunks names) of
             Inl e \<Rightarrow> (Inl e, db)
           | Inr False \<Rightarrow> (Inr False, db)
           | Inr True \<Rightarrow> (Inr True, update_leases now ttl names db))"

definition renew_mutation_lease ::
  "bool \<Rightarrow> string \<Rightarrow> string list \<Rightarrow> gotime \<Rightarrow> duration \<Rightarrow> leases \<Rightarrow> (lease_error + bool) \<times> leases" where
  "renew_mutation_lease fault owner resources now ttl db =
     (let owner = trim_space owner in
      case mutation_lease_names resources of
        Inl e \<Rightarrow> (Inl e, db)
      | Inr names \<Rightarrow>
          if owner = [] \<or> ttl < nsec then (Inl InvalidLeaseArguments, db)
          else renew_lease_names fault owner names now ttl db)"

definition release_mutation_lease ::
  "bool \<Rightarrow> string \<Rightarrow> string list \<Rightarrow> leases \<Rightarrow> (lease_error + unit) \<times> leases" where
  "release_mutation_lease fault owner resources db =
     (let owner = trim_space owner in
      case mutation_lease_names resources of
        Inl e \<Rightarrow> (Inl e, db)
      | Inr names \<Rightarrow>
          if owner = [] then (Inl InvalidLeaseArguments, db)
          else if fault then (Inl StoreFault, db)
          else (Inr (),
                (\<lambda>n. if n \<in> set names
                     then (case db n of
                             Some row \<Rightarrow> if lr_owner row = owner then None else Some row
                           | None \<Rightarrow> None)
                     else db n)))"

text \<open>Who holds a name at a time: the owner of a row that has not expired.\<close>

definition holds_lease :: "leases \<Rightarrow> string \<Rightarrow> string \<Rightarrow> gotime \<Rightarrow> bool" where
  "holds_lease db owner name t \<longleftrightarrow>
     (case db name of
        None \<Rightarrow> False
      | Some row \<Rightarrow> lr_owner row = owner \<and> (case lr_expires row of None \<Rightarrow> False | Some e \<Rightarrow> t < e))"

subsection \<open>Facts about the operations\<close>

lemma mutation_lease_names_Inr:
  "mutation_lease_names rs = Inr ns \<Longrightarrow>
     ns \<noteq> [] \<and> distinct ns \<and> sorted ns \<and> set ns = (\<lambda>r. mutation_lease_prefix @ trim_space r) ` set rs"
  by (auto simp: mutation_lease_names_def split: if_splits)

lemma lease_conflict_True:
  "lease_conflict db owner now ns = Inr True \<Longrightarrow> n \<in> set ns \<Longrightarrow> holds_lease db other n now \<Longrightarrow> other = owner"
  by (induction ns) (auto simp: holds_lease_def split: option.splits if_splits)

lemma lease_conflict_free:
  "(\<And>n. n \<in> set ns \<Longrightarrow> db n = None) \<Longrightarrow> lease_conflict db owner now ns = Inr True"
  by (induction ns) auto

lemma renewal_valid_True:
  "renewal_valid db owner now ns = Inr True \<Longrightarrow> n \<in> set ns \<Longrightarrow> holds_lease db owner n now"
  by (induction ns) (auto simp: holds_lease_def split: option.splits sum.splits)

lemma renewal_chunks_valid_True:
  "renewal_chunks_valid db owner now cs = Inr True \<Longrightarrow> n \<in> set (concat cs) \<Longrightarrow> holds_lease db owner n now"
  by (induction cs) (auto split: sum.splits bool.splits intro: renewal_valid_True)

lemma acquire_Inr_True:
  assumes "acquire_mutation_lease fault owner rs now ttl db = (Inr True, db')"
  obtains ns where "mutation_lease_names rs = Inr ns" "trim_space owner \<noteq> []" "nsec \<le> ttl"
    "lease_conflict db (trim_space owner) now ns = Inr True"
    "db' = insert_leases (trim_space owner) now ttl ns db"
  using assms
  by (auto simp: acquire_mutation_lease_def Let_def split: sum.splits if_splits bool.splits)

lemma renew_Inr_True:
  assumes "renew_mutation_lease fault owner rs now ttl db = (Inr True, db')"
  obtains ns where "mutation_lease_names rs = Inr ns" "trim_space owner \<noteq> []" "nsec \<le> ttl"
    "\<And>n. n \<in> set ns \<Longrightarrow> holds_lease db (trim_space owner) n now"
    "db' = update_leases now ttl ns db"
  using assms
  using renewal_chunks_valid_True [of db "trim_space owner" now "lease_chunks _"]
  by (fastforce simp: renew_mutation_lease_def renew_lease_names_def Let_def concat_lease_chunks
      split: sum.splits if_splits bool.splits)

lemma acquire_atomic:
  "fst (acquire_mutation_lease fault owner rs now ttl db) \<noteq> Inr True \<Longrightarrow>
     snd (acquire_mutation_lease fault owner rs now ttl db) = db"
  by (auto simp: acquire_mutation_lease_def Let_def split: sum.splits bool.splits)

lemma renew_atomic:
  "fst (renew_mutation_lease fault owner rs now ttl db) \<noteq> Inr True \<Longrightarrow>
     snd (renew_mutation_lease fault owner rs now ttl db) = db"
  by (auto simp: renew_mutation_lease_def renew_lease_names_def Let_def split: sum.splits bool.splits)

lemma holds_insert_leases:
  "holds_lease (insert_leases owner now ttl ns db) w' n t \<longleftrightarrow>
     (if n \<in> set ns then w' = owner \<and> t < now + ttl else holds_lease db w' n t)"
  by (auto simp: holds_lease_def insert_leases_def)

lemma insert_leases_other: "n \<notin> set ns \<Longrightarrow> insert_leases owner now ttl ns db n = db n"
  by (simp add: insert_leases_def)

lemma holds_update_leases:
  "holds_lease (update_leases now ttl ns db) w' n t \<longleftrightarrow>
     (if n \<in> set ns then (\<exists>row. db n = Some row \<and> lr_owner row = w') \<and> t < now + ttl
      else holds_lease db w' n t)"
  by (auto simp: holds_lease_def update_leases_def split: option.splits)

lemma release_db:
  "snd (release_mutation_lease fault owner rs db) n = db n \<or>
     (snd (release_mutation_lease fault owner rs db) n = None \<and>
      (\<exists>row. db n = Some row \<and> lr_owner row = trim_space owner))"
  by (auto simp: release_mutation_lease_def Let_def split: sum.splits if_splits option.splits)

subsection \<open>The interface of the lease store\<close>

text \<open>One operation of a process on the store, and a run of operations by several processes.\<close>

datatype lease_op =
    Acquire_Op bool string "string list" gotime duration
  | Renew_Op bool string "string list" gotime duration
  | Release_Op bool string "string list"

fun op_owner :: "lease_op \<Rightarrow> string" where
  "op_owner (Acquire_Op _ owner _ _ _) = trim_space owner"
| "op_owner (Renew_Op _ owner _ _ _) = trim_space owner"
| "op_owner (Release_Op _ owner _) = trim_space owner"

fun op_time :: "lease_op \<Rightarrow> gotime option" where
  "op_time (Acquire_Op _ _ _ now _) = Some now"
| "op_time (Renew_Op _ _ _ now _) = Some now"
| "op_time (Release_Op _ _ _) = None"

definition op_no_later :: "gotime \<Rightarrow> lease_op \<Rightarrow> bool" where
  "op_no_later t x = (case op_time x of None \<Rightarrow> True | Some now \<Rightarrow> now \<le> t)"

fun run_lease_op :: "leases \<Rightarrow> lease_op \<Rightarrow> leases" where
  "run_lease_op db (Acquire_Op f owner rs now ttl) = snd (acquire_mutation_lease f owner rs now ttl db)"
| "run_lease_op db (Renew_Op f owner rs now ttl) = snd (renew_mutation_lease f owner rs now ttl db)"
| "run_lease_op db (Release_Op f owner rs) = snd (release_mutation_lease f owner rs db)"

definition run_lease_ops :: "leases \<Rightarrow> lease_op list \<Rightarrow> leases" where
  "run_lease_ops db ops = foldl run_lease_op db ops"

text \<open>
  What the resource guard relies on: an answer true means every requested name is now held until
  the new expiry and was held by nobody else; any other answer leaves the store as it was; no
  operation takes a name away from another owner before its lease expires.
\<close>

locale lease_store =
  fixes holds :: "'db \<Rightarrow> string \<Rightarrow> string \<Rightarrow> gotime \<Rightarrow> bool"
    and run :: "'db \<Rightarrow> lease_op \<Rightarrow> 'db"
  assumes holds_earlier: "holds db w r t \<Longrightarrow> t' \<le> t \<Longrightarrow> holds db w r t'"
    and holds_unique: "holds db w r t \<Longrightarrow> holds db w' r t \<Longrightarrow> w' = w"
    and op_keeps: "holds db w r t \<Longrightarrow> op_owner x \<noteq> w \<Longrightarrow> op_no_later t x \<Longrightarrow> holds (run db x) w r t"
begin

lemma run_keeps:
  "holds db w r t \<Longrightarrow> \<forall>x \<in> set ops. op_owner x \<noteq> w \<and> op_no_later t x \<Longrightarrow> holds (foldl run db ops) w r t"
  by (induction ops arbitrary: db) (auto intro: op_keeps)

lemma no_second_holder:
  assumes "holds db w r t" and "\<forall>x \<in> set ops. op_owner x \<noteq> w \<and> op_no_later t x"
    and "holds (foldl run db ops) w' r t"
  shows "w' = w"
  using run_keeps [OF assms(1,2)] assms(3) by (rule holds_unique)

end

lemma renewed_elsewhere:
  assumes "holds_lease db w r t" and "trim_space owner \<noteq> w"
    and "\<And>n. n \<in> set ns \<Longrightarrow> holds_lease db (trim_space owner) n now" and "now \<le> t"
  shows "r \<notin> set ns"
proof
  assume "r \<in> set ns"
  then have "holds_lease db (trim_space owner) r now" by (rule assms(3))
  with assms(1,2) show False by (auto simp: holds_lease_def split: option.splits)
qed

lemma run_lease_op_keeps:
  assumes h: "holds_lease db w r t" and w: "op_owner x \<noteq> w" and t: "op_no_later t x"
  shows "holds_lease (run_lease_op db x) w r t"
proof (cases x)
  case (Acquire_Op f owner rs now ttl)
  show ?thesis
  proof (cases "fst (acquire_mutation_lease f owner rs now ttl db) = Inr True")
    case False
    then show ?thesis using h Acquire_Op by (simp add: acquire_atomic)
  next
    case True
    then obtain ns where c: "lease_conflict db (trim_space owner) now ns = Inr True"
      and db: "snd (acquire_mutation_lease f owner rs now ttl db) = insert_leases (trim_space owner) now ttl ns db"
      by (metis acquire_Inr_True prod.collapse)
    have "holds_lease db w r now"
      using h t Acquire_Op by (auto simp: holds_lease_def op_no_later_def split: option.splits)
    then have "r \<notin> set ns" using lease_conflict_True [OF c] w Acquire_Op by force
    then show ?thesis using h db Acquire_Op by (simp add: holds_insert_leases)
  qed
next
  case (Renew_Op f owner rs now ttl)
  show ?thesis
  proof (cases "fst (renew_mutation_lease f owner rs now ttl db) = Inr True")
    case False
    then show ?thesis using h Renew_Op by (simp add: renew_atomic)
  next
    case True
    then obtain ns where v: "\<And>n. n \<in> set ns \<Longrightarrow> holds_lease db (trim_space owner) n now"
      and db: "snd (renew_mutation_lease f owner rs now ttl db) = update_leases now ttl ns db"
      by (metis renew_Inr_True prod.collapse)
    have "r \<notin> set ns"
      using renewed_elsewhere [OF h _ v] w t Renew_Op by (auto simp: op_no_later_def)
    then show ?thesis using h db Renew_Op by (simp add: holds_update_leases)
  qed
next
  case (Release_Op f owner rs)
  then show ?thesis
    using h w release_db [of f owner rs db r] by (auto simp: holds_lease_def split: option.splits)
qed

interpretation ls: lease_store holds_lease run_lease_op
proof unfold_locales
  show "holds_lease db w r t \<Longrightarrow> t' \<le> t \<Longrightarrow> holds_lease db w r t'" for db w r t t'
    by (auto simp: holds_lease_def split: option.splits)
  show "holds_lease db w r t \<Longrightarrow> holds_lease db w' r t \<Longrightarrow> w' = w" for db w w' r t
    by (auto simp: holds_lease_def split: option.splits)
qed (rule run_lease_op_keeps)

subsection \<open>Properties\<close>

text \<open>
  C1: Between processes a lease excludes. Whatever operations other owners run on the store,
  with clocks not past t, an owner holding a name at time t still holds it, so nobody else does.
\<close>

theorem lease_mutual_exclusion:
  assumes "holds_lease db w r t"
    and "\<forall>x \<in> set ops. op_owner x \<noteq> w \<and> op_no_later t x"
  shows "holds_lease (run_lease_ops db ops) w r t \<and>
    (\<forall>w'. holds_lease (run_lease_ops db ops) w' r t \<longrightarrow> w' = w)"
  unfolding run_lease_ops_def using ls.run_keeps [OF assms] ls.no_second_holder [OF assms] by blast

definition sample_leases :: leases where
  "sample_leases = snd (acquire_mutation_lease False ''a'' [''r''] 0 (120 * nsec) Map.empty)"

lemma holds_sample: "holds_lease sample_leases ''a'' ''mutation/r'' (60 * nsec)"
  by (simp add: sample_leases_def acquire_mutation_lease_def mutation_lease_names_def holds_insert_leases
      trim_space_def trim_left_def trim_right_def space_runes_def mutation_lease_prefix_def nsec_def Let_def)

theorem lease_mutual_exclusion_witness:
  "holds_lease (run_lease_ops sample_leases
     [Acquire_Op False ''b'' [''r''] (30 * nsec) (120 * nsec), Release_Op False ''b'' [''r'']])
     ''a'' ''mutation/r'' (60 * nsec)"
  by (rule lease_mutual_exclusion [THEN conjunct1, OF holds_sample])
    (simp add: op_no_later_def trim_space_def trim_left_def trim_right_def space_runes_def nsec_def)

text \<open>
  C2: Acquisition is all or nothing. A grant leaves every requested name held by the caller until
  exactly now + ttl, no other owner held any of them at the time, and the rows of all other names
  are as before; without a grant the table is unchanged.
\<close>

theorem acquire_all_or_nothing:
  "case acquire_mutation_lease fault owner rs now ttl db of
     (Inr True, db') \<Rightarrow>
       (\<exists>ns. mutation_lease_names rs = Inr ns \<and>
         (\<forall>n. if n \<in> set ns
               then (\<forall>t. holds_lease db' (trim_space owner) n t \<longleftrightarrow> t < now + ttl) \<and>
                    (\<nexists>w. w \<noteq> trim_space owner \<and> holds_lease db w n now)
               else db' n = db n))
   | (_, db') \<Rightarrow> db' = db"
proof -
  obtain res db' where acq: "acquire_mutation_lease fault owner rs now ttl db = (res, db')"
    by (cases "acquire_mutation_lease fault owner rs now ttl db") auto
  show ?thesis
  proof (cases "res = Inr True")
    case True
    with acq have "acquire_mutation_lease fault owner rs now ttl db = (Inr True, db')" by simp
    then obtain ns where "mutation_lease_names rs = Inr ns"
      and c: "lease_conflict db (trim_space owner) now ns = Inr True"
      and "db' = insert_leases (trim_space owner) now ttl ns db"
      by (rule acquire_Inr_True)
    then show ?thesis
      using acq True lease_conflict_True [OF c]
      by (auto simp: holds_insert_leases insert_leases_other intro!: exI [of _ ns])
  next
    case False
    with acq acquire_atomic [of fault owner rs now ttl db] have "db' = db" by simp
    with False acq show ?thesis by (auto split: sum.splits bool.splits)
  qed
qed

end
