(* ===== verification/Mutation_Guard.thy ===== *)
theory Mutation_Guard
  imports Lease_Store
begin

text \<open>
  The resource guard of mutationguard/guard.go: the names of the resources a mutation locks, the
  chain of resources the current context already holds, the checks a nested acquisition passes,
  the acquisition loops over the lease store and over the process-local locks, and the registry
  through which an interactive mutation preempts an automatic inspection.

  The chain of a context is the list of its \<open>heldResourceState\<close>s, innermost first. What the loops
  read from outside (the resolver's answers, the store's answers, the clock, a cancelled context)
  is the script of rounds they consume; a script that ends before the loop does leaves the
  acquisition \<open>Blocked\<close>, still waiting. The calls the loop makes are its trace.
\<close>

datatype ctx_error = Canceled | DeadlineExceeded

datatype guard_error =
    EmptyResource
  | NoResource
  | PartialResourceOverlap
  | ResourceOrderViolation
  | ContextErr ctx_error
  | ResolverErr string
  | StoreErr lease_error
  | ReleaseErr lease_error
  | JoinedErr guard_error "lease_error option"
  | OwnerErr

subsection \<open>Resource names\<close>

definition account_resource :: "string \<Rightarrow> string" where
  "account_resource i = ''account/'' @ trim_space i"

definition account_catalog :: string where "account_catalog = ''account-catalog''"
definition management_target :: string where "management_target = ''management-target''"
definition upstream_catalog :: string where "upstream_catalog = ''upstream-catalog''"

definition vault_resource :: "string \<Rightarrow> string" where
  "vault_resource i = ''vault/'' @ trim_space i"

fun trim_slashes :: "string \<Rightarrow> string" where
  "trim_slashes s = rev (dropWhile (\<lambda>c. c = CHR ''/'') (rev s))"

text \<open>
  \<open>CanonicalHost\<close>: \<open>parse\<close> stands for \<open>url.Parse\<close>, giving the host and the path of a URL.
\<close>

definition canonical_host :: "(string \<Rightarrow> (string \<times> string) option) \<Rightarrow> string \<Rightarrow> string" where
  "canonical_host parse value =
     (let normalized = trim_slashes (trim_space value);
          normalized = (if str_contains normalized ''://''
                        then (case parse normalized of
                                None \<Rightarrow> normalized
                              | Some (host, path) \<Rightarrow> if host \<noteq> [] then host else path)
                        else normalized)
      in to_lower (trim_slashes normalized))"

definition upstream_key_catalog :: "(string \<Rightarrow> (string \<times> string) option) \<Rightarrow> string \<Rightarrow> string" where
  "upstream_key_catalog parse host =
     (let h = canonical_host parse host in if h = [] then [] else ''upstream-keys/'' @ h)"

definition upstream_resource :: "(string \<Rightarrow> (string \<times> string) option) \<Rightarrow> string \<Rightarrow> string" where
  "upstream_resource parse host =
     (let h = canonical_host parse host in if h = [] then [] else ''upstream/'' @ h)"

definition normalize_resources :: "string list \<Rightarrow> guard_error + string list" where
  "normalize_resources resources =
     (let names = map trim_space resources in
      if [] \<in> set names then Inl EmptyResource
      else if names = [] then Inl NoResource
      else Inr (sort (remdups names)))"

lemma normalize_resources_Inr:
  assumes "normalize_resources rs = Inr ns"
  shows "ns \<noteq> [] \<and> sorted ns \<and> distinct ns \<and> set ns = trim_space ` set rs \<and> [] \<notin> set ns"
proof -
  from assms have "ns = sort (remdups (map trim_space rs))" "rs \<noteq> []" "[] \<notin> trim_space ` set rs"
    by (auto simp: normalize_resources_def Let_def split: if_splits)
  then show ?thesis by (auto simp del: remdups_map_remdups)
qed

subsection \<open>Held resources\<close>

record held_state =
  hs_requested :: "string list"
  hs_locked :: "string list"
  hs_active :: bool

definition resource_found :: "(held_state \<Rightarrow> string list) \<Rightarrow> held_state list \<Rightarrow> string \<Rightarrow> bool" where
  "resource_found namespace chain r \<longleftrightarrow> list_ex (\<lambda>h. hs_active h \<and> r \<in> set (namespace h)) chain"

text \<open>\<open>heldResourceCoverage\<close>: (some resource is held, some resource is not).\<close>

definition held_resource_coverage ::
  "held_state list \<Rightarrow> string list \<Rightarrow> (held_state \<Rightarrow> string list) \<Rightarrow> bool \<times> bool" where
  "held_resource_coverage chain resources namespace =
     (list_ex (resource_found namespace chain) resources,
      list_ex (\<lambda>r. \<not> resource_found namespace chain r) resources)"

definition holds_locked_resources :: "held_state list \<Rightarrow> string list \<Rightarrow> bool" where
  "holds_locked_resources chain resources =
     (let (held, missing) = held_resource_coverage chain resources hs_locked in held \<and> \<not> missing)"

definition later_lock :: "string \<Rightarrow> string option \<Rightarrow> string option" where
  "later_lock r l = (case l of None \<Rightarrow> Some r | Some m \<Rightarrow> if m < r then Some r else Some m)"

definition last_locked :: "held_state list \<Rightarrow> string option" where
  "last_locked chain = fold later_lock (concat (map hs_locked (filter hs_active chain))) None"

definition nested_resource_order_violated :: "held_state list \<Rightarrow> string list \<Rightarrow> bool" where
  "nested_resource_order_violated chain resources =
     (case (last_locked chain, resources) of
        (Some l, r # _) \<Rightarrow> r \<le> l
      | _ \<Rightarrow> False)"

definition resolved_resources_held ::
  "held_state list \<Rightarrow> string list \<Rightarrow> string list \<Rightarrow> bool \<Rightarrow> guard_error + bool" where
  "resolved_resources_held chain requested resolved resolves =
     (let (held, missing) = held_resource_coverage chain resolved hs_locked in
      if held \<and> missing then Inl PartialResourceOverlap
      else if held then Inr True
      else if resolves \<and> fst (held_resource_coverage chain requested hs_requested)
      then Inl PartialResourceOverlap
      else if missing \<and> nested_resource_order_violated chain resolved
      then Inl ResourceOrderViolation
      else Inr False)"

definition with_held_resources ::
  "held_state list \<Rightarrow> string list \<Rightarrow> string list \<Rightarrow> bool \<Rightarrow> held_state list" where
  "with_held_resources chain requested locked resolves =
     \<lparr>hs_requested = (if resolves then requested else []), hs_locked = locked, hs_active = True\<rparr> # chain"

text \<open>The resources the active states of a chain lock.\<close>

definition chain_locks :: "held_state list \<Rightarrow> string set" where
  "chain_locks chain = {r. resource_found hs_locked chain r}"

lemma chain_locks_concat: "chain_locks chain = set (concat (map hs_locked (filter hs_active chain)))"
  by (auto simp: chain_locks_def resource_found_def list_ex_iff)

lemma later_lock_eq: "later_lock r l = Some (case l of None \<Rightarrow> r | Some m \<Rightarrow> max m r)"
  by (auto simp: later_lock_def max_def split: option.splits)

lemma later_lock_fold: "fold later_lock rs (Some k) = Some (fold max rs k)"
  by (induction rs arbitrary: k) (auto simp: later_lock_eq max.commute)

lemma le_fold_max:
  fixes k :: "'a::linorder"
  shows "r \<in> insert k (set rs) \<Longrightarrow> r \<le> fold max rs k"
  by (metis List.finite_set Max.set_eq_fold Max_ge list.simps(15))

lemma later_lock_fold_None: "fold later_lock rs None = None \<longleftrightarrow> set rs = {}"
  by (cases rs) (auto simp: later_lock_eq later_lock_fold)

lemma last_locked_None: "last_locked chain = None \<longleftrightarrow> chain_locks chain = {}"
  unfolding last_locked_def chain_locks_concat by (rule later_lock_fold_None)

lemma last_locked_Some:
  assumes "last_locked chain = Some m" and "r \<in> chain_locks chain"
  shows "r \<le> m"
proof -
  obtain x xs where "concat (map hs_locked (filter hs_active chain)) = x # xs"
    using assms(2) by (cases "concat (map hs_locked (filter hs_active chain))") (auto simp: chain_locks_concat)
  with assms show ?thesis
    using le_fold_max [of r x xs] by (auto simp: last_locked_def chain_locks_concat later_lock_eq later_lock_fold)
qed

lemma order_not_violated:
  assumes "\<not> nested_resource_order_violated chain rs" and "sorted rs"
    and "h \<in> chain_locks chain" and "r \<in> set rs"
  shows "h < r"
proof -
  from assms(4) obtain x xs where rs: "rs = x # xs" by (cases rs) auto
  from assms(3) last_locked_None obtain l where l: "last_locked chain = Some l" by fastforce
  with assms(1) rs have "l < x" by (simp add: nested_resource_order_violated_def)
  moreover have "h \<le> l" using l assms(3) by (rule last_locked_Some)
  moreover have "x \<le> r" using assms(2,4) rs by auto
  ultimately show ?thesis by simp
qed

lemma resolved_resources_held_True:
  "resolved_resources_held chain requested resolved resolves = Inr True \<Longrightarrow> set resolved \<subseteq> chain_locks chain"
  by (auto simp: resolved_resources_held_def held_resource_coverage_def chain_locks_def Let_def
      list_ex_iff split: if_splits)

lemma resolved_resources_held_False:
  assumes "resolved_resources_held chain requested resolved resolves = Inr False"
    and "sorted resolved"
  shows "\<forall>h \<in> chain_locks chain. \<forall>r \<in> set resolved. h < r"
proof (cases "resolved = []")
  case False
  with assms(1) have "\<not> nested_resource_order_violated chain resolved"
    by (cases resolved)
      (auto simp: resolved_resources_held_def held_resource_coverage_def Let_def split: if_splits)
  then show ?thesis using order_not_violated assms(2) by blast
qed simp

subsection \<open>The registry of automatic inspections\<close>

text \<open>
  \<open>automaticLeaseRegistry\<close>: under each resource the identifiers of the registered automatic
  leases with the inspection they cancel. A resource without leases has no entry.
\<close>

record registry =
  reg_next :: nat
  reg_by :: "string \<rightharpoonup> (nat \<times> nat) list"

definition empty_registry :: registry where
  "empty_registry = \<lparr>reg_next = 0, reg_by = Map.empty\<rparr>"

definition leases_of :: "registry \<Rightarrow> string \<Rightarrow> (nat \<times> nat) list" where
  "leases_of reg r = (case reg_by reg r of None \<Rightarrow> [] | Some ls \<Rightarrow> ls)"

definition register_automatic :: "string list \<Rightarrow> nat \<Rightarrow> registry \<Rightarrow> nat \<times> registry" where
  "register_automatic resources inspection reg =
     (let i = reg_next reg + 1 in
      (i, \<lparr>reg_next = i,
           reg_by = (\<lambda>r. if r \<in> set resources
                         then Some ((i, inspection) # filter (\<lambda>l. fst l \<noteq> i) (leases_of reg r))
                         else reg_by reg r)\<rparr>))"

definition unregister_automatic :: "string list \<Rightarrow> nat \<Rightarrow> registry \<Rightarrow> registry" where
  "unregister_automatic resources i reg =
     reg\<lparr>reg_by := (\<lambda>r. if r \<in> set resources
                         then (let ls = filter (\<lambda>l. fst l \<noteq> i) (leases_of reg r) in
                               if ls = [] then None else Some ls)
                         else reg_by reg r)\<rparr>"

text \<open>\<open>preempt\<close>: the inspections whose leases touch one of the resources are cancelled.\<close>

definition preempt_automatic :: "string list \<Rightarrow> registry \<Rightarrow> nat list" where
  "preempt_automatic resources reg =
     map snd (remdups (concat (map (leases_of reg) resources)))"

definition registry_ok :: "registry \<Rightarrow> bool" where
  "registry_ok reg \<longleftrightarrow>
     (\<forall>r. reg_by reg r \<noteq> Some [] \<and> (\<forall>l \<in> set (leases_of reg r). fst l \<le> reg_next reg))"

lemma registry_ok_empty: "registry_ok empty_registry"
  by (simp add: registry_ok_def empty_registry_def leases_of_def)

lemma leases_of_register:
  "leases_of (snd (register_automatic rs c reg)) r =
     (if r \<in> set rs then (reg_next reg + 1, c) # filter (\<lambda>l. fst l \<noteq> reg_next reg + 1) (leases_of reg r)
      else leases_of reg r)"
  by (simp add: register_automatic_def leases_of_def Let_def)

lemma leases_of_unregister:
  "leases_of (unregister_automatic rs i reg) r =
     (if r \<in> set rs then filter (\<lambda>l. fst l \<noteq> i) (leases_of reg r) else leases_of reg r)"
  by (simp add: unregister_automatic_def leases_of_def Let_def)

lemma registry_ok_register:
  assumes "registry_ok reg"
  shows "registry_ok (snd (register_automatic rs c reg))"
proof -
  have nxt: "reg_next (snd (register_automatic rs c reg)) = reg_next reg + 1"
    and some: "reg_by (snd (register_automatic rs c reg)) r \<noteq> Some []" for r
    using assms by (auto simp: register_automatic_def registry_ok_def Let_def)
  have le: "l \<in> set (leases_of reg r) \<Longrightarrow> fst l \<le> reg_next reg" for l r
    using assms by (auto simp: registry_ok_def)
  show ?thesis
    by (auto simp: registry_ok_def leases_of_register nxt some split: if_splits intro: le_SucI dest!: le)
qed

lemma registry_ok_unregister:
  assumes "registry_ok reg"
  shows "registry_ok (unregister_automatic rs i reg)"
proof -
  have nxt: "reg_next (unregister_automatic rs i reg) = reg_next reg"
    and some: "reg_by (unregister_automatic rs i reg) r \<noteq> Some []" for r
    using assms by (auto simp: unregister_automatic_def registry_ok_def Let_def)
  have le: "l \<in> set (leases_of reg r) \<Longrightarrow> fst l \<le> reg_next reg" for l r
    using assms by (auto simp: registry_ok_def)
  show ?thesis
    by (auto simp: registry_ok_def leases_of_unregister nxt some split: if_splits intro: le_SucI dest!: le)
qed

lemma fresh_lease_filter:
  "registry_ok reg \<Longrightarrow> reg_next reg < i \<Longrightarrow> filter (\<lambda>l. fst l \<noteq> i) (leases_of reg r) = leases_of reg r"
  by (force simp: registry_ok_def filter_id_conv)

lemma unregister_register:
  assumes "registry_ok reg"
  shows "reg_by (unregister_automatic rs (reg_next reg + 1) (snd (register_automatic rs c reg))) = reg_by reg"
proof
  fix r
  have "leases_of reg r = [] \<longleftrightarrow> reg_by reg r = None"
    using assms by (auto simp: registry_ok_def leases_of_def split: option.splits)
  then show "reg_by (unregister_automatic rs (reg_next reg + 1) (snd (register_automatic rs c reg))) r = reg_by reg r"
    using fresh_lease_filter [OF assms, of "reg_next reg + 1" r]
    by (auto simp: unregister_automatic_def register_automatic_def leases_of_def Let_def split: option.splits)
qed

subsection \<open>Acquisition over the lease store\<close>

definition lease_ttl :: duration where "lease_ttl = 2 * nmin"
definition renewal_interval :: duration where "renewal_interval = 20 * nsec"
definition lease_call_timeout :: duration where "lease_call_timeout = 5 * nsec"

text \<open>
  The calls a loop makes on the registry, the store and the local locks. \<open>Call_Acquire rs ok\<close> is
  an acquisition with its answer, \<open>Call_Release rs refused\<close> a release with the error the store
  answered, if any, \<open>Call_Lock\<close> and \<open>Call_Unlock\<close> the process-local counterparts.
\<close>

datatype guard_call =
    Call_Preempt "string list"
  | Call_Acquire "string list" bool
  | Call_Release "string list" "lease_error option"
  | Call_Lock "string list"
  | Call_Unlock "string list"

datatype acquire_outcome =
    Acquire_Failed guard_error
  | Already_Held
  | Granted "string list" "gotime option"
  | Blocked

text \<open>
  One pass of the inner loop: the clock before and after the store's answer, the context's error
  if the call failed, the answer to a release of a lease granted too late, and whether the context
  ended during the pause before the next attempt.
\<close>

record store_attempt =
  sa_now :: gotime
  sa_result :: "lease_error + bool"
  sa_ctx :: "ctx_error option"
  sa_after :: gotime
  sa_release :: "lease_error option"
  sa_cancel :: "ctx_error option"

datatype attempt_outcome = Attempt_Failed guard_error | Attempt_Granted gotime | Attempt_Waiting

definition preempt_call :: "bool \<Rightarrow> string list \<Rightarrow> guard_call list" where
  "preempt_call automatic rs = (if automatic then [] else [Call_Preempt rs])"

fun lease_attempts ::
  "bool \<Rightarrow> string list \<Rightarrow> store_attempt list \<Rightarrow> attempt_outcome \<times> guard_call list" where
  "lease_attempts automatic rs [] = (Attempt_Waiting, [])"
| "lease_attempts automatic rs (a # as) =
     (let again = (case sa_cancel a of
                     Some c \<Rightarrow> (Attempt_Failed (ContextErr c), [])
                   | None \<Rightarrow> lease_attempts automatic rs as)
      in case sa_result a of
           Inl e \<Rightarrow>
             (Attempt_Failed (case sa_ctx a of Some c \<Rightarrow> ContextErr c | None \<Rightarrow> StoreErr e),
              preempt_call automatic rs @ [Call_Acquire rs False])
         | Inr False \<Rightarrow>
             (fst again, preempt_call automatic rs @ [Call_Acquire rs False] @ snd again)
         | Inr True \<Rightarrow>
             if sa_after a + (renewal_interval + lease_call_timeout) < sa_now a + lease_ttl
             then (Attempt_Granted (sa_now a + lease_ttl), preempt_call automatic rs @ [Call_Acquire rs True])
             else (case sa_release a of
                     Some e \<Rightarrow> (Attempt_Failed (ReleaseErr e),
                                preempt_call automatic rs @ [Call_Acquire rs True, Call_Release rs (Some e)])
                   | None \<Rightarrow> (fst again,
                              preempt_call automatic rs @ [Call_Acquire rs True, Call_Release rs None] @ snd again)))"

definition resolve_resources ::
  "bool \<Rightarrow> string list \<Rightarrow> guard_error + string list \<Rightarrow> guard_error + string list" where
  "resolve_resources resolves requested answer =
     (if \<not> resolves then Inr requested
      else case answer of Inl e \<Rightarrow> Inl e | Inr rs \<Rightarrow> normalize_resources rs)"

text \<open>One round of the outer loop: resolve, attempt, resolve again and compare.\<close>

record store_round =
  sr_resolved :: "guard_error + string list"
  sr_attempts :: "store_attempt list"
  sr_confirmed :: "guard_error + string list"
  sr_release :: "lease_error option"

fun acquire_backed ::
  "bool \<Rightarrow> held_state list \<Rightarrow> string list \<Rightarrow> bool \<Rightarrow> store_round list \<Rightarrow> acquire_outcome \<times> guard_call list" where
  "acquire_backed automatic chain requested resolves [] = (Blocked, [])"
| "acquire_backed automatic chain requested resolves (r # rounds) =
     (case resolve_resources resolves requested (sr_resolved r) of
        Inl e \<Rightarrow> (Acquire_Failed e, [])
      | Inr resolved \<Rightarrow>
          (case resolved_resources_held chain requested resolved resolves of
             Inl e \<Rightarrow> (Acquire_Failed e, [])
           | Inr True \<Rightarrow> (Already_Held, [])
           | Inr False \<Rightarrow>
               (let (outcome, calls) = lease_attempts automatic resolved (sr_attempts r) in
                case outcome of
                  Attempt_Failed e \<Rightarrow> (Acquire_Failed e, calls)
                | Attempt_Waiting \<Rightarrow> (Blocked, calls)
                | Attempt_Granted expires \<Rightarrow>
                    (case resolve_resources resolves requested (sr_confirmed r) of
                       Inl e \<Rightarrow> (Acquire_Failed (JoinedErr e (sr_release r)), calls @ [Call_Release resolved (sr_release r)])
                     | Inr confirmed \<Rightarrow>
                         if resolved \<noteq> confirmed
                         then (case sr_release r of
                                 Some e \<Rightarrow> (Acquire_Failed (ReleaseErr e), calls @ [Call_Release resolved (Some e)])
                               | None \<Rightarrow>
                                   (let (result, later) = acquire_backed automatic chain requested resolves rounds
                                    in (result, calls @ [Call_Release resolved None] @ later)))
                         else (Granted resolved (Some expires), calls)))))"

text \<open>The same loop over the process-local locks, when the repository has no lease store.\<close>

record local_round =
  lr_resolved :: "guard_error + string list"
  lr_locked :: "ctx_error option"
  lr_confirmed :: "guard_error + string list"

fun acquire_local ::
  "bool \<Rightarrow> held_state list \<Rightarrow> string list \<Rightarrow> bool \<Rightarrow> local_round list \<Rightarrow> acquire_outcome \<times> guard_call list" where
  "acquire_local automatic chain requested resolves [] = (Blocked, [])"
| "acquire_local automatic chain requested resolves (r # rounds) =
     (case resolve_resources resolves requested (lr_resolved r) of
        Inl e \<Rightarrow> (Acquire_Failed e, [])
      | Inr resolved \<Rightarrow>
          (case resolved_resources_held chain requested resolved resolves of
             Inl e \<Rightarrow> (Acquire_Failed e, [])
           | Inr True \<Rightarrow> (Already_Held, [])
           | Inr False \<Rightarrow>
               (case lr_locked r of
                  Some c \<Rightarrow> (Acquire_Failed (ContextErr c), preempt_call automatic resolved)
                | None \<Rightarrow>
                    (let calls = preempt_call automatic resolved @ [Call_Lock resolved] in
                     case resolve_resources resolves requested (lr_confirmed r) of
                       Inl e \<Rightarrow> (Acquire_Failed e, calls @ [Call_Unlock resolved])
                     | Inr confirmed \<Rightarrow>
                         if resolved \<noteq> confirmed
                         then (let (result, later) = acquire_local automatic chain requested resolves rounds
                               in (result, calls @ [Call_Unlock resolved] @ later))
                         else (Granted resolved None, calls)))))"

text \<open>
  \<open>acquire\<close>: the context must be live; a repository without a resolver lets a context that holds
  everything requested pass at once; \<open>store\<close> says whether the repository is a lease store, and
  \<open>owner\<close> whether an owner identifier could be drawn.
\<close>

definition acquire_resources ::
  "ctx_error option \<Rightarrow> bool \<Rightarrow> held_state list \<Rightarrow> string list \<Rightarrow> bool \<Rightarrow> bool \<Rightarrow> bool \<Rightarrow>
     store_round list \<Rightarrow> local_round list \<Rightarrow> acquire_outcome \<times> guard_call list" where
  "acquire_resources ctx automatic chain resources resolves store owner rounds locals =
     (case ctx of
        Some c \<Rightarrow> (Acquire_Failed (ContextErr c), [])
      | None \<Rightarrow>
          (case normalize_resources resources of
             Inl e \<Rightarrow> (Acquire_Failed e, [])
           | Inr requested \<Rightarrow>
               if \<not> resolves \<and> holds_locked_resources chain requested then (Already_Held, [])
               else if \<not> store then acquire_local automatic chain requested resolves locals
               else if \<not> owner then (Acquire_Failed OwnerErr, [])
               else acquire_backed automatic chain requested resolves rounds))"

subsection \<open>What the loops leave behind\<close>

text \<open>
  The leases and local locks a trace leaves taken, newest first: a lease is given back only when the
  store answered its release without an error.
\<close>

fun open_leases :: "guard_call list \<Rightarrow> string list list \<Rightarrow> string list list" where
  "open_leases [] acc = acc"
| "open_leases (Call_Acquire rs True # cs) acc = open_leases cs (rs # acc)"
| "open_leases (Call_Acquire rs False # cs) acc = open_leases cs acc"
| "open_leases (Call_Release rs None # cs) acc = open_leases cs (remove1 rs acc)"
| "open_leases (Call_Release rs (Some e) # cs) acc = open_leases cs acc"
| "open_leases (Call_Lock rs # cs) acc = open_leases cs (rs # acc)"
| "open_leases (Call_Unlock rs # cs) acc = open_leases cs (remove1 rs acc)"
| "open_leases (Call_Preempt rs # cs) acc = open_leases cs acc"

text \<open>The leases whose release the store refused, and the failures that report such a refusal.\<close>

fun refused_releases :: "guard_call list \<Rightarrow> string list list" where
  "refused_releases [] = []"
| "refused_releases (Call_Release rs (Some e) # cs) = rs # refused_releases cs"
| "refused_releases (c # cs) = refused_releases cs"

fun reports_refusal :: "guard_error \<Rightarrow> bool" where
  "reports_refusal (ReleaseErr e) \<longleftrightarrow> True"
| "reports_refusal (JoinedErr e refused) \<longleftrightarrow> refused \<noteq> None"
| "reports_refusal _ \<longleftrightarrow> False"

lemma open_leases_append: "open_leases (xs @ ys) acc = open_leases ys (open_leases xs acc)"
  by (induction xs acc rule: open_leases.induct) auto

lemma refused_releases_append: "refused_releases (xs @ ys) = refused_releases xs @ refused_releases ys"
  by (induction xs rule: refused_releases.induct) auto

lemma open_leases_preempt [simp]:
  "open_leases (preempt_call automatic rs @ cs) acc = open_leases cs acc"
  "refused_releases (preempt_call automatic rs @ cs) = refused_releases cs"
  by (simp_all add: preempt_call_def)

lemma open_leases_preempt_only [simp]:
  "open_leases (preempt_call automatic rs) acc = acc" "refused_releases (preempt_call automatic rs) = []"
  by (simp_all add: preempt_call_def)

text \<open>What an outcome accounts for: the lease it grants, or one lease whose refused release it reports.\<close>

definition attempt_accounts :: "string list \<Rightarrow> attempt_outcome \<Rightarrow> guard_call list \<Rightarrow> bool" where
  "attempt_accounts rs outcome calls \<longleftrightarrow>
     (case outcome of
        Attempt_Granted e \<Rightarrow> refused_releases calls = [] \<and> (\<forall>acc. open_leases calls acc = rs # acc)
      | Attempt_Failed e \<Rightarrow>
          (refused_releases calls = [] \<or> refused_releases calls = [rs] \<and> reports_refusal e) \<and>
          (\<forall>acc. open_leases calls acc = refused_releases calls @ acc)
      | Attempt_Waiting \<Rightarrow> refused_releases calls = [] \<and> (\<forall>acc. open_leases calls acc = acc))"

lemma lease_attempts_account:
  "attempt_accounts rs (fst (lease_attempts automatic rs as)) (snd (lease_attempts automatic rs as))"
  by (induction as)
    (auto simp: attempt_accounts_def Let_def split: sum.splits bool.splits option.splits attempt_outcome.splits)

definition outcome_accounts :: "acquire_outcome \<Rightarrow> guard_call list \<Rightarrow> bool" where
  "outcome_accounts outcome calls \<longleftrightarrow>
     (case outcome of
        Granted rs _ \<Rightarrow> refused_releases calls = [] \<and> (\<forall>acc. open_leases calls acc = rs # acc)
      | Acquire_Failed e \<Rightarrow>
          (refused_releases calls = [] \<or> (\<exists>rs. refused_releases calls = [rs]) \<and> reports_refusal e) \<and>
          (\<forall>acc. open_leases calls acc = refused_releases calls @ acc)
      | _ \<Rightarrow> refused_releases calls = [] \<and> (\<forall>acc. open_leases calls acc = acc))"

lemma outcome_accounts_later:
  assumes "outcome_accounts outcome later" "refused_releases calls = []" "\<And>acc. open_leases calls acc = acc"
  shows "outcome_accounts outcome (calls @ later)"
  using assms by (auto simp: outcome_accounts_def open_leases_append refused_releases_append split: acquire_outcome.splits)

lemma acquire_backed_accounts:
  "outcome_accounts (fst (acquire_backed automatic chain requested resolves rounds))
     (snd (acquire_backed automatic chain requested resolves rounds))"
proof (induction rounds)
  case Nil
  then show ?case by (simp add: outcome_accounts_def)
next
  case (Cons r rounds)
  have att: "attempt_accounts rs outcome calls"
    if "lease_attempts automatic rs (sr_attempts r) = (outcome, calls)" for rs outcome calls
    using lease_attempts_account [of rs automatic "sr_attempts r"] that by simp
  obtain result later where rest: "acquire_backed automatic chain requested resolves rounds = (result, later)"
    by (cases "acquire_backed automatic chain requested resolves rounds") auto
  with Cons.IH have ih: "outcome_accounts result later" by simp
  have again: "outcome_accounts result (calls @ Call_Release rs None # later)"
    if "attempt_accounts rs (Attempt_Granted e) calls" for rs e calls
    using outcome_accounts_later [OF ih, of "calls @ [Call_Release rs None]"] that
    by (simp add: attempt_accounts_def refused_releases_append open_leases_append)
  show ?case
    using again
    by (auto simp: Let_def rest dest!: att split: sum.splits bool.splits option.splits attempt_outcome.splits prod.splits)
      (auto simp: outcome_accounts_def attempt_accounts_def open_leases_append refused_releases_append split: option.splits)
qed

lemma acquire_local_accounts:
  "outcome_accounts (fst (acquire_local automatic chain requested resolves rounds))
     (snd (acquire_local automatic chain requested resolves rounds))"
proof (induction rounds)
  case (Cons r rounds)
  obtain result later where rest: "acquire_local automatic chain requested resolves rounds = (result, later)"
    by (cases "acquire_local automatic chain requested resolves rounds") auto
  with Cons.IH have ih: "outcome_accounts result later" by simp
  have "outcome_accounts result (preempt_call automatic rs @ Call_Lock rs # Call_Unlock rs # later)" for rs
    using outcome_accounts_later [OF ih, of "preempt_call automatic rs @ [Call_Lock rs, Call_Unlock rs]"] by simp
  then show ?case
    by (auto simp: Let_def rest split: sum.splits bool.splits option.splits prod.splits)
      (auto simp: outcome_accounts_def)
qed (simp add: outcome_accounts_def)

lemma resolve_resources_Inr:
  assumes "resolve_resources resolves requested answer = Inr rs"
    and "sorted requested" and "requested \<noteq> []"
  shows "sorted rs \<and> rs \<noteq> []"
  using assms normalize_resources_Inr
  by (auto simp: resolve_resources_def split: if_splits sum.splits)

text \<open>
  A granted acquisition: nothing it locks is held by the chain, every held lock comes before every
  new one, and the resolver gave the same resources after the lock was taken as before.
\<close>

definition well_granted ::
  "held_state list \<Rightarrow> string list \<Rightarrow> bool \<Rightarrow> (guard_error + string list) set \<Rightarrow> string list \<Rightarrow> bool" where
  "well_granted chain requested resolves answers rs \<longleftrightarrow>
     rs \<noteq> [] \<and> sorted rs \<and> (\<forall>h \<in> chain_locks chain. \<forall>r \<in> set rs. h < r) \<and>
     (\<exists>answer \<in> answers. resolve_resources resolves requested answer = Inr rs)"

lemma acquire_backed_granted:
  assumes "fst (acquire_backed automatic chain requested resolves rounds) = Granted rs expires"
    and "sorted requested" and "requested \<noteq> []"
  shows "well_granted chain requested resolves (sr_confirmed ` set rounds) rs"
  using assms(1)
proof (induction rounds)
  case Nil
  then show ?case by simp
next
  case (Cons r rounds)
  show ?case
  proof (cases "fst (acquire_backed automatic chain requested resolves rounds) = Granted rs expires")
    case True
    with Cons.IH show ?thesis by (auto simp: well_granted_def)
  next
    case False
    with Cons.prems have
      now: "resolve_resources resolves requested (sr_resolved r) = Inr rs"
        "resolve_resources resolves requested (sr_confirmed r) = Inr rs"
        "resolved_resources_held chain requested rs resolves = Inr False"
      by (auto split: sum.splits bool.splits prod.splits attempt_outcome.splits if_splits option.splits)
    with assms(2,3) show ?thesis
      using resolve_resources_Inr resolved_resources_held_False by (fastforce simp: well_granted_def)
  qed
qed

lemma acquire_local_granted:
  assumes "fst (acquire_local automatic chain requested resolves rounds) = Granted rs expires"
    and "sorted requested" and "requested \<noteq> []"
  shows "well_granted chain requested resolves (lr_confirmed ` set rounds) rs"
  using assms(1)
proof (induction rounds)
  case Nil
  then show ?case by simp
next
  case (Cons r rounds)
  show ?case
  proof (cases "fst (acquire_local automatic chain requested resolves rounds) = Granted rs expires")
    case True
    with Cons.IH show ?thesis by (auto simp: well_granted_def)
  next
    case False
    with Cons.prems have
      now: "resolve_resources resolves requested (lr_resolved r) = Inr rs"
        "resolve_resources resolves requested (lr_confirmed r) = Inr rs"
        "resolved_resources_held chain requested rs resolves = Inr False"
      by (auto simp: Let_def split: sum.splits bool.splits prod.splits if_splits option.splits)
    with assms(2,3) show ?thesis
      using resolve_resources_Inr resolved_resources_held_False by (fastforce simp: well_granted_def)
  qed
qed

subsection \<open>Waiting threads cannot wait for each other in a circle\<close>

text \<open>
  A blocked thread: the chain of its context, the resources \<open>bt_resolved\<close> of an acquisition that
  passed the guard, and how many of them it has locked so far. The process-local locks are taken
  one by one in order; the lease store takes all or none, so there the count is 0 and a conflict on
  any resource of the set blocks. A thread waits for whoever holds any resource it has not taken.
\<close>

record blocked_thread =
  bt_chain :: "held_state list"
  bt_requested :: "string list"
  bt_resolved :: "string list"
  bt_resolves :: bool
  bt_taken :: nat

definition passed_guard :: "blocked_thread \<Rightarrow> bool" where
  "passed_guard b \<longleftrightarrow>
     resolved_resources_held (bt_chain b) (bt_requested b) (bt_resolved b) (bt_resolves b) = Inr False \<and>
     sorted_wrt (<) (bt_resolved b) \<and> bt_taken b < length (bt_resolved b)"

definition thread_holds :: "blocked_thread \<Rightarrow> string set" where
  "thread_holds b = chain_locks (bt_chain b) \<union> set (take (bt_taken b) (bt_resolved b))"

definition waits_for :: "blocked_thread \<Rightarrow> blocked_thread \<Rightarrow> bool" where
  "waits_for a b \<longleftrightarrow> set (drop (bt_taken a) (bt_resolved a)) \<inter> thread_holds b \<noteq> {}"

lemma next_is_least:
  assumes "passed_guard a" and "r \<in> set (drop (bt_taken a) (bt_resolved a))"
  shows "bt_resolved a ! bt_taken a \<le> r"
proof -
  obtain k where "k < length (drop (bt_taken a) (bt_resolved a))" "r = drop (bt_taken a) (bt_resolved a) ! k"
    using assms(2) by (auto simp: in_set_conv_nth)
  then have k: "bt_taken a + k < length (bt_resolved a)" "r = bt_resolved a ! (bt_taken a + k)" by auto
  have "sorted (bt_resolved a)" using assms(1) by (simp add: passed_guard_def strict_sorted_iff)
  then show ?thesis using sorted_nth_mono [of "bt_resolved a" "bt_taken a" "bt_taken a + k"] k by simp
qed

lemma waits_for_later:
  assumes "waits_for a b" and "passed_guard a" and "passed_guard b"
  shows "bt_resolved a ! bt_taken a < bt_resolved b ! bt_taken b"
proof -
  from assms(3) have g: "resolved_resources_held (bt_chain b) (bt_requested b) (bt_resolved b) (bt_resolves b) = Inr False"
    and s: "sorted_wrt (<) (bt_resolved b)" and l: "bt_taken b < length (bt_resolved b)"
    by (auto simp: passed_guard_def)
  from s have "sorted (bt_resolved b)" by (simp add: strict_sorted_iff)
  with g l have "h \<in> chain_locks (bt_chain b) \<Longrightarrow> h < bt_resolved b ! bt_taken b" for h
    using resolved_resources_held_False by (meson nth_mem)
  moreover have "h \<in> set (take (bt_taken b) (bt_resolved b)) \<Longrightarrow> h < bt_resolved b ! bt_taken b" for h
    using s l by (auto simp: in_set_conv_nth sorted_wrt_iff_nth_less)
  ultimately have held: "h \<in> thread_holds b \<Longrightarrow> h < bt_resolved b ! bt_taken b" for h
    by (auto simp: thread_holds_def)
  obtain r where "r \<in> set (drop (bt_taken a) (bt_resolved a))" "r \<in> thread_holds b"
    using assms(1) by (auto simp: waits_for_def)
  then show ?thesis using next_is_least [OF assms(2)] held le_less_trans by blast
qed

lemma waits_for_chain_later:
  assumes "(a, b) \<in> {(a, b). a \<in> T \<and> b \<in> T \<and> waits_for a b}\<^sup>+" and "\<forall>b \<in> T. passed_guard b"
  shows "bt_resolved a ! bt_taken a < bt_resolved b ! bt_taken b"
  using assms by (induction rule: trancl_induct) (auto dest: waits_for_later less_trans)

subsection \<open>Properties\<close>

text \<open>
  C3: No deadlock among guarded mutations. Threads blocked in acquisitions that passed the guard,
  each holding what its context and its partial acquisition locked and waiting for the holders of
  any resource it still needs, never wait for each other in a circle.
\<close>

theorem guarded_acquisition_deadlock_free:
  assumes "\<forall>b \<in> T. passed_guard b"
  shows "acyclic {(a, b). a \<in> T \<and> b \<in> T \<and> waits_for a b}"
  using waits_for_chain_later [OF _ assms] by (auto simp: acyclic_def)

definition sample_thread :: "string list \<Rightarrow> string list \<Rightarrow> nat \<Rightarrow> blocked_thread" where
  "sample_thread locks wanted k =
     \<lparr>bt_chain = [\<lparr>hs_requested = [], hs_locked = locks, hs_active = True\<rparr>],
      bt_requested = wanted, bt_resolved = wanted, bt_resolves = False, bt_taken = k\<rparr>"

lemma sample_passed_local: "passed_guard (sample_thread [''account/1''] [''account/2'', ''upstream/a''] 1)"
  by code_simp

lemma sample_passed_store: "passed_guard (sample_thread [''account/2''] [''upstream/a''] 0)"
  by code_simp

theorem guarded_acquisition_deadlock_free_witness:
  "acyclic {(a, b).
     a \<in> {sample_thread [''account/1''] [''account/2'', ''upstream/a''] 1, sample_thread [''account/2''] [''upstream/a''] 0} \<and>
     b \<in> {sample_thread [''account/1''] [''account/2'', ''upstream/a''] 1, sample_thread [''account/2''] [''upstream/a''] 0} \<and>
     waits_for a b}"
  by (rule guarded_acquisition_deadlock_free) (simp add: sample_passed_local [simplified] sample_passed_store)

text \<open>
  C4: An acquisition leaves nothing behind unsaid. After any call of \<open>acquire\<close>, whatever the resolver,
  the store, the clock and the context answered: a granted lock is exactly what is left taken and no
  release was refused before it; a failed call has given back every lease and local lock it took,
  except at most one lease whose release the store itself refused, and then its error reports that
  refusal (the rows of that lease run out with their expiry); any other outcome leaves nothing taken.
\<close>

theorem acquire_leaves_nothing_behind:
  "outcome_accounts (fst (acquire_resources ctx automatic chain resources resolves store owner rounds locals))
     (snd (acquire_resources ctx automatic chain resources resolves store owner rounds locals))"
  using acquire_backed_accounts acquire_local_accounts
  by (auto simp: acquire_resources_def outcome_accounts_def [of "Acquire_Failed _" "[]"] outcome_accounts_def [of Already_Held "[]"]
      split: option.splits sum.splits)

text \<open>
  C5: What a granted acquisition locks. The locked resources are non-empty, sorted and come after
  every lock the context already holds, and they are the resolver's answer given after the lock was
  taken, so a mapping that changed during the wait is never locked under its old resources.
\<close>

theorem acquire_granted_ordered_and_confirmed:
  assumes "fst (acquire_resources ctx automatic chain resources resolves store owner rounds locals) = Granted rs expires"
  shows "\<exists>requested. normalize_resources resources = Inr requested \<and>
    well_granted chain requested resolves (sr_confirmed ` set rounds \<union> lr_confirmed ` set locals) rs"
proof -
  obtain requested where req: "normalize_resources resources = Inr requested"
    and run: "fst (acquire_backed automatic chain requested resolves rounds) = Granted rs expires \<or>
      fst (acquire_local automatic chain requested resolves locals) = Granted rs expires"
    using assms by (auto simp: acquire_resources_def split: option.splits sum.splits if_splits)
  from normalize_resources_Inr [OF req] have "sorted requested" "requested \<noteq> []" by auto
  with run acquire_backed_granted acquire_local_granted req show ?thesis
    by (fastforce simp: well_granted_def)
qed

definition sample_attempt :: "gotime \<Rightarrow> bool \<Rightarrow> store_attempt" where
  "sample_attempt t granted =
     \<lparr>sa_now = t, sa_result = Inr granted, sa_ctx = None, sa_after = t + nsec, sa_release = None, sa_cancel = None\<rparr>"

definition sample_round :: "string list \<Rightarrow> string list \<Rightarrow> store_round" where
  "sample_round first second =
     \<lparr>sr_resolved = Inr first, sr_attempts = [sample_attempt 0 False, sample_attempt 25000000 True],
      sr_confirmed = Inr second, sr_release = None\<rparr>"

lemma sample_acquire:
  "fst (acquire_resources None False [] [''u''] True True True
     [sample_round [''a'', ''u''] [''b'', ''u''], sample_round [''b'', ''u''] [''u'', ''b'']] []) =
   Granted [''b'', ''u''] (Some (25000000 + lease_ttl))"
  by code_simp

theorem acquire_granted_ordered_and_confirmed_witness:
  "\<exists>requested. normalize_resources [''u''] = Inr requested \<and>
    well_granted [] requested True
      (sr_confirmed ` set [sample_round [''a'', ''u''] [''b'', ''u''], sample_round [''b'', ''u''] [''u'', ''b'']] \<union>
       lr_confirmed ` set ([] :: local_round list)) [''b'', ''u'']"
  by (rule acquire_granted_ordered_and_confirmed [OF sample_acquire])

end
