(* ===== verification/Local_Locks.thy ===== *)
theory Local_Locks
  imports Mutation_Guard
begin

text \<open>
  The process-local locks of mutationguard/guard.go (\<open>localLockSet\<close>, \<open>localLock\<close>), used when the
  repository has no lease store. An entry is a one-token channel with a reference count, created on
  first use and deleted when its last reference goes; entries are shared by pointer, so the model
  keeps them in a heap. A client is a call of \<open>acquireOne\<close> or a holder: the locks it holds, newest
  first, the entry it waits on, and the entry it gave the token back to but still references (the
  two statements of a release are two steps).
\<close>

record local_lock =
  ll_token :: bool
  ll_refs :: int

record lock_client =
  lc_held :: "(string \<times> nat) list"
  lc_waiting :: "(string \<times> nat) option"
  lc_releasing :: "(string \<times> nat) option"

record lock_sys =
  lk_entries :: "string \<rightharpoonup> nat"
  lk_heap :: "local_lock list"
  lk_clients :: "lock_client list"

definition fresh_client :: lock_client where
  "fresh_client = \<lparr>lc_held = [], lc_waiting = None, lc_releasing = None\<rparr>"

definition lock_start :: "nat \<Rightarrow> lock_sys" where
  "lock_start n = \<lparr>lk_entries = Map.empty, lk_heap = [], lk_clients = replicate n fresh_client\<rparr>"

definition upd_lock :: "nat \<Rightarrow> (local_lock \<Rightarrow> local_lock) \<Rightarrow> lock_sys \<Rightarrow> lock_sys" where
  "upd_lock p f s = s\<lparr>lk_heap := (lk_heap s)[p := f (lk_heap s ! p)]\<rparr>"

definition upd_client :: "nat \<Rightarrow> lock_client \<Rightarrow> lock_sys \<Rightarrow> lock_sys" where
  "upd_client i c s = s\<lparr>lk_clients := (lk_clients s)[i := c]\<rparr>"

text \<open>The locked section at the start of \<open>acquireOne\<close>: find or create the entry, count the caller.\<close>

definition reference_entry :: "string \<Rightarrow> lock_sys \<Rightarrow> nat \<times> lock_sys" where
  "reference_entry r s =
     (case lk_entries s r of
        Some p \<Rightarrow> (p, upd_lock p (\<lambda>l. l\<lparr>ll_refs := ll_refs l + 1\<rparr>) s)
      | None \<Rightarrow>
          (let p = length (lk_heap s) in
           (p, s\<lparr>lk_entries := (lk_entries s)(r \<mapsto> p),
                 lk_heap := lk_heap s @ [\<lparr>ll_token = True, ll_refs = 1\<rparr>]\<rparr>)))"

definition release_reference :: "string \<Rightarrow> nat \<Rightarrow> lock_sys \<Rightarrow> lock_sys" where
  "release_reference r p s =
     (let s = upd_lock p (\<lambda>l. l\<lparr>ll_refs := ll_refs l - 1\<rparr>) s in
      if ll_refs (lk_heap s ! p) = 0 \<and> lk_entries s r = Some p
      then s\<lparr>lk_entries := (lk_entries s)(r := None)\<rparr> else s)"

inductive lock_step :: "lock_sys \<Rightarrow> lock_sys \<Rightarrow> bool" where
  want:
    "i < length (lk_clients s) \<Longrightarrow> c = lk_clients s ! i \<Longrightarrow> lc_waiting c = None \<Longrightarrow> lc_releasing c = None \<Longrightarrow>
     reference_entry r s = (p, t) \<Longrightarrow>
     lock_step s (upd_client i (c\<lparr>lc_waiting := Some (r, p)\<rparr>) t)"
| give_up:
    "i < length (lk_clients s) \<Longrightarrow> c = lk_clients s ! i \<Longrightarrow> lc_waiting c = Some (r, p) \<Longrightarrow>
     lock_step s (release_reference r p (upd_client i (c\<lparr>lc_waiting := None\<rparr>) s))"
| take_token:
    "i < length (lk_clients s) \<Longrightarrow> c = lk_clients s ! i \<Longrightarrow> lc_waiting c = Some (r, p) \<Longrightarrow>
     ll_token (lk_heap s ! p) \<Longrightarrow>
     lock_step s (upd_client i (c\<lparr>lc_waiting := None, lc_held := (r, p) # lc_held c\<rparr>)
                   (upd_lock p (\<lambda>l. l\<lparr>ll_token := False\<rparr>) s))"
| put_token:
    "i < length (lk_clients s) \<Longrightarrow> c = lk_clients s ! i \<Longrightarrow> lc_waiting c = None \<Longrightarrow> lc_releasing c = None \<Longrightarrow>
     lc_held c = (r, p) # held \<Longrightarrow> \<not> ll_token (lk_heap s ! p) \<Longrightarrow>
     lock_step s (upd_client i (c\<lparr>lc_held := held, lc_releasing := Some (r, p)\<rparr>)
                   (upd_lock p (\<lambda>l. l\<lparr>ll_token := True\<rparr>) s))"
| drop_reference:
    "i < length (lk_clients s) \<Longrightarrow> c = lk_clients s ! i \<Longrightarrow> lc_releasing c = Some (r, p) \<Longrightarrow>
     lock_step s (release_reference r p (upd_client i (c\<lparr>lc_releasing := None\<rparr>) s))"

inductive lock_reachable :: "nat \<Rightarrow> lock_sys \<Rightarrow> bool" for n :: nat where
  start: "lock_reachable n (lock_start n)"
| step: "lock_reachable n s \<Longrightarrow> lock_step s t \<Longrightarrow> lock_reachable n t"

subsection \<open>The invariant: references and tokens are accounted for\<close>

definition client_uses :: "lock_client \<Rightarrow> (string \<times> nat) list" where
  "client_uses c = lc_held c @ (case lc_waiting c of None \<Rightarrow> [] | Some x \<Rightarrow> [x]) @
     (case lc_releasing c of None \<Rightarrow> [] | Some x \<Rightarrow> [x])"

definition held_count :: "nat \<Rightarrow> lock_client \<Rightarrow> int" where
  "held_count p c = int (count_list (map snd (lc_held c)) p)"

definition use_count :: "nat \<Rightarrow> lock_client \<Rightarrow> int" where
  "use_count p c = int (count_list (map snd (client_uses c)) p)"

definition total :: "(lock_client \<Rightarrow> int) \<Rightarrow> lock_sys \<Rightarrow> int" where
  "total f s = sum_list (map f (lk_clients s))"

definition lock_inv :: "lock_sys \<Rightarrow> bool" where
  "lock_inv s \<longleftrightarrow>
     (\<forall>p < length (lk_heap s). ll_refs (lk_heap s ! p) = total (use_count p) s \<and>
        total (held_count p) s = (if ll_token (lk_heap s ! p) then 0 else 1)) \<and>
     (\<forall>c \<in> set (lk_clients s). \<forall>(r, p) \<in> set (client_uses c). lk_entries s r = Some p) \<and>
     (\<forall>r p. lk_entries s r = Some p \<longrightarrow> p < length (lk_heap s)) \<and>
     (\<forall>r r' p. lk_entries s r = Some p \<longrightarrow> lk_entries s r' = Some p \<longrightarrow> r' = r) \<and>
     (\<forall>r p. lk_entries s r = Some p \<longrightarrow> 0 < total (use_count p) s)"

text \<open>All of it but the last clause, which a release re-establishes by deleting the entry.\<close>

definition lock_inv_core :: "lock_sys \<Rightarrow> bool" where
  "lock_inv_core s \<longleftrightarrow>
     (\<forall>p < length (lk_heap s). ll_refs (lk_heap s ! p) = total (use_count p) s \<and>
        total (held_count p) s = (if ll_token (lk_heap s ! p) then 0 else 1)) \<and>
     (\<forall>c \<in> set (lk_clients s). \<forall>(r, p) \<in> set (client_uses c). lk_entries s r = Some p) \<and>
     (\<forall>r p. lk_entries s r = Some p \<longrightarrow> p < length (lk_heap s)) \<and>
     (\<forall>r r' p. lk_entries s r = Some p \<longrightarrow> lk_entries s r' = Some p \<longrightarrow> r' = r)"

lemma lock_inv_split: "lock_inv s \<longleftrightarrow> lock_inv_core s \<and> (\<forall>r p. lk_entries s r = Some p \<longrightarrow> 0 < total (use_count p) s)"
  unfolding lock_inv_def lock_inv_core_def by blast

lemma total_upd_client:
  "i < length (lk_clients s) \<Longrightarrow> total f (upd_client i c s) = total f s - f (lk_clients s ! i) + f c"
  by (simp add: total_def upd_client_def sum_list_map_update)

lemma total_nonneg_uses: "0 \<le> total (use_count p) s"
  by (auto simp: total_def use_count_def intro!: sum_list_nonneg)

lemma total_uses_pos:
  assumes "c \<in> set (lk_clients s)" and "(r, p) \<in> set (client_uses c)"
  shows "0 < total (use_count p) s"
proof -
  have "p \<in> set (map snd (client_uses c))" using assms(2) by force
  then have "0 < use_count p c" by (simp add: use_count_def count_list_0_iff zero_less_iff_neq_zero)
  moreover have "use_count p c \<le> total (use_count p) s"
    unfolding total_def by (rule member_le_sum_list) (use assms(1) in \<open>auto simp: use_count_def\<close>)
  ultimately show ?thesis by simp
qed

lemma lock_invD:
  assumes "lock_inv s"
  shows "p < length (lk_heap s) \<Longrightarrow> ll_refs (lk_heap s ! p) = total (use_count p) s"
    and "p < length (lk_heap s) \<Longrightarrow> total (held_count p) s = (if ll_token (lk_heap s ! p) then 0 else 1)"
    and "c \<in> set (lk_clients s) \<Longrightarrow> (r, p) \<in> set (client_uses c) \<Longrightarrow> lk_entries s r = Some p"
    and "lk_entries s r = Some p \<Longrightarrow> p < length (lk_heap s)"
    and "lk_entries s r = Some p \<Longrightarrow> lk_entries s r' = Some p \<Longrightarrow> r' = r"
    and "lk_entries s r = Some p \<Longrightarrow> 0 < total (use_count p) s"
  using assms unfolding lock_inv_def by blast+

lemma unused_beyond_heap:
  assumes "lock_inv s"
  shows "total (use_count (length (lk_heap s))) s = 0" "total (held_count (length (lk_heap s))) s = 0"
proof -
  have none: "c \<in> set (lk_clients s) \<Longrightarrow> length (lk_heap s) \<notin> snd ` set (client_uses c)" for c
    using lock_invD(3,4) [OF assms] by fastforce
  then show "total (use_count (length (lk_heap s))) s = 0"
    by (auto simp: total_def use_count_def count_list_0_iff intro!: sum_list_map_zero)
  from none show "total (held_count (length (lk_heap s))) s = 0"
    by (fastforce simp: total_def held_count_def client_uses_def count_list_0_iff intro!: sum_list_map_zero)
qed

lemma upd_lock_sel [simp]:
  "lk_entries (upd_lock p f s) = lk_entries s" "lk_clients (upd_lock p f s) = lk_clients s"
  "length (lk_heap (upd_lock p f s)) = length (lk_heap s)"
  "q < length (lk_heap s) \<Longrightarrow> lk_heap (upd_lock p f s) ! q = (if p = q then f (lk_heap s ! q) else lk_heap s ! q)"
  "total g (upd_lock p f s) = total g s"
  by (simp_all add: upd_lock_def total_def)

lemma upd_client_sel [simp]:
  "lk_entries (upd_client i c s) = lk_entries s" "lk_heap (upd_client i c s) = lk_heap s"
  "lk_clients (upd_client i c s) = (lk_clients s)[i := c]"
  by (simp_all add: upd_client_def)

lemma upd_client_lock: "upd_client i c (upd_lock p f s) = upd_lock p f (upd_client i c s)"
  by (simp add: upd_client_def upd_lock_def)

text \<open>What remains to be checked when the references of one entry or a token move.\<close>

lemma lock_inv_moved:
  assumes inv: "lock_inv s" and i: "i < length (lk_clients s)"
    and uses: "\<And>q. use_count q c = use_count q (lk_clients s ! i) + (if q = p then du else 0)"
    and held: "\<And>q. held_count q c = held_count q (lk_clients s ! i) + (if q = p then dh else 0)"
    and sub: "set (client_uses c) \<subseteq> insert (r, p) (set (client_uses (lk_clients s ! i)))"
    and ent: "lk_entries s r = Some p"
    and tok: "(if ll_token (f (lk_heap s ! p)) then 0 else 1) = (if ll_token (lk_heap s ! p) then 0 else 1) + dh"
    and refs: "ll_refs (f (lk_heap s ! p)) = ll_refs (lk_heap s ! p) + du"
  shows "lock_inv_core (upd_lock p f (upd_client i c s))"
    and "0 < total (use_count p) s + du \<Longrightarrow> lock_inv (upd_lock p f (upd_client i c s))"
proof -
  note D = lock_invD [OF inv]
  have T: "total (use_count q) (upd_client i c s) = total (use_count q) s + (if q = p then du else 0)"
    "total (held_count q) (upd_client i c s) = total (held_count q) s + (if q = p then dh else 0)" for q
    using i by (simp_all add: total_upd_client uses held)
  have U: "(r', q) \<in> set (client_uses c') \<Longrightarrow> lk_entries s r' = Some q"
    if "c' \<in> set ((lk_clients s)[i := c])" for c' r' q
    using that sub ent D(3) i set_update_subset_insert [of "lk_clients s" i c] nth_mem by blast
  show core: "lock_inv_core (upd_lock p f (upd_client i c s))"
    unfolding lock_inv_core_def
    using D(1,2,4,5) T U tok refs by auto
  show "lock_inv (upd_lock p f (upd_client i c s))" if "0 < total (use_count p) s + du"
    unfolding lock_inv_split using core D(6) T that by auto
qed

text \<open>Deleting the entry when its last reference goes.\<close>

lemma lock_inv_released:
  assumes core: "lock_inv_core s" and ent: "lk_entries s r = Some p"
    and others: "\<And>r' q. lk_entries s r' = Some q \<Longrightarrow> q \<noteq> p \<Longrightarrow> 0 < total (use_count q) s"
  shows "lock_inv (if ll_refs (lk_heap s ! p) = 0 then s\<lparr>lk_entries := (lk_entries s)(r := None)\<rparr> else s)"
proof -
  let ?t = "s\<lparr>lk_entries := (lk_entries s)(r := None)\<rparr>"
  have C: "\<And>p. p < length (lk_heap s) \<Longrightarrow> ll_refs (lk_heap s ! p) = total (use_count p) s \<and>
        total (held_count p) s = (if ll_token (lk_heap s ! p) then 0 else 1)"
    "\<And>c r p. c \<in> set (lk_clients s) \<Longrightarrow> (r, p) \<in> set (client_uses c) \<Longrightarrow> lk_entries s r = Some p"
    "\<And>r p. lk_entries s r = Some p \<Longrightarrow> p < length (lk_heap s)"
    "\<And>r r' p. lk_entries s r = Some p \<Longrightarrow> lk_entries s r' = Some p \<Longrightarrow> r' = r"
    using core unfolding lock_inv_core_def by blast+
  have p: "ll_refs (lk_heap s ! p) = total (use_count p) s" using C(1) C(3) [OF ent] by blast
  have tot: "total g ?t = total g s" for g by (simp add: total_def)
  show ?thesis
  proof (cases "ll_refs (lk_heap s ! p) = 0")
    case True
    have unused: "(r', q) \<in> set (client_uses c) \<Longrightarrow> c \<in> set (lk_clients s) \<Longrightarrow> r' \<noteq> r" for c r' q
      using total_uses_pos [of c s r' q] C(2) [of c r' q] True p ent by fastforce
    have "lock_inv_core ?t"
      unfolding lock_inv_core_def tot using C(1,3,4) by (auto dest: C(2) unused)
    moreover have "0 < total (use_count q) s" if "lk_entries ?t r' = Some q" for r' q
      using that others [of r' q] C(4) [OF ent] by (fastforce split: if_splits)
    ultimately show ?thesis using True by (simp add: lock_inv_split tot)
  next
    case False
    then have "0 < total (use_count p) s" using p total_nonneg_uses [of p s] by linarith
    then show ?thesis using False core others by (auto simp: lock_inv_split)
  qed
qed


lemma lock_inv_release_reference:
  assumes inv: "lock_inv s" and i: "i < length (lk_clients s)"
    and uses: "\<And>q. use_count q c = use_count q (lk_clients s ! i) - (if q = p then 1 else 0)"
    and held: "\<And>q. held_count q c = held_count q (lk_clients s ! i)"
    and sub: "set (client_uses c) \<subseteq> set (client_uses (lk_clients s ! i))"
    and mem: "(r, p) \<in> set (client_uses (lk_clients s ! i))"
  shows "lock_inv (release_reference r p (upd_client i c s))"
proof -
  let ?f = "\<lambda>l. l\<lparr>ll_refs := ll_refs l - 1\<rparr>"
  let ?u = "upd_lock p ?f (upd_client i c s)"
  have ent: "lk_entries s r = Some p" using lock_invD(3) [OF inv _ mem] i by simp
  have core: "lock_inv_core ?u"
    by (rule lock_inv_moved(1) [OF inv i, of c p "- 1" 0 r])
       (use uses held sub ent in auto)
  have "0 < total (use_count q) ?u" if "lk_entries ?u r' = Some q" "q \<noteq> p" for r' q
    using that lock_invD(6) [OF inv, of r' q] i by (simp add: total_upd_client uses)
  from lock_inv_released [OF core _ this] ent show ?thesis
    by (simp add: release_reference_def Let_def)
qed

lemma lock_inv_new_entry:
  assumes inv: "lock_inv s" and i: "i < length (lk_clients s)" and new: "lk_entries s r = None"
    and c: "c = (lk_clients s ! i)\<lparr>lc_waiting := Some (r, length (lk_heap s))\<rparr>"
    and idle: "lc_waiting (lk_clients s ! i) = None"
  shows "lock_inv (upd_client i c (s\<lparr>lk_entries := (lk_entries s)(r \<mapsto> length (lk_heap s)),
           lk_heap := lk_heap s @ [\<lparr>ll_token = True, ll_refs = 1\<rparr>]\<rparr>))" (is "lock_inv ?t")
proof -
  note D = lock_invD [OF inv]
  let ?n = "length (lk_heap s)"
  have uses: "use_count q c = use_count q (lk_clients s ! i) + (if q = ?n then 1 else 0)"
    "held_count q c = held_count q (lk_clients s ! i)" for q
    using idle by (auto simp: c use_count_def held_count_def client_uses_def)
  have T: "total (use_count q) ?t = total (use_count q) s + (if q = ?n then 1 else 0)"
    "total (held_count q) ?t = total (held_count q) s" for q
    using i by (simp_all add: total_def upd_client_def sum_list_map_update uses)
  have old: "c' \<in> set (lk_clients s) \<Longrightarrow> (r', q) \<in> set (client_uses c') \<Longrightarrow> r' \<noteq> r" for c' r' q
    using D(3) new by fastforce
  have U: "((lk_entries s)(r \<mapsto> ?n)) r' = Some q"
    if "c' \<in> set ((lk_clients s)[i := c])" "(r', q) \<in> set (client_uses c')" for c' r' q
  proof (cases "c' = c")
    case True
    then have "(r', q) = (r, ?n) \<or> (r', q) \<in> set (client_uses (lk_clients s ! i))"
      using that(2) idle by (auto simp: c client_uses_def)
    then show ?thesis using D(3) old i nth_mem by fastforce
  next
    case False
    then have "c' \<in> set (lk_clients s)" using that(1) set_update_subset_insert [of "lk_clients s" i c] by blast
    then show ?thesis using that(2) D(3) old by fastforce
  qed
  have heap: "lk_heap ?t = lk_heap s @ [\<lparr>ll_token = True, ll_refs = 1\<rparr>]"
    and ents: "lk_entries ?t = (lk_entries s)(r \<mapsto> ?n)"
    and clients: "lk_clients ?t = (lk_clients s)[i := c]"
    by (simp_all add: upd_client_def)
  have A: "ll_refs (lk_heap ?t ! q) = total (use_count q) ?t \<and>
        total (held_count q) ?t = (if ll_token (lk_heap ?t ! q) then 0 else 1)" if "q < length (lk_heap ?t)" for q
    using that D(1,2) [of q] unused_beyond_heap [OF inv] unfolding heap T
    by (auto simp: nth_append less_Suc_eq)
  have B: "lk_entries ?t r' = Some q \<Longrightarrow> q < length (lk_heap ?t)" for r' q
    using D(4) [of r' q] unfolding heap ents by (auto split: if_splits)
  have C: "lk_entries ?t r' = Some q \<Longrightarrow> lk_entries ?t r'' = Some q \<Longrightarrow> r'' = r'" for r' r'' q
    using D(4) [of r' q] D(4) [of r'' q] D(5) [of r' q r''] unfolding ents by (auto split: if_splits)
  have E: "0 < total (use_count q) ?t" if "lk_entries ?t r' = Some q" for r' q
    using that D(6) [of r' q] total_nonneg_uses [of q s] unfolding T ents by (auto split: if_splits)
  have F: "lk_entries ?t r' = Some q"
    if "c' \<in> set (lk_clients ?t)" "(r', q) \<in> set (client_uses c')" for c' r' q
    using U that unfolding ents clients by blast
  show ?thesis
    unfolding lock_inv_def using A B C E F by blast
qed

lemma lock_step_inv: "lock_step s t \<Longrightarrow> lock_inv s \<Longrightarrow> lock_inv t"
proof (induction rule: lock_step.induct)
  case (want i s c r p t)
  show ?case
  proof (cases "lk_entries s r")
    case None
    then show ?thesis
      using want lock_inv_new_entry [of s i r] by (auto simp: reference_entry_def Let_def)
  next
    case (Some q)
    have "lock_inv (upd_lock q (\<lambda>l. l\<lparr>ll_refs := ll_refs l + 1\<rparr>) (upd_client i (c\<lparr>lc_waiting := Some (r, q)\<rparr>) s))"
      by (rule lock_inv_moved(2) [where du = 1 and dh = 0 and r = r])
         (use want Some lock_invD(6) [OF want.prems, of r q] in
           \<open>auto simp: use_count_def held_count_def client_uses_def\<close>)
    then show ?thesis using want Some by (auto simp: reference_entry_def upd_client_lock [symmetric])
  qed
next
  case (give_up i s c r p)
  show ?case
    by (rule lock_inv_release_reference)
       (use give_up in \<open>auto simp: use_count_def held_count_def client_uses_def\<close>)
next
  case (take_token i s c r p)
  have mem: "(r, p) \<in> set (client_uses (lk_clients s ! i))" using take_token by (simp add: client_uses_def)
  have ent: "lk_entries s r = Some p" using lock_invD(3) [OF take_token.prems _ mem] take_token by simp
  show ?case unfolding upd_client_lock
    by (rule lock_inv_moved(2) [where du = 0 and dh = 1 and r = r])
       (use take_token ent lock_invD(6) [OF take_token.prems ent] in
         \<open>auto simp: use_count_def held_count_def client_uses_def\<close>)
next
  case (put_token i s c r p held)
  have mem: "(r, p) \<in> set (client_uses (lk_clients s ! i))" using put_token by (simp add: client_uses_def)
  have ent: "lk_entries s r = Some p" using lock_invD(3) [OF put_token.prems _ mem] put_token by simp
  show ?case unfolding upd_client_lock
    by (rule lock_inv_moved(2) [where du = 0 and dh = "- 1" and r = r])
       (use put_token ent lock_invD(6) [OF put_token.prems ent] in
         \<open>auto simp: use_count_def held_count_def client_uses_def\<close>)
next
  case (drop_reference i s c r p)
  show ?case
    by (rule lock_inv_release_reference)
       (use drop_reference in \<open>auto simp: use_count_def held_count_def client_uses_def\<close>)
qed

lemma lock_start_inv: "lock_inv (lock_start n)"
  by (auto simp: lock_inv_def lock_start_def fresh_client_def client_uses_def)

lemma lock_reachable_inv: "lock_reachable n s \<Longrightarrow> lock_inv s"
  by (induction rule: lock_reachable.induct) (auto intro: lock_start_inv lock_step_inv)

subsection \<open>What the locks promise\<close>

lemma held_uses: "x \<in> set (lc_held c) \<Longrightarrow> x \<in> set (client_uses c)"
  by (simp add: client_uses_def)

lemma total_two:
  assumes "i < length (lk_clients s)" "j < length (lk_clients s)" "i \<noteq> j"
    and "\<And>c. 0 \<le> f c"
  shows "f (lk_clients s ! i) + f (lk_clients s ! j) \<le> total f s"
proof -
  let ?cs = "lk_clients s"
  have "total f s = sum f' {0..<length ?cs}" if "f' = (\<lambda>k. f (?cs ! k))" for f'
    using that by (simp add: total_def sum_list_sum_nth)
  then have "total f s = (\<Sum>k = 0..<length ?cs. f (?cs ! k))" by simp
  moreover have "sum (\<lambda>k. f (?cs ! k)) {i, j} \<le> sum (\<lambda>k. f (?cs ! k)) {0..<length ?cs}"
    by (rule sum_mono2) (use assms in auto)
  ultimately show ?thesis using assms(3) by simp
qed

lemma held_entry:
  assumes "lock_inv s" "i < length (lk_clients s)" "(r, p) \<in> set (lc_held (lk_clients s ! i))"
  shows "lk_entries s r = Some p" "total (held_count p) s \<le> 1" "0 < held_count p (lk_clients s ! i)"
proof -
  show e: "lk_entries s r = Some p"
    using lock_invD(3) [OF assms(1) _ held_uses [OF assms(3)]] assms(2) by simp
  show "total (held_count p) s \<le> 1"
    using lock_invD(2) [OF assms(1) lock_invD(4) [OF assms(1) e]] by (auto split: if_splits)
  show "0 < held_count p (lk_clients s ! i)"
    using assms(3) by (force simp: held_count_def count_list_0_iff zero_less_iff_neq_zero)
qed

lemma one_holder:
  assumes inv: "lock_inv s" and i: "i < length (lk_clients s)" and j: "j < length (lk_clients s)"
    and hi: "(r, p) \<in> set (lc_held (lk_clients s ! i))" and hj: "(r, q) \<in> set (lc_held (lk_clients s ! j))"
  shows "i = j"
proof (rule ccontr)
  assume "i \<noteq> j"
  note H = held_entry [OF inv i hi] and K = held_entry [OF inv j hj]
  have "p = q" using H(1) K(1) by simp
  then show False
    using total_two [OF i j \<open>i \<noteq> j\<close>, of "held_count p"] H K by (simp add: held_count_def)
qed

lemma distinct_fst_by_count:
  assumes "\<And>r p. (r, p) \<in> set h \<Longrightarrow> count_list (map snd h) p \<le> 1"
    and "\<And>r p q. (r, p) \<in> set h \<Longrightarrow> (r, q) \<in> set h \<Longrightarrow> p = q"
  shows "distinct (map fst h)"
  using assms
proof (induction h)
  case Nil
  then show ?case by simp
next
  case (Cons x h)
  have "fst x \<notin> fst ` set h"
  proof
    assume "fst x \<in> fst ` set h"
    then obtain q where q: "(fst x, q) \<in> set h" by force
    have "snd x = q" using Cons.prems(2) [of "fst x" "snd x" q] q by simp
    then have "snd x \<in> set (map snd h)" using q by force
    then have "0 < count_list (map snd h) (snd x)" by (simp add: count_list_0_iff zero_less_iff_neq_zero)
    then show False using Cons.prems(1) [of "fst x" "snd x"] by simp
  qed
  moreover have "distinct (map fst h)"
  proof (rule Cons.IH)
    show "count_list (map snd h) p \<le> 1" if "(r, p) \<in> set h" for r p
      using Cons.prems(1) [of r p] that by (auto split: if_splits)
    show "p = q" if "(r, p) \<in> set h" "(r, q) \<in> set h" for r p q
      using Cons.prems(2) [of r p q] that by simp
  qed
  ultimately show ?case by simp
qed

lemma token_iff:
  assumes inv: "lock_inv s" and e: "lk_entries s r = Some p"
  shows "ll_token (lk_heap s ! p) \<longleftrightarrow> (\<forall>c \<in> set (lk_clients s). r \<notin> fst ` set (lc_held c))"
proof -
  have holds: "r \<in> fst ` set (lc_held c) \<longleftrightarrow> p \<in> snd ` set (lc_held c)" if "c \<in> set (lk_clients s)" for c
  proof
    assume "r \<in> fst ` set (lc_held c)"
    then obtain q where q: "(r, q) \<in> set (lc_held c)" by force
    then have "q = p" using lock_invD(3) [OF inv that held_uses [OF q]] e by simp
    then show "p \<in> snd ` set (lc_held c)" using q by force
  next
    assume "p \<in> snd ` set (lc_held c)"
    then obtain r' where q: "(r', p) \<in> set (lc_held c)" by force
    have "r' = r" by (rule lock_invD(5) [OF inv e lock_invD(3) [OF inv that held_uses [OF q]]])
    then show "r \<in> fst ` set (lc_held c)" using q by force
  qed
  have "total (held_count p) s = 0 \<longleftrightarrow> (\<forall>c \<in> set (lk_clients s). held_count p c = 0)"
    unfolding total_def by (subst sum_list_nonneg_eq_0_iff) (auto simp: held_count_def)
  also have "\<dots> \<longleftrightarrow> (\<forall>c \<in> set (lk_clients s). p \<notin> snd ` set (lc_held c))"
    by (simp add: held_count_def count_list_0_iff)
  also have "\<dots> \<longleftrightarrow> (\<forall>c \<in> set (lk_clients s). r \<notin> fst ` set (lc_held c))" using holds by blast
  finally show ?thesis using lock_invD(2) [OF inv lock_invD(4) [OF inv e]] by (simp split: if_splits)
qed

lemma entry_iff_used:
  assumes inv: "lock_inv s"
  shows "lk_entries s r \<noteq> None \<longleftrightarrow> (\<exists>c \<in> set (lk_clients s). r \<in> fst ` set (client_uses c))"
proof
  assume "lk_entries s r \<noteq> None"
  then obtain p where p: "lk_entries s r = Some p" by blast
  have "\<exists>c \<in> set (lk_clients s). use_count p c \<noteq> 0"
  proof (rule ccontr)
    assume "\<not> ?thesis"
    then have "total (use_count p) s = 0" by (auto simp: total_def intro: sum_list_map_zero)
    then show False using lock_invD(6) [OF inv p] by simp
  qed
  then obtain c r' where c: "c \<in> set (lk_clients s)" "(r', p) \<in> set (client_uses c)"
    by (force simp: use_count_def count_list_0_iff)
  have "r' = r" using lock_invD(5) [OF inv p lock_invD(3) [OF inv c]] .
  then show "\<exists>c \<in> set (lk_clients s). r \<in> fst ` set (client_uses c)" using c by force
next
  assume "\<exists>c \<in> set (lk_clients s). r \<in> fst ` set (client_uses c)"
  then show "lk_entries s r \<noteq> None" using lock_invD(3) [OF inv] by fastforce
qed

lemma held_distinct:
  assumes inv: "lock_inv s" and i: "i < length (lk_clients s)"
  shows "distinct (map fst (lc_held (lk_clients s ! i)))"
proof -
  let ?h = "lc_held (lk_clients s ! i)"
  have one: "count_list (map snd ?h) p \<le> 1" if "(r, p) \<in> set ?h" for r p
  proof -
    have "held_count p (lk_clients s ! i) \<le> total (held_count p) s"
      unfolding total_def by (rule member_le_sum_list) (use i in \<open>auto simp: held_count_def\<close>)
    then show ?thesis using held_entry(2) [OF inv i that] by (simp add: held_count_def)
  qed
  have same: "p = q" if "(r, p) \<in> set ?h" "(r, q) \<in> set ?h" for r p q
    using that held_entry(1) [OF inv i, of r p] held_entry(1) [OF inv i, of r q] by simp
  show ?thesis by (rule distinct_fst_by_count [OF one same])
qed

text \<open>C8: two callers never hold the same process-local lock, and one caller never holds it twice,
  whatever the interleaving of waiting, taking, cancelling and releasing; the token of a resource's
  entry is away exactly while somebody holds the resource; an entry exists exactly while some caller
  still uses it, with as many references as uses, so no lock is leaked and none is deleted early.\<close>

theorem local_locks_exclusive:
  assumes "lock_reachable n s"
  shows "(\<forall>i j r. i < length (lk_clients s) \<and> j < length (lk_clients s) \<and>
        r \<in> fst ` set (lc_held (lk_clients s ! i)) \<and> r \<in> fst ` set (lc_held (lk_clients s ! j)) \<longrightarrow> i = j) \<and>
    (\<forall>c \<in> set (lk_clients s). distinct (map fst (lc_held c))) \<and>
    (\<forall>r p. lk_entries s r = Some p \<longrightarrow>
      ll_refs (lk_heap s ! p) = total (use_count p) s \<and>
      (ll_token (lk_heap s ! p) \<longleftrightarrow> (\<forall>c \<in> set (lk_clients s). r \<notin> fst ` set (lc_held c)))) \<and>
    (\<forall>r. lk_entries s r \<noteq> None \<longleftrightarrow> (\<exists>c \<in> set (lk_clients s). r \<in> fst ` set (client_uses c)))"
proof (intro conjI)
  note inv = lock_reachable_inv [OF assms]
  show "\<forall>i j r. i < length (lk_clients s) \<and> j < length (lk_clients s) \<and>
      r \<in> fst ` set (lc_held (lk_clients s ! i)) \<and> r \<in> fst ` set (lc_held (lk_clients s ! j)) \<longrightarrow> i = j"
    by (auto dest: one_holder [OF inv])
  show "\<forall>c \<in> set (lk_clients s). distinct (map fst (lc_held c))"
    using held_distinct [OF inv] by (metis in_set_conv_nth)
  show "\<forall>r p. lk_entries s r = Some p \<longrightarrow>
      ll_refs (lk_heap s ! p) = total (use_count p) s \<and>
      (ll_token (lk_heap s ! p) \<longleftrightarrow> (\<forall>c \<in> set (lk_clients s). r \<notin> fst ` set (lc_held c)))"
    using lock_invD(1,4) [OF inv] token_iff [OF inv] by blast
  show "\<forall>r. lk_entries s r \<noteq> None \<longleftrightarrow> (\<exists>c \<in> set (lk_clients s). r \<in> fst ` set (client_uses c))"
    using entry_iff_used [OF inv] by blast
qed

text \<open>A run: the first client takes the lock and the second one queues behind it.\<close>

definition two_clients :: lock_sys where
  "two_clients =
     \<lparr>lk_entries = [''account:1'' \<mapsto> 0], lk_heap = [\<lparr>ll_token = False, ll_refs = 2\<rparr>],
      lk_clients = [fresh_client\<lparr>lc_held := [(''account:1'', 0)]\<rparr>,
                    fresh_client\<lparr>lc_waiting := Some (''account:1'', 0)\<rparr>]\<rparr>"

lemma two_clients_reachable: "lock_reachable 2 two_clients"
proof -
  let ?a = "lock_start 2"
  let ?b = "\<lparr>lk_entries = [''account:1'' \<mapsto> 0], lk_heap = [\<lparr>ll_token = True, ll_refs = 1\<rparr>],
      lk_clients = [fresh_client\<lparr>lc_waiting := Some (''account:1'', 0)\<rparr>, fresh_client]\<rparr>"
  let ?c = "\<lparr>lk_entries = [''account:1'' \<mapsto> 0], lk_heap = [\<lparr>ll_token = False, ll_refs = 1\<rparr>],
      lk_clients = [fresh_client\<lparr>lc_held := [(''account:1'', 0)]\<rparr>, fresh_client]\<rparr>"
  note ev = lock_start_def fresh_client_def reference_entry_def upd_client_def upd_lock_def Let_def
    numeral_2_eq_2 two_clients_def
  have ab: "lock_step ?a ?b"
    using lock_step.want [of 0 ?a fresh_client "''account:1''" 0 "snd (reference_entry ''account:1'' ?a)"]
    by (simp add: ev)
  have bc: "lock_step ?b ?c"
    using lock_step.take_token [of 0 ?b "lk_clients ?b ! 0" "''account:1''" 0] by (simp add: ev)
  have cd: "lock_step ?c two_clients"
    using lock_step.want [of 1 ?c fresh_client "''account:1''" 0 "snd (reference_entry ''account:1'' ?c)"]
    by (simp add: ev)
  show ?thesis
    by (rule lock_reachable.step [OF lock_reachable.step [OF lock_reachable.step [OF lock_reachable.start ab] bc] cd])
qed

theorem local_locks_exclusive_witness:
  "lk_entries two_clients ''account:1'' = Some 0 \<and> ll_refs (lk_heap two_clients ! 0) = total (use_count 0) two_clients \<and>
     (ll_token (lk_heap two_clients ! 0) \<longleftrightarrow>
       list_all (\<lambda>c. ''account:1'' \<notin> fst ` set (lc_held c)) (lk_clients two_clients))"
proof -
  have e: "lk_entries two_clients ''account:1'' = Some 0" by (simp add: two_clients_def)
  note all = local_locks_exclusive [OF two_clients_reachable, THEN conjunct2, THEN conjunct2, THEN conjunct1]
  show ?thesis using all [rule_format, OF e] e by (simp add: list_all_iff)
qed

end
