(* ===== verification/Lease_Renewal.thy ===== *)
theory Lease_Renewal
  imports Mutation_Guard
begin

text \<open>
  Keeping a granted lease alive, from mutationguard/guard.go: the deadline shared by the renewal
  goroutine and the watchdog (\<open>leaseDeadline\<close>), the renewal attempt one publishes and the other may
  adopt (\<open>renewalAttempt\<close>), and the two loops as one step relation. A step is one critical section
  or one call of either goroutine, so every interleaving of them is a run.

  The state carries three ghosts the code does not: the clock (no step reads a time before an
  earlier one), the expiry the store has for the lease, and the time of the watchdog's last check
  that passed.
\<close>

subsection \<open>The deadline and the renewal attempts\<close>

record renewal_result =
  rr_renewed :: bool
  rr_err :: "lease_error option"
  rr_completed :: gotime
  rr_expires :: gotime

record renewal_attempt =
  ra_result :: "renewal_result option"
  ra_accepted :: bool

record lease_deadline =
  ld_expires_at :: gotime
  ld_attempt :: "nat option"
  ld_expired :: bool
  ld_attempts :: "renewal_attempt list"

definition new_lease_deadline :: "gotime \<Rightarrow> lease_deadline" where
  "new_lease_deadline e = \<lparr>ld_expires_at = e, ld_attempt = None, ld_expired = False, ld_attempts = []\<rparr>"

definition begin_renewal :: "lease_deadline \<Rightarrow> nat \<times> lease_deadline" where
  "begin_renewal d =
     (let i = length (ld_attempts d) in
      (i, d\<lparr>ld_attempt := Some i,
            ld_attempts := ld_attempts d @ [\<lparr>ra_result = None, ra_accepted = False\<rparr>]\<rparr>))"

definition complete_attempt :: "nat \<Rightarrow> renewal_result \<Rightarrow> lease_deadline \<Rightarrow> lease_deadline" where
  "complete_attempt i r d =
     d\<lparr>ld_attempts := (ld_attempts d)[i := (ld_attempts d ! i)\<lparr>ra_result := Some r\<rparr>]\<rparr>"

text \<open>\<open>applyRenewalLocked\<close>; the send on the buffered channel \<open>changed\<close> only wakes the watchdog.\<close>

definition apply_renewal_locked :: "nat \<Rightarrow> lease_deadline \<Rightarrow> lease_deadline" where
  "apply_renewal_locked i d =
     (if ld_attempt d \<noteq> Some i then d
      else case ra_result (ld_attempts d ! i) of
             None \<Rightarrow> d
           | Some r \<Rightarrow>
               let d = d\<lparr>ld_attempt := None\<rparr> in
               if ld_expired d \<or> rr_err r \<noteq> None \<or> \<not> rr_renewed r \<or> \<not> rr_completed r < ld_expires_at d
               then d
               else d\<lparr>ld_expires_at := rr_expires r,
                      ld_attempts := (ld_attempts d)[i := (ld_attempts d ! i)\<lparr>ra_accepted := True\<rparr>]\<rparr>)"

definition finish_renewal :: "nat \<Rightarrow> lease_deadline \<Rightarrow> bool \<times> lease_deadline" where
  "finish_renewal i d =
     (let d = apply_renewal_locked i d in (ra_accepted (ld_attempts d ! i), d))"

definition cancel_if_expired :: "gotime \<Rightarrow> lease_deadline \<Rightarrow> bool \<times> lease_deadline" where
  "cancel_if_expired now d =
     (let d = (case ld_attempt d of None \<Rightarrow> d | Some i \<Rightarrow> apply_renewal_locked i d) in
      if now < ld_expires_at d then (False, d) else (True, d\<lparr>ld_expired := True\<rparr>))"

subsection \<open>The verdict of the renewal loop on one attempt\<close>

datatype cancel_cause =
    Lease_Expired
  | Expired_Before_Confirmation
  | Not_Renewable lease_error
  | Lease_Lost
  | Released
  | Outer_Cancelled ctx_error

definition renew_verdict ::
  "renewal_result \<Rightarrow> bool \<Rightarrow> gotime \<Rightarrow> duration \<Rightarrow> cancel_cause option" where
  "renew_verdict r accepted expires_at interval =
     (case rr_err r of
        Some e \<Rightarrow>
          if \<not> rr_completed r < expires_at then Some Expired_Before_Confirmation
          else if rr_completed r < expires_at - interval then None
          else Some (Not_Renewable e)
      | None \<Rightarrow>
          if \<not> rr_renewed r then Some Lease_Lost
          else if \<not> accepted then Some Expired_Before_Confirmation
          else None)"

subsection \<open>The two goroutines as a step relation\<close>

datatype renew_pc =
    Renew_Idle
  | Renew_Calling nat gotime gotime
  | Renew_Completed nat renewal_result gotime
  | Renew_Stopped

record lease_sys =
  lx_deadline :: lease_deadline
  lx_pc :: renew_pc
  lx_watching :: bool
  lx_cancel :: "cancel_cause option"
  lx_clock :: gotime
  lx_store_until :: gotime
  lx_checked :: "gotime option"

text \<open>The first cancellation of a context is the one it keeps.\<close>

definition cancel_with :: "cancel_cause \<Rightarrow> lease_sys \<Rightarrow> lease_sys" where
  "cancel_with c s = s\<lparr>lx_cancel := (case lx_cancel s of None \<Rightarrow> Some c | Some k \<Rightarrow> Some k)\<rparr>"

definition lease_start :: "gotime \<Rightarrow> gotime \<Rightarrow> duration \<Rightarrow> lease_sys" where
  "lease_start granted now ttl =
     \<lparr>lx_deadline = new_lease_deadline (granted + ttl), lx_pc = Renew_Idle, lx_watching = True,
      lx_cancel = None, lx_clock = now, lx_store_until = granted + ttl, lx_checked = None\<rparr>"

text \<open>
  The store's answer to a renewal begun at \<open>now\<close>: granted, it holds the lease until \<open>now + ttl\<close>;
  refused, nothing changed; failed, either.
\<close>

definition store_answers ::
  "duration \<Rightarrow> gotime \<Rightarrow> bool \<Rightarrow> lease_error option \<Rightarrow> gotime \<Rightarrow> gotime \<Rightarrow> bool" where
  "store_answers ttl now renewed err before after \<longleftrightarrow>
     (case err of
        None \<Rightarrow> after = (if renewed then now + ttl else before)
      | Some _ \<Rightarrow> \<not> renewed \<and> (after = before \<or> after = now + ttl))"

inductive lease_step :: "duration \<Rightarrow> duration \<Rightarrow> lease_sys \<Rightarrow> lease_sys \<Rightarrow> bool"
  for ttl :: duration and interval :: duration where
  tick_expired:
    "lx_pc s = Renew_Idle \<Longrightarrow> lx_cancel s = None \<Longrightarrow> lx_clock s \<le> now \<Longrightarrow>
     \<not> now < ld_expires_at (lx_deadline s) \<Longrightarrow>
     lease_step ttl interval s (cancel_with Lease_Expired (s\<lparr>lx_pc := Renew_Stopped, lx_clock := now\<rparr>))"
| tick_renew:
    "lx_pc s = Renew_Idle \<Longrightarrow> lx_cancel s = None \<Longrightarrow> lx_clock s \<le> now \<Longrightarrow>
     now < ld_expires_at (lx_deadline s) \<Longrightarrow> begin_renewal (lx_deadline s) = (i, d) \<Longrightarrow>
     lease_step ttl interval s
       (s\<lparr>lx_deadline := d, lx_pc := Renew_Calling i now (ld_expires_at (lx_deadline s)), lx_clock := now\<rparr>)"
| store_reply:
    "lx_pc s = Renew_Calling i now seen \<Longrightarrow> lx_clock s \<le> completed \<Longrightarrow>
     store_answers ttl now renewed err (lx_store_until s) after \<Longrightarrow>
     r = \<lparr>rr_renewed = renewed, rr_err = err, rr_completed = completed, rr_expires = now + ttl\<rparr> \<Longrightarrow>
     lease_step ttl interval s
       (s\<lparr>lx_deadline := complete_attempt i r (lx_deadline s), lx_pc := Renew_Completed i r seen,
          lx_clock := completed, lx_store_until := after\<rparr>)"
| finish:
    "lx_pc s = Renew_Completed i r seen \<Longrightarrow> finish_renewal i (lx_deadline s) = (accepted, d) \<Longrightarrow>
     lease_step ttl interval s
       (let s' = s\<lparr>lx_deadline := d\<rparr> in
        if lx_cancel s \<noteq> None then s'\<lparr>lx_pc := Renew_Stopped\<rparr>
        else case renew_verdict r accepted seen interval of
               None \<Rightarrow> s'\<lparr>lx_pc := Renew_Idle\<rparr>
             | Some c \<Rightarrow> cancel_with c (s'\<lparr>lx_pc := Renew_Stopped\<rparr>))"
| watch:
    "lx_watching s \<Longrightarrow> lx_clock s \<le> now \<Longrightarrow> cancel_if_expired now (lx_deadline s) = (expired, d) \<Longrightarrow>
     lease_step ttl interval s
       (let s' = s\<lparr>lx_deadline := d, lx_clock := now\<rparr> in
        if expired then cancel_with Lease_Expired (s'\<lparr>lx_watching := False\<rparr>)
        else s'\<lparr>lx_checked := Some now\<rparr>)"
| context_done:
    "lx_cancel s \<noteq> None \<Longrightarrow> lx_pc s = Renew_Idle \<Longrightarrow>
     lease_step ttl interval s (s\<lparr>lx_pc := Renew_Stopped\<rparr>)"
| watch_done:
    "lx_cancel s \<noteq> None \<Longrightarrow> lease_step ttl interval s (s\<lparr>lx_watching := False\<rparr>)"
| cancelled_outside:
    "lease_step ttl interval s (cancel_with c s)"

inductive lease_reachable :: "duration \<Rightarrow> duration \<Rightarrow> lease_sys \<Rightarrow> bool"
  for ttl :: duration and interval :: duration where
  start: "granted \<le> now \<Longrightarrow> lease_reachable ttl interval (lease_start granted now ttl)"
| step: "lease_reachable ttl interval s \<Longrightarrow> lease_step ttl interval s t \<Longrightarrow> lease_reachable ttl interval t"

subsection \<open>The invariant\<close>












subsection \<open>Properties\<close>








text \<open>
  The deadline a watchdog has to enforce: the expiry of a renewal that was answered in time and
  published but not yet finished, and the current one otherwise.
\<close>

definition effective_expiry :: "lease_deadline \<Rightarrow> gotime" where
  "effective_expiry d =
     (case ld_attempt d of
        None \<Rightarrow> ld_expires_at d
      | Some i \<Rightarrow>
          (case ra_result (ld_attempts d ! i) of
             None \<Rightarrow> ld_expires_at d
           | Some r \<Rightarrow>
               if \<not> ld_expired d \<and> rr_err r = None \<and> rr_renewed r \<and> rr_completed r < ld_expires_at d
               then rr_expires r else ld_expires_at d))"

text \<open>
  C7: A late timer does not lose a renewal. The watchdog cancels exactly when the effective expiry
  has passed, so a renewal answered before the old deadline saves the lease even if the timer of
  the old deadline fires before the renewal loop records it; afterwards the deadline is the
  effective expiry, and a lease once expired stays expired with its deadline unchanged.
\<close>

theorem cancel_if_expired_exact:
  "fst (cancel_if_expired now d) = (effective_expiry d \<le> now) \<and>
   ld_expires_at (snd (cancel_if_expired now d)) = effective_expiry d \<and>
   ld_expired (snd (cancel_if_expired now d)) = (ld_expired d \<or> effective_expiry d \<le> now) \<and>
   (if ld_expired d then ld_expires_at (snd (cancel_if_expired now d)) = ld_expires_at d else True)"
  by (cases "ld_attempt d"; cases "ra_result (ld_attempts d ! the (ld_attempt d))")
    (auto simp: cancel_if_expired_def apply_renewal_locked_def effective_expiry_def Let_def)

end
