(* ===== verification/Task_Group.thy ===== *)
theory Task_Group
  imports Prelude
begin

text \<open>
  The background task groups of taskrunner/runner.go: bounded admission with a finite queue, waiting
  for a slot, cancellation by task id, reconfiguration, and a shutdown that waits for every task.

  Each operation is the section of the code that runs under \<open>g.mu\<close>. A goroutine is a
  \<open>task_run\<close> with the point it has reached: \<open>Queued\<close> is about to (re)check for a slot,
  \<open>Blocked k\<close> waits on the \<open>changed\<close> channel of generation \<open>k\<close> (the channel is closed and
  replaced by \<open>notifyLocked\<close>, which starts the next generation), \<open>Executing a\<close> runs the task, having
  taken a slot iff \<open>a\<close>, and \<open>Ended\<close> has passed \<open>finish\<close>. \<open>tg_done\<close> counts the calls of
  \<open>close(g.done)\<close>, since a second one would panic.
\<close>

datatype task_error =
    Err_Stopped
  | Err_Nil_Task
  | Err_Capacity
  | Err_Task_ID
  | Err_Duplicate_Task
  | Err_Task_Cancellation_Unsupported

datatype run_phase = Queued | Blocked nat | Executing bool | Ended

record task_run =
  tr_id :: string
  tr_phase :: run_phase
  tr_cancelled :: bool

record group =
  tg_ctx_done :: bool
  tg_stopped :: bool
  tg_active :: int
  tg_running :: int
  tg_limit :: int
  tg_waiting :: int
  tg_queue :: int
  tg_changed :: nat
  tg_done :: nat
  tg_tasks :: "string \<rightharpoonup> nat"
  tg_runs :: "task_run list"

subsection \<open>Construction and admission\<close>

definition new_group_with :: "int \<Rightarrow> int \<Rightarrow> group" where
  "new_group_with max_active queue_capacity =
     \<lparr>tg_ctx_done = False, tg_stopped = False, tg_active = 0, tg_running = 0, tg_limit = max_active,
      tg_waiting = 0, tg_queue = queue_capacity, tg_changed = 0, tg_done = 0, tg_tasks = Map.empty,
      tg_runs = []\<rparr>"

definition new_group :: group where
  "new_group = new_group_with 0 0"

definition new_queued :: "int \<Rightarrow> int \<Rightarrow> group" where
  "new_queued max_active queue_capacity =
     new_group_with (if max_active < 1 then 1 else max_active) queue_capacity"

definition new_bounded :: "int \<Rightarrow> group" where
  "new_bounded max_active = new_queued max_active 0"

definition group_start :: "string \<Rightarrow> bool \<Rightarrow> group \<Rightarrow> task_error + group" where
  "group_start task_id run_is_nil g =
     (if run_is_nil then Inl Err_Nil_Task
      else if tg_stopped g \<or> tg_ctx_done g then Inl Err_Stopped
      else if task_id \<noteq> [] \<and> tg_tasks g task_id \<noteq> None then Inl Err_Duplicate_Task
      else
        let queued = (tg_limit g > 0 \<and> tg_running g \<ge> tg_limit g) in
        if queued \<and> tg_waiting g \<ge> tg_queue g then Inl Err_Capacity
        else Inr (g\<lparr>
          tg_waiting := (if queued then tg_waiting g + 1 else tg_waiting g),
          tg_active := tg_active g + 1,
          tg_running := (if queued then tg_running g else tg_running g + 1),
          tg_tasks := (if task_id \<noteq> [] then (tg_tasks g)(task_id \<mapsto> length (tg_runs g)) else tg_tasks g),
          tg_runs := tg_runs g @
            [\<lparr>tr_id = task_id, tr_phase = (if queued then Queued else Executing True), tr_cancelled = False\<rparr>]\<rparr>))"

definition group_go :: "bool \<Rightarrow> group \<Rightarrow> task_error + group" where
  "group_go run_is_nil g = group_start [] run_is_nil g"

definition group_go_task :: "string \<Rightarrow> bool \<Rightarrow> group \<Rightarrow> task_error + group" where
  "group_go_task task_id run_is_nil g =
     (let task_id = trim_space task_id in
      if task_id = [] then Inl Err_Task_ID else group_start task_id run_is_nil g)"

subsection \<open>Waiting for a slot, finishing, notification\<close>

text \<open>\<open>runContext.Err() != nil\<close>: the task's own context derives from the group's.\<close>

definition task_done :: "group \<Rightarrow> task_run \<Rightarrow> bool" where
  "task_done g t \<longleftrightarrow> tg_ctx_done g \<or> tr_cancelled t"

definition set_phase :: "nat \<Rightarrow> run_phase \<Rightarrow> group \<Rightarrow> group" where
  "set_phase i p g = g\<lparr>tg_runs := (tg_runs g)[i := (tg_runs g ! i)\<lparr>tr_phase := p\<rparr>]\<rparr>"

text \<open>One locked pass of the loop of \<open>wait\<close>, with the deferred \<open>waiting--\<close> when it returns.\<close>

definition group_wait :: "nat \<Rightarrow> group \<Rightarrow> group option" where
  "group_wait i g =
     (if i < length (tg_runs g) \<and> tr_phase (tg_runs g ! i) = Queued then
        Some (if task_done g (tg_runs g ! i) then
                set_phase i (Executing False) (g\<lparr>tg_waiting := tg_waiting g - 1\<rparr>)
              else if tg_limit g = 0 \<or> tg_running g < tg_limit g then
                set_phase i (Executing True) (g\<lparr>tg_waiting := tg_waiting g - 1, tg_running := tg_running g + 1\<rparr>)
              else set_phase i (Blocked (tg_changed g)) g)
      else None)"

text \<open>The \<open>select\<close> between the passes: the channel of the generation is closed, or the context is done.\<close>

definition group_wake :: "nat \<Rightarrow> group \<Rightarrow> group option" where
  "group_wake i g =
     (if i < length (tg_runs g) then
        (case tr_phase (tg_runs g ! i) of
           Blocked k \<Rightarrow>
             if k \<noteq> tg_changed g \<or> task_done g (tg_runs g ! i) then Some (set_phase i Queued g) else None
         | _ \<Rightarrow> None)
      else None)"

definition notify_locked :: "group \<Rightarrow> group" where
  "notify_locked g = g\<lparr>tg_changed := tg_changed g + 1\<rparr>"

definition close_done :: "group \<Rightarrow> group" where
  "close_done g = g\<lparr>tg_done := tg_done g + 1\<rparr>"

definition group_finish :: "nat \<Rightarrow> group \<Rightarrow> group option" where
  "group_finish i g =
     (if i < length (tg_runs g) then
        (case tr_phase (tg_runs g ! i) of
           Executing acquired \<Rightarrow>
             (let task_id = tr_id (tg_runs g ! i);
                  g = set_phase i Ended g;
                  g = (if task_id \<noteq> [] then g\<lparr>tg_tasks := (tg_tasks g)(task_id := None)\<rparr> else g);
                  g = g\<lparr>tg_active := tg_active g - 1\<rparr>;
                  g = (if acquired then g\<lparr>tg_running := tg_running g - 1\<rparr> else g);
                  g = notify_locked g
              in Some (if tg_stopped g \<and> tg_active g = 0 then close_done g else g))
         | _ \<Rightarrow> None)
      else None)"

subsection \<open>Reconfiguration, cancellation, shutdown\<close>

definition group_configure :: "int \<Rightarrow> int \<Rightarrow> group \<Rightarrow> group" where
  "group_configure limit queue g =
     (if limit < 1 \<or> queue < 0 then g
      else notify_locked (g\<lparr>tg_limit := limit, tg_queue := queue\<rparr>))"

record snapshot =
  sn_limit :: int
  sn_queue_capacity :: int
  sn_running :: int
  sn_waiting :: int

definition group_snapshot :: "group \<Rightarrow> snapshot" where
  "group_snapshot g =
     \<lparr>sn_limit = tg_limit g, sn_queue_capacity = tg_queue g, sn_running = tg_running g, sn_waiting = tg_waiting g\<rparr>"

definition group_cancel_task :: "string \<Rightarrow> group \<Rightarrow> bool \<times> group" where
  "group_cancel_task task_id g =
     (case tg_tasks g (trim_space task_id) of
        None \<Rightarrow> (False, g)
      | Some i \<Rightarrow> (True, g\<lparr>tg_runs := (tg_runs g)[i := (tg_runs g ! i)\<lparr>tr_cancelled := True\<rparr>]\<rparr>))"

definition group_cancel :: "group \<Rightarrow> group" where
  "group_cancel g =
     (if tg_stopped g then g
      else
        let g = g\<lparr>tg_stopped := True, tg_ctx_done := True\<rparr> in
        if tg_active g = 0 then close_done g else g)"

text \<open>
  The answer of \<open>Shutdown\<close> once its \<open>select\<close> runs in the group \<open>g\<close> (after \<open>g.Cancel()\<close>): nil when
  \<open>done\<close> is closed, else the error of the caller's context; none while neither is ready.
\<close>

definition shutdown_answer :: "'e option \<Rightarrow> group \<Rightarrow> 'e option option" where
  "shutdown_answer ctx_err g =
     (if tg_done g > 0 then Some None
      else (case ctx_err of Some e \<Rightarrow> Some (Some e) | None \<Rightarrow> None))"

text \<open>\<open>CompositeCanceller.CancelTask\<close> over the groups that may own the task (nil groups are skipped).\<close>

fun composite_cancel :: "string \<Rightarrow> group option list \<Rightarrow> bool \<times> group option list" where
  "composite_cancel task_id [] = (False, [])"
| "composite_cancel task_id (None # gs) =
     (let (found, hs) = composite_cancel task_id gs in (found, None # hs))"
| "composite_cancel task_id (Some g # gs) =
     (let (found, h) = group_cancel_task task_id g;
          (found', hs) = composite_cancel task_id gs
      in (found \<or> found', Some h # hs))"

text \<open>The package's \<open>Go\<close> and \<open>GoTask\<close>: without a runner the task runs detached (\<open>None\<close> as the group).\<close>

datatype task_runner = No_Runner | Plain_Runner group | Keyed_Runner group

definition runner_go :: "task_runner \<Rightarrow> bool \<Rightarrow> task_error + group option" where
  "runner_go r run_is_nil =
     (if run_is_nil then Inl Err_Nil_Task
      else (case r of
          No_Runner \<Rightarrow> Inr None
        | Plain_Runner g \<Rightarrow> map_sum id Some (group_go run_is_nil g)
        | Keyed_Runner g \<Rightarrow> map_sum id Some (group_go run_is_nil g)))"

definition runner_go_task :: "task_runner \<Rightarrow> string \<Rightarrow> bool \<Rightarrow> task_error + group option" where
  "runner_go_task r task_id run_is_nil =
     (if run_is_nil then Inl Err_Nil_Task
      else if trim_space task_id = [] then Inl Err_Task_ID
      else (case r of
          Keyed_Runner g \<Rightarrow> map_sum id Some (group_go_task task_id run_is_nil g)
        | Plain_Runner g \<Rightarrow> Inl Err_Task_Cancellation_Unsupported
        | No_Runner \<Rightarrow> Inr None))"

subsection \<open>Runs of a group\<close>

datatype group_event =
    Ev_Go
  | Ev_Go_Task string
  | Ev_Wait nat
  | Ev_Wake nat
  | Ev_Finish nat
  | Ev_Configure int int
  | Ev_Cancel_Task string
  | Ev_Cancel
  | Ev_Parent_Done

definition accept :: "group \<Rightarrow> task_error + group \<Rightarrow> group option" where
  "accept g r = Some (case r of Inl e \<Rightarrow> g | Inr h \<Rightarrow> h)"

fun group_apply :: "group_event \<Rightarrow> group \<Rightarrow> group option" where
  "group_apply Ev_Go g = accept g (group_go False g)"
| "group_apply (Ev_Go_Task task_id) g = accept g (group_go_task task_id False g)"
| "group_apply (Ev_Wait i) g = group_wait i g"
| "group_apply (Ev_Wake i) g = group_wake i g"
| "group_apply (Ev_Finish i) g = group_finish i g"
| "group_apply (Ev_Configure l q) g = Some (group_configure l q g)"
| "group_apply (Ev_Cancel_Task task_id) g = Some (snd (group_cancel_task task_id g))"
| "group_apply Ev_Cancel g = Some (group_cancel g)"
| "group_apply Ev_Parent_Done g = Some (g\<lparr>tg_ctx_done := True\<rparr>)"

fun group_run :: "group_event list \<Rightarrow> group \<Rightarrow> group option" where
  "group_run [] g = Some g"
| "group_run (e # es) g = Option.bind (group_apply e g) (group_run es)"

subsection \<open>The accounting invariant\<close>

fun is_waiting :: "run_phase \<Rightarrow> bool" where
  "is_waiting Queued \<longleftrightarrow> True"
| "is_waiting (Blocked k) \<longleftrightarrow> True"
| "is_waiting (Executing a) \<longleftrightarrow> False"
| "is_waiting Ended \<longleftrightarrow> False"

definition runs_in :: "(run_phase \<Rightarrow> bool) \<Rightarrow> group \<Rightarrow> int" where
  "runs_in P g = (\<Sum>t \<leftarrow> tg_runs g. if P (tr_phase t) then 1 else 0)"

definition live_id :: "group \<Rightarrow> string \<Rightarrow> nat \<Rightarrow> bool" where
  "live_id g task_id i \<longleftrightarrow>
     i < length (tg_runs g) \<and> task_id \<noteq> [] \<and> tr_id (tg_runs g ! i) = task_id \<and> tr_phase (tg_runs g ! i) \<noteq> Ended"

definition counted :: "group \<Rightarrow> bool" where
  "counted g \<longleftrightarrow>
     tg_active g = runs_in (\<lambda>p. p \<noteq> Ended) g \<and>
     tg_waiting g = runs_in is_waiting g \<and>
     tg_running g = runs_in (\<lambda>p. p = Executing True) g"

definition registered :: "group \<Rightarrow> bool" where
  "registered g \<longleftrightarrow> (\<forall>task_id i. tg_tasks g task_id = Some i \<longleftrightarrow> live_id g task_id i)"

definition no_lost_wakeup :: "group \<Rightarrow> bool" where
  "no_lost_wakeup g \<longleftrightarrow>
     (\<forall>t \<in> set (tg_runs g). \<forall>k. tr_phase t = Blocked k \<longrightarrow>
        k \<le> tg_changed g \<and> (k = tg_changed g \<longrightarrow> 0 < tg_limit g \<and> tg_limit g \<le> tg_running g))"

definition closed_once :: "group \<Rightarrow> bool" where
  "closed_once g \<longleftrightarrow>
     tg_done g = (if tg_stopped g \<and> tg_active g = 0 then 1 else 0) \<and> (tg_stopped g \<longrightarrow> tg_ctx_done g) \<and>
     0 \<le> tg_limit g"

definition group_inv :: "group \<Rightarrow> bool" where
  "group_inv g \<longleftrightarrow> counted g \<and> registered g \<and> no_lost_wakeup g \<and> closed_once g"

lemma group_inv_parts:
  "group_inv g \<Longrightarrow> counted g" "group_inv g \<Longrightarrow> registered g" "group_inv g \<Longrightarrow> no_lost_wakeup g"
  "group_inv g \<Longrightarrow> closed_once g"
  by (simp_all add: group_inv_def)

lemma runs_in_set_phase:
  "i < length (tg_runs g) \<Longrightarrow>
   runs_in P (set_phase i p g) =
     runs_in P g - (if P (tr_phase (tg_runs g ! i)) then 1 else 0) + (if P p then 1 else 0)"
  by (simp add: runs_in_def set_phase_def sum_list_map_update)

lemma runs_in_nonneg: "0 \<le> runs_in P g"
  by (auto simp: runs_in_def intro!: sum_list_nonneg)

lemma runs_in_fields [simp]:
  "runs_in P (tg_waiting_update f1 g) = runs_in P g"
  "runs_in P (tg_running_update f1 g) = runs_in P g"
  "runs_in P (tg_active_update f1 g) = runs_in P g"
  "runs_in P (tg_tasks_update f2 g) = runs_in P g"
  "runs_in P (tg_changed_update f3 g) = runs_in P g"
  "runs_in P (tg_done_update f3 g) = runs_in P g"
  "runs_in P (tg_limit_update f1 g) = runs_in P g"
  "runs_in P (tg_queue_update f1 g) = runs_in P g"
  "runs_in P (tg_stopped_update f4 g) = runs_in P g"
  "runs_in P (tg_ctx_done_update f4 g) = runs_in P g"
  by (simp_all add: runs_in_def)

lemma set_phase_sel [simp]:
  "tg_ctx_done (set_phase i p g) = tg_ctx_done g" "tg_stopped (set_phase i p g) = tg_stopped g"
  "tg_active (set_phase i p g) = tg_active g" "tg_running (set_phase i p g) = tg_running g"
  "tg_limit (set_phase i p g) = tg_limit g" "tg_waiting (set_phase i p g) = tg_waiting g"
  "tg_queue (set_phase i p g) = tg_queue g" "tg_changed (set_phase i p g) = tg_changed g"
  "tg_done (set_phase i p g) = tg_done g" "tg_tasks (set_phase i p g) = tg_tasks g"
  "length (tg_runs (set_phase i p g)) = length (tg_runs g)"
  "tg_runs (set_phase i p g) = (tg_runs g)[i := (tg_runs g ! i)\<lparr>tr_phase := p\<rparr>]"
  by (simp_all add: set_phase_def)

lemma live_id_fields [simp]:
  "live_id (tg_waiting_update f1 g) = live_id g"
  "live_id (tg_running_update f1 g) = live_id g"
  "live_id (tg_active_update f1 g) = live_id g"
  "live_id (tg_tasks_update f2 g) = live_id g"
  "live_id (tg_changed_update f3 g) = live_id g"
  "live_id (tg_done_update f3 g) = live_id g"
  by (simp_all add: live_id_def fun_eq_iff)

lemma live_id_set_phase:
  "i < length (tg_runs g) \<Longrightarrow> p \<noteq> Ended \<Longrightarrow> tr_phase (tg_runs g ! i) \<noteq> Ended \<Longrightarrow>
   live_id (set_phase i p g) = live_id g"
  by (auto simp: live_id_def fun_eq_iff nth_list_update)

text \<open>A task run that moves between two phases, neither of them \<open>Ended\<close>.\<close>

lemma registered_moved:
  "registered g \<Longrightarrow> i < length (tg_runs g) \<Longrightarrow> p \<noteq> Ended \<Longrightarrow> tr_phase (tg_runs g ! i) \<noteq> Ended \<Longrightarrow>
   tg_tasks h = tg_tasks g \<Longrightarrow> tg_runs h = tg_runs (set_phase i p g) \<Longrightarrow> registered h"
  using live_id_set_phase [of i g p] by (simp add: registered_def live_id_def fun_eq_iff del: set_phase_sel(12))

lemma no_lost_wakeup_moved:
  assumes "no_lost_wakeup g" and "tg_runs h = (tg_runs g)[i := (tg_runs g ! i)\<lparr>tr_phase := p\<rparr>]"
    and "\<And>k. p = Blocked k \<Longrightarrow> k = tg_changed h \<and> 0 < tg_limit h \<and> tg_limit h \<le> tg_running h"
    and "tg_changed g < tg_changed h \<or>
         (tg_changed h = tg_changed g \<and> tg_limit h = tg_limit g \<and> tg_running g \<le> tg_running h)"
  shows "no_lost_wakeup h"
  unfolding no_lost_wakeup_def
proof (intro ballI allI impI)
  fix t k
  assume t: "t \<in> set (tg_runs h)" and k: "tr_phase t = Blocked k"
  show "k \<le> tg_changed h \<and> (k = tg_changed h \<longrightarrow> 0 < tg_limit h \<and> tg_limit h \<le> tg_running h)"
  proof (cases "t \<in> set (tg_runs g)")
    case True
    then show ?thesis using assms(1,4) k unfolding no_lost_wakeup_def by fastforce
  next
    case False
    then have "t = (tg_runs g ! i)\<lparr>tr_phase := p\<rparr>"
      using t assms(2) set_update_subset_insert by fastforce
    then show ?thesis using k assms(3) [of k] by simp
  qed
qed

subsection \<open>Every operation keeps it\<close>

lemma group_wait_inv:
  assumes "group_wait i g = Some h" and inv: "group_inv g"
  shows "group_inv h"
proof -
  have i: "i < length (tg_runs g)" and ph: "tr_phase (tg_runs g ! i) = Queued"
    using assms(1) by (auto simp: group_wait_def split: if_splits)
  note parts = group_inv_parts [OF inv]
  consider
      (cancelled) "h = set_phase i (Executing False) (g\<lparr>tg_waiting := tg_waiting g - 1\<rparr>)"
    | (slot) "h = set_phase i (Executing True) (g\<lparr>tg_waiting := tg_waiting g - 1, tg_running := tg_running g + 1\<rparr>)"
    | (blocked) "h = set_phase i (Blocked (tg_changed g)) g" "tg_limit g \<noteq> 0" "tg_limit g \<le> tg_running g"
    using assms(1) i ph by (auto simp: group_wait_def split: if_splits)
  then show ?thesis
  proof cases
    case cancelled
    have "counted h" using parts(1) i ph by (simp add: cancelled counted_def runs_in_set_phase)
    moreover have "registered h"
      by (rule registered_moved [OF parts(2) i, of "Executing False"]) (simp_all add: cancelled ph)
    moreover have "no_lost_wakeup h"
      by (rule no_lost_wakeup_moved [OF parts(3), of _ i "Executing False"]) (simp_all add: cancelled)
    ultimately show ?thesis using parts(4) by (simp add: group_inv_def closed_once_def cancelled)
  next
    case slot
    have "counted h" using parts(1) i ph by (simp add: slot counted_def runs_in_set_phase)
    moreover have "registered h"
      by (rule registered_moved [OF parts(2) i, of "Executing True"]) (simp_all add: slot ph)
    moreover have "no_lost_wakeup h"
      by (rule no_lost_wakeup_moved [OF parts(3), of _ i "Executing True"]) (simp_all add: slot)
    ultimately show ?thesis using parts(4) by (simp add: group_inv_def closed_once_def slot)
  next
    case blocked
    have "counted h" using parts(1) i ph by (simp add: blocked(1) counted_def runs_in_set_phase)
    moreover have "registered h"
      by (rule registered_moved [OF parts(2) i, of "Blocked (tg_changed g)"]) (simp_all add: blocked(1) ph)
    moreover have "no_lost_wakeup h"
      by (rule no_lost_wakeup_moved [OF parts(3), of _ i "Blocked (tg_changed g)"])
         (use blocked parts(4) in \<open>simp_all add: closed_once_def\<close>)
    ultimately show ?thesis using parts(4) by (simp add: group_inv_def closed_once_def blocked(1))
  qed
qed

lemma group_wake_inv:
  assumes "group_wake i g = Some h" and inv: "group_inv g"
  shows "group_inv h"
proof -
  obtain k where i: "i < length (tg_runs g)" and ph: "tr_phase (tg_runs g ! i) = Blocked k"
    and h: "h = set_phase i Queued g"
    using assms(1) by (auto simp: group_wake_def split: if_splits run_phase.splits)
  note parts = group_inv_parts [OF inv]
  have "counted h" using parts(1) i ph by (simp add: h counted_def runs_in_set_phase)
  moreover have "registered h"
    by (rule registered_moved [OF parts(2) i, of Queued]) (simp_all add: h ph)
  moreover have "no_lost_wakeup h"
    by (rule no_lost_wakeup_moved [OF parts(3), of _ i Queued]) (simp_all add: h)
  ultimately show ?thesis using parts(4) by (simp add: group_inv_def closed_once_def h)
qed

text \<open>The group after \<open>finish\<close>, whichever of its branches runs.\<close>

lemma group_finishD:
  assumes "group_finish i g = Some h"
  obtains a where "i < length (tg_runs g)" "tr_phase (tg_runs g ! i) = Executing a"
    "tg_runs h = tg_runs (set_phase i Ended g)"
    "tg_tasks h = (if tr_id (tg_runs g ! i) \<noteq> [] then (tg_tasks g)(tr_id (tg_runs g ! i) := None) else tg_tasks g)"
    "tg_active h = tg_active g - 1" "tg_running h = tg_running g - (if a then 1 else 0)"
    "tg_waiting h = tg_waiting g" "tg_changed h = tg_changed g + 1" "tg_limit h = tg_limit g"
    "tg_queue h = tg_queue g"
    "tg_stopped h = tg_stopped g" "tg_ctx_done h = tg_ctx_done g"
    "tg_done h = (if tg_stopped g \<and> tg_active g = 1 then tg_done g + 1 else tg_done g)"
  using assms
  by (auto simp: group_finish_def Let_def notify_locked_def close_done_def split: if_splits run_phase.splits)

lemma runs_in_same: "tg_runs h = tg_runs g \<Longrightarrow> runs_in P h = runs_in P g"
  by (simp add: runs_in_def)

lemma runs_in_member:
  "i < length (tg_runs g) \<Longrightarrow> P (tr_phase (tg_runs g ! i)) \<Longrightarrow> 0 < runs_in P g"
  using runs_in_set_phase [of i g P "tr_phase (tg_runs g ! i)"] member_le_sum_list
    [of "1::int" "map (\<lambda>t. if P (tr_phase t) then 1 else 0) (tg_runs g)"]
  by (force simp: runs_in_def)

lemma group_finish_inv:
  assumes "group_finish i g = Some h" and inv: "group_inv g"
  shows "group_inv h"
proof -
  note parts = group_inv_parts [OF inv]
  obtain a where i: "i < length (tg_runs g)" and ph: "tr_phase (tg_runs g ! i) = Executing a"
    and runs: "tg_runs h = tg_runs (set_phase i Ended g)"
    and tasks: "tg_tasks h = (if tr_id (tg_runs g ! i) \<noteq> [] then (tg_tasks g)(tr_id (tg_runs g ! i) := None) else tg_tasks g)"
    and h: "tg_active h = tg_active g - 1" "tg_running h = tg_running g - (if a then 1 else 0)"
      "tg_waiting h = tg_waiting g" "tg_changed h = tg_changed g + 1" "tg_limit h = tg_limit g"
      "tg_stopped h = tg_stopped g" "tg_ctx_done h = tg_ctx_done g"
      "tg_done h = (if tg_stopped g \<and> tg_active g = 1 then tg_done g + 1 else tg_done g)"
    by (rule group_finishD [OF assms(1)]) blast
  have cnt: "runs_in P h = runs_in P (set_phase i Ended g)" for P by (rule runs_in_same [OF runs])
  have "counted h" using parts(1) i ph h by (simp add: counted_def cnt runs_in_set_phase)
  moreover have "registered h"
  proof -
    let ?id = "tr_id (tg_runs g ! i)"
    have live: "live_id h task_id j \<longleftrightarrow> live_id g task_id j \<and> j \<noteq> i" for task_id j
      using i by (auto simp: live_id_def runs nth_list_update)
    have R: "tg_tasks g task_id = Some j \<longleftrightarrow> live_id g task_id j" for task_id j
      using parts(2) by (simp add: registered_def)
    have own: "?id \<noteq> [] \<Longrightarrow> tg_tasks g ?id = Some i" using R i ph by (simp add: live_id_def)
    have only: "live_id g task_id i \<Longrightarrow> task_id = ?id \<and> ?id \<noteq> []" for task_id by (simp add: live_id_def)
    have "tg_tasks h task_id = Some j \<longleftrightarrow> tg_tasks g task_id = Some j \<and> j \<noteq> i" for task_id j
    proof (cases "?id \<noteq> [] \<and> task_id = ?id")
      case True
      then show ?thesis using own by (simp add: tasks)
    next
      case False
      then have "tg_tasks h task_id = tg_tasks g task_id" by (auto simp: tasks)
      moreover have "tg_tasks g task_id \<noteq> Some i" using False only R by blast
      ultimately show ?thesis by auto
    qed
    then show ?thesis unfolding registered_def live R by blast
  qed
  moreover have "no_lost_wakeup h"
    by (rule no_lost_wakeup_moved [OF parts(3), of _ i Ended]) (simp_all add: runs h)
  moreover have "closed_once h"
  proof -
    have "0 < tg_active g"
      using parts(1) runs_in_member [of i g "\<lambda>p. p \<noteq> Ended"] i ph by (simp add: counted_def)
    then show ?thesis using parts(4) by (auto simp: closed_once_def h)
  qed
  ultimately show ?thesis by (simp add: group_inv_def)
qed

text \<open>A task that is let in: with a slot at once, or in the queue behind the running tasks.\<close>

definition enrolled :: "string \<Rightarrow> run_phase \<Rightarrow> group \<Rightarrow> group" where
  "enrolled task_id p g = g\<lparr>
     tg_waiting := (if p = Queued then tg_waiting g + 1 else tg_waiting g),
     tg_active := tg_active g + 1,
     tg_running := (if p = Queued then tg_running g else tg_running g + 1),
     tg_tasks := (if task_id \<noteq> [] then (tg_tasks g)(task_id \<mapsto> length (tg_runs g)) else tg_tasks g),
     tg_runs := tg_runs g @ [\<lparr>tr_id = task_id, tr_phase = p, tr_cancelled = False\<rparr>]\<rparr>"

lemma group_start_cases:
  assumes "group_start task_id r g = Inr h"
  obtains p where "h = enrolled task_id p g" "\<not> tg_stopped g" "\<not> tg_ctx_done g"
    "task_id \<noteq> [] \<longrightarrow> tg_tasks g task_id = None"
    "p = Queued \<longrightarrow> 0 < tg_limit g \<and> tg_limit g \<le> tg_running g \<and> tg_waiting g < tg_queue g"
    "p \<noteq> Queued \<longrightarrow> p = Executing True \<and> (tg_limit g \<le> 0 \<or> tg_running g < tg_limit g)"
proof (cases "0 < tg_limit g \<and> tg_limit g \<le> tg_running g")
  case True
  then show ?thesis
    using assms that [of Queued] by (simp add: group_start_def Let_def enrolled_def split: if_splits)
next
  case False
  then have "h = enrolled task_id (Executing True) g"
    using assms by (auto simp: group_start_def enrolled_def Let_def split: if_splits)
  with False show ?thesis
    using assms that [of "Executing True"] by (auto simp: group_start_def Let_def split: if_splits)
qed

lemma group_start_inv:
  assumes "group_start task_id r g = Inr h" and inv: "group_inv g"
  shows "group_inv h"
proof -
  note parts = group_inv_parts [OF inv]
  obtain p where h: "h = enrolled task_id p g" and open_: "\<not> tg_stopped g" "\<not> tg_ctx_done g"
      "task_id \<noteq> [] \<longrightarrow> tg_tasks g task_id = None"
    and queued: "p = Queued \<longrightarrow> 0 < tg_limit g \<and> tg_limit g \<le> tg_running g \<and> tg_waiting g < tg_queue g"
    and p: "p \<noteq> Queued \<longrightarrow> p = Executing True \<and> (tg_limit g \<le> 0 \<or> tg_running g < tg_limit g)"
    by (rule group_start_cases [OF assms(1)]) blast
  have ph: "p = Queued \<or> p = Executing True" using p by blast
  have runs: "tg_runs h = tg_runs g @ [\<lparr>tr_id = task_id, tr_phase = p, tr_cancelled = False\<rparr>]"
    by (simp add: h enrolled_def)
  have cnt: "runs_in P h = runs_in P g + (if P p then 1 else 0)" for P by (simp add: runs_in_def runs)
  have "counted h" using parts(1) ph by (auto simp: counted_def cnt) (auto simp: h enrolled_def)
  moreover have "registered h"
  proof -
    have R: "tg_tasks g i = Some j \<longleftrightarrow> live_id g i j" for i j using parts(2) by (simp add: registered_def)
    have live: "live_id h i j \<longleftrightarrow> live_id g i j \<or> j = length (tg_runs g) \<and> i = task_id \<and> task_id \<noteq> []" for i j
      using ph by (auto simp: live_id_def runs nth_append less_Suc_eq)
    have "tg_tasks h i = Some j \<longleftrightarrow> tg_tasks g i = Some j \<or> j = length (tg_runs g) \<and> i = task_id \<and> task_id \<noteq> []" for i j
      using open_(3) by (auto simp: h enrolled_def)
    then show ?thesis unfolding registered_def live R by blast
  qed
  moreover have "no_lost_wakeup h"
    using parts(3) ph unfolding no_lost_wakeup_def runs by (auto simp: h enrolled_def)
  moreover have "closed_once h"
  proof -
    have "0 \<le> tg_active g" using parts(1) runs_in_nonneg by (simp add: counted_def)
    then show ?thesis using parts(4) open_(1) by (simp add: closed_once_def h enrolled_def)
  qed
  ultimately show ?thesis by (simp add: group_inv_def)
qed

lemma registered_same:
  "registered g \<Longrightarrow> tg_tasks h = tg_tasks g \<Longrightarrow> length (tg_runs h) = length (tg_runs g) \<Longrightarrow>
   (\<And>i. i < length (tg_runs g) \<Longrightarrow> tr_id (tg_runs h ! i) = tr_id (tg_runs g ! i) \<and>
          tr_phase (tg_runs h ! i) = tr_phase (tg_runs g ! i)) \<Longrightarrow> registered h"
  unfolding registered_def live_id_def by auto

lemma group_configure_inv: "group_inv g \<Longrightarrow> group_inv (group_configure l q g)"
  by (auto simp: group_configure_def notify_locked_def group_inv_def counted_def registered_def live_id_def
      no_lost_wakeup_def closed_once_def)

lemma group_cancel_inv: "group_inv g \<Longrightarrow> group_inv (group_cancel g)"
  by (auto simp: group_cancel_def Let_def close_done_def group_inv_def counted_def registered_def live_id_def
      no_lost_wakeup_def closed_once_def)

lemma group_cancel_task_inv:
  assumes inv: "group_inv g"
  shows "group_inv (snd (group_cancel_task task_id g))"
proof (cases "tg_tasks g (trim_space task_id)")
  case None
  then show ?thesis using inv by (simp add: group_cancel_task_def)
next
  case (Some i)
  note parts = group_inv_parts [OF inv]
  let ?h = "g\<lparr>tg_runs := (tg_runs g)[i := (tg_runs g ! i)\<lparr>tr_cancelled := True\<rparr>]\<rparr>"
  have i: "i < length (tg_runs g)" using Some parts(2) by (simp add: registered_def live_id_def)
  have "runs_in P ?h = runs_in P g" for P
    using i by (simp add: runs_in_def sum_list_map_update)
  then have "counted ?h" using parts(1) by (simp add: counted_def)
  moreover have "registered ?h"
    by (rule registered_same [OF parts(2)]) (use i in \<open>auto simp: nth_list_update\<close>)
  moreover have "no_lost_wakeup ?h"
    using parts(3) i set_update_subset_insert [of "tg_runs g" i "(tg_runs g ! i)\<lparr>tr_cancelled := True\<rparr>"]
    by (fastforce simp: no_lost_wakeup_def)
  ultimately show ?thesis using parts(4) Some by (simp add: group_cancel_task_def group_inv_def closed_once_def)
qed

lemma accept_inv:
  "accept g r = Some h \<Longrightarrow> group_inv g \<Longrightarrow> (\<And>k. r = Inr k \<Longrightarrow> group_inv k) \<Longrightarrow> group_inv h"
  by (auto simp: accept_def split: sum.splits)

lemma group_apply_inv: "group_apply e g = Some h \<Longrightarrow> group_inv g \<Longrightarrow> group_inv h"
proof (cases e)
  case Ev_Parent_Done
  assume "group_apply e g = Some h" "group_inv g"
  then show ?thesis
    using Ev_Parent_Done by (auto simp: group_inv_def counted_def registered_def live_id_def
        no_lost_wakeup_def closed_once_def)
qed (auto elim!: accept_inv simp: group_go_def group_go_task_def Let_def
     intro: group_start_inv group_wait_inv group_wake_inv group_finish_inv group_configure_inv
       group_cancel_inv group_cancel_task_inv split: if_splits)

lemma group_run_inv: "group_run es g = Some h \<Longrightarrow> group_inv g \<Longrightarrow> group_inv h"
  by (induction es arbitrary: g) (auto simp: bind_eq_Some_conv intro: group_apply_inv)

lemma new_group_inv: "0 \<le> n \<Longrightarrow> group_inv (new_group_with n q)"
  by (simp add: new_group_with_def group_inv_def counted_def registered_def live_id_def no_lost_wakeup_def
      closed_once_def runs_in_def)

subsection \<open>Bounds\<close>

fun configures_within :: "int \<Rightarrow> int \<Rightarrow> group_event \<Rightarrow> bool" where
  "configures_within L Q (Ev_Configure l q) \<longleftrightarrow> l \<le> L \<and> q \<le> Q"
| "configures_within L Q e \<longleftrightarrow> True"

definition within :: "int \<Rightarrow> int \<Rightarrow> group \<Rightarrow> bool" where
  "within L Q g \<longleftrightarrow> 1 \<le> tg_limit g \<and> tg_limit g \<le> L \<and> tg_queue g \<le> Q \<and> tg_running g \<le> L \<and> tg_waiting g \<le> Q"

lemma within_start: "group_start task_id r g = Inr h \<Longrightarrow> within L Q g \<Longrightarrow> within L Q h"
  by (erule group_start_cases) (auto simp: within_def enrolled_def)

lemma within_finish: "group_finish i g = Some h \<Longrightarrow> within L Q g \<Longrightarrow> within L Q h"
  by (erule group_finishD) (auto simp: within_def)

lemma within_apply:
  "group_apply e g = Some h \<Longrightarrow> configures_within L Q e \<Longrightarrow> within L Q g \<Longrightarrow> within L Q h"
proof (induction e g rule: group_apply.induct)
  case (1 g)
  then show ?case by (auto simp: accept_def group_go_def dest: within_start split: sum.splits)
next
  case (2 task_id g)
  then show ?case
    by (auto simp: accept_def group_go_task_def Let_def dest: within_start split: sum.splits if_splits)
next
  case (5 i g)
  then show ?case by (auto dest: within_finish)
qed (auto simp: within_def group_wait_def group_wake_def group_configure_def notify_locked_def group_cancel_def
      group_cancel_task_def close_done_def Let_def split: if_splits run_phase.splits option.splits)

lemma within_run:
  "group_run es g = Some h \<Longrightarrow> list_all (configures_within L Q) es \<Longrightarrow> within L Q g \<Longrightarrow> within L Q h"
  by (induction es arbitrary: g) (auto simp: bind_eq_Some_conv intro: within_apply)

subsection \<open>Draining after a shutdown\<close>

fun task_event :: "group_event \<Rightarrow> bool" where
  "task_event (Ev_Wait i) \<longleftrightarrow> True"
| "task_event (Ev_Wake i) \<longleftrightarrow> True"
| "task_event (Ev_Finish i) \<longleftrightarrow> True"
| "task_event e \<longleftrightarrow> False"

fun phase_rank :: "run_phase \<Rightarrow> int" where
  "phase_rank (Blocked k) = 3"
| "phase_rank Queued = 2"
| "phase_rank (Executing a) = 1"
| "phase_rank Ended = 0"

definition group_rank :: "group \<Rightarrow> int" where
  "group_rank g = (\<Sum>t \<leftarrow> tg_runs g. phase_rank (tr_phase t))"

lemma phase_rank_nonneg: "0 \<le> phase_rank p"
  by (cases p) simp_all

lemma group_rank_nonneg: "0 \<le> group_rank g"
  by (auto simp: group_rank_def intro!: sum_list_nonneg phase_rank_nonneg)

lemma group_rank_le: "group_rank g \<le> 3 * runs_in (\<lambda>p. p \<noteq> Ended) g"
proof -
  have "phase_rank p \<le> 3 * (if p \<noteq> Ended then 1 else 0)" for p by (cases p) simp_all
  then have "group_rank g \<le> (\<Sum>t \<leftarrow> tg_runs g. 3 * (if tr_phase t \<noteq> Ended then 1 else 0))"
    unfolding group_rank_def by (rule sum_list_map_le)
  then show ?thesis by (simp add: runs_in_def sum_list_const_mult)
qed

lemma group_rank_set_phase:
  "i < length (tg_runs g) \<Longrightarrow> tg_runs h = tg_runs (set_phase i p g) \<Longrightarrow>
   group_rank h = group_rank g - phase_rank (tr_phase (tg_runs g ! i)) + phase_rank p"
  by (simp add: group_rank_def sum_list_map_update)

lemma task_step_stopped:
  assumes "group_apply e g = Some h" "task_event e" "tg_stopped g" "tg_ctx_done g"
  shows "tg_stopped h" "tg_ctx_done h" "group_rank h = group_rank g - 1"
proof -
  have "tg_stopped h \<and> tg_ctx_done h \<and> group_rank h = group_rank g - 1"
  proof (cases e)
    case (Ev_Wait i)
    then have i: "i < length (tg_runs g)" "tr_phase (tg_runs g ! i) = Queued"
      and h: "h = set_phase i (Executing False) (g\<lparr>tg_waiting := tg_waiting g - 1\<rparr>)"
      using assms by (auto simp: group_wait_def task_done_def split: if_splits)
    show ?thesis using assms group_rank_set_phase [OF i(1), of h "Executing False"] i(2) by (simp add: h)
  next
    case (Ev_Wake i)
    then obtain k where i: "i < length (tg_runs g)" "tr_phase (tg_runs g ! i) = Blocked k"
      and h: "h = set_phase i Queued g"
      using assms by (auto simp: group_wake_def split: if_splits run_phase.splits)
    show ?thesis using assms group_rank_set_phase [OF i(1), of h Queued] i(2) by (simp add: h)
  next
    case (Ev_Finish i)
    then have "group_finish i g = Some h" using assms by simp
    then show ?thesis
    proof (rule group_finishD)
      fix a
      assume i: "i < length (tg_runs g)" "tr_phase (tg_runs g ! i) = Executing a"
        and r: "tg_runs h = tg_runs (set_phase i Ended g)" "tg_stopped h = tg_stopped g" "tg_ctx_done h = tg_ctx_done g"
      show ?thesis using assms group_rank_set_phase [OF i(1) r(1)] i(2) r by simp
    qed
  qed (use assms in auto)
  then show "tg_stopped h" "tg_ctx_done h" "group_rank h = group_rank g - 1" by blast+
qed

lemma task_run_stopped:
  "group_run es g = Some h \<Longrightarrow> list_all task_event es \<Longrightarrow> tg_stopped g \<Longrightarrow> tg_ctx_done g \<Longrightarrow>
   tg_stopped h \<and> tg_ctx_done h \<and> int (length es) = group_rank g - group_rank h"
proof (induction es arbitrary: g)
  case Nil
  then show ?case by simp
next
  case (Cons e es)
  then obtain k where k: "group_apply e g = Some k" "group_run es k = Some h"
    by (auto simp: bind_eq_Some_conv)
  note S = task_step_stopped [OF k(1)]
  show ?case using Cons.IH [OF k(2)] Cons.prems S by simp
qed

lemma stuck_is_drained:
  assumes inv: "group_inv g" and stop: "tg_stopped g" "tg_ctx_done g"
    and stuck: "\<And>e. task_event e \<Longrightarrow> group_apply e g = None"
  shows "tg_active g = 0 \<and> tg_done g = 1"
proof -
  have "tr_phase (tg_runs g ! i) = Ended" if i: "i < length (tg_runs g)" for i
    using stuck [of "Ev_Wait i"] stuck [of "Ev_Wake i"] stuck [of "Ev_Finish i"] i stop
    by (cases "tr_phase (tg_runs g ! i)")
       (auto simp: group_wait_def group_wake_def group_finish_def task_done_def Let_def split: if_splits)
  then have "runs_in (\<lambda>p. p \<noteq> Ended) g = 0"
    unfolding runs_in_def by (auto simp: in_set_conv_nth intro!: sum_list_map_zero)
  then show ?thesis using group_inv_parts(1,4) [OF inv] stop by (simp add: counted_def closed_once_def)
qed

subsection \<open>Properties\<close>

text \<open>C9: whatever the interleaving of admissions, waits, wake-ups, finishes, cancellations and
  reconfigurations of a group, its counters are exact (\<open>active\<close>, \<open>waiting\<close> and \<open>running\<close> count the tasks in
  those phases), the id table holds exactly the live tasks with an id, no two of them with the same id,
  and \<open>done\<close> is closed exactly once, at the moment the group is stopped and its last task is gone: never
  twice, which would panic.\<close>

theorem task_group_accounting:
  assumes "0 \<le> limit" and "group_run es (new_group_with limit queue) = Some g"
  shows "tg_active g = runs_in (\<lambda>p. p \<noteq> Ended) g \<and>
     tg_waiting g = runs_in is_waiting g \<and>
     tg_running g = runs_in (\<lambda>p. p = Executing True) g \<and>
     (\<forall>task_id i. tg_tasks g task_id = Some i \<longleftrightarrow> live_id g task_id i) \<and>
     tg_done g = (if tg_stopped g \<and> tg_active g = 0 then 1 else 0)"
  using group_run_inv [OF assms(2) new_group_inv [OF assms(1)]]
  by (simp add: group_inv_def counted_def registered_def closed_once_def)

definition demo_events :: "group_event list" where
  "demo_events = [Ev_Go_Task ''sync'', Ev_Go_Task ''probe'', Ev_Go_Task ''sync'', Ev_Wait 1,
     Ev_Cancel, Ev_Finish 0, Ev_Wake 1]"

definition demo_group :: group where
  "demo_group = the (group_run demo_events (new_queued 1 1))"

lemma demo_runs: "group_run demo_events (new_group_with 1 1) = Some demo_group"
proof -
  have "is_set (group_run demo_events (new_group_with 1 1))" by code_simp
  then show ?thesis by (simp add: demo_group_def new_queued_def is_set_the)
qed

theorem task_group_accounting_witness:
  "tg_active demo_group = runs_in (\<lambda>p. p \<noteq> Ended) demo_group \<and>
     tg_done demo_group = (if tg_stopped demo_group \<and> tg_active demo_group = 0 then 1 else 0) \<and>
     map tr_phase (tg_runs demo_group) = [Ended, Queued]"
proof -
  have "map tr_phase (tg_runs demo_group) = [Ended, Queued]" by code_simp
  then show ?thesis using task_group_accounting [OF _ demo_runs] by simp
qed

text \<open>A task runs without a slot only because it was cancelled while it waited.\<close>

definition slotless_cancelled :: "group \<Rightarrow> bool" where
  "slotless_cancelled g \<longleftrightarrow> (\<forall>t \<in> set (tg_runs g). tr_phase t = Executing False \<longrightarrow> task_done g t)"

lemma slotless_moved:
  assumes "slotless_cancelled g" "tg_runs h = (tg_runs g)[i := t]" "tg_ctx_done g \<longrightarrow> tg_ctx_done h"
    and "tr_phase t = Executing False \<longrightarrow> task_done h t"
  shows "slotless_cancelled h"
  using assms set_update_subset_insert [of "tg_runs g" i t] by (fastforce simp: slotless_cancelled_def task_done_def)

lemma slotless_start: "group_start task_id r g = Inr h \<Longrightarrow> slotless_cancelled g \<Longrightarrow> slotless_cancelled h"
  by (erule group_start_cases) (auto simp: slotless_cancelled_def enrolled_def task_done_def)

lemma slotless_accept:
  "accept g r = Some h \<Longrightarrow> slotless_cancelled g \<Longrightarrow> (\<And>k. r = Inr k \<Longrightarrow> slotless_cancelled k) \<Longrightarrow> slotless_cancelled h"
  by (auto simp: accept_def split: sum.splits)

lemma slotless_wait: "group_wait i g = Some h \<Longrightarrow> slotless_cancelled g \<Longrightarrow> slotless_cancelled h"
  by (auto simp: group_wait_def set_phase_def task_done_def split: if_splits elim!: slotless_moved)

lemma slotless_wake: "group_wake i g = Some h \<Longrightarrow> slotless_cancelled g \<Longrightarrow> slotless_cancelled h"
  by (auto simp: group_wake_def set_phase_def split: if_splits run_phase.splits elim!: slotless_moved)

lemma slotless_finish: "group_finish i g = Some h \<Longrightarrow> slotless_cancelled g \<Longrightarrow> slotless_cancelled h"
  by (auto simp: group_finish_def set_phase_def notify_locked_def close_done_def Let_def
      split: if_splits run_phase.splits elim!: slotless_moved)

lemma slotless_cancel_task: "slotless_cancelled g \<Longrightarrow> slotless_cancelled (snd (group_cancel_task task_id g))"
  by (auto simp: group_cancel_task_def task_done_def split: option.splits elim!: slotless_moved)

lemma slotless_apply: "group_apply e g = Some h \<Longrightarrow> slotless_cancelled g \<Longrightarrow> slotless_cancelled h"
proof (cases e)
  case (Ev_Configure l q)
  assume "group_apply e g = Some h" "slotless_cancelled g"
  then show ?thesis
    using Ev_Configure by (auto simp: group_configure_def notify_locked_def slotless_cancelled_def task_done_def split: if_splits)
next
  case Ev_Cancel
  assume "group_apply e g = Some h" "slotless_cancelled g"
  then show ?thesis using Ev_Cancel by (fastforce simp: group_cancel_def close_done_def Let_def slotless_cancelled_def task_done_def split: if_splits)
next
  case Ev_Parent_Done
  assume "group_apply e g = Some h" "slotless_cancelled g"
  then show ?thesis using Ev_Parent_Done by (auto simp: slotless_cancelled_def task_done_def)
qed (auto elim!: slotless_accept simp: group_go_def group_go_task_def Let_def
     intro: slotless_start slotless_wait slotless_wake slotless_finish slotless_cancel_task split: if_splits)

lemma slotless_run: "group_run es g = Some h \<Longrightarrow> slotless_cancelled g \<Longrightarrow> slotless_cancelled h"
  by (induction es arbitrary: g) (auto simp: bind_eq_Some_conv intro: slotless_apply)

text \<open>C10: a bounded group gives at most as many slots at once as the largest limit it was ever configured
  with, never queues more callers than its largest queue capacity, and runs a task outside a slot only
  if the task or the whole group was cancelled while it waited: such a task still runs, with a done
  context, to finalise its state.\<close>

theorem task_group_bounded:
  assumes "group_run es (new_queued limit queue) = Some g"
    and "limit \<le> L" and "1 \<le> L" and "queue \<le> Q" and "0 \<le> Q"
    and "list_all (configures_within L Q) es"
  shows "runs_in (\<lambda>p. p = Executing True) g \<le> L \<and> runs_in is_waiting g \<le> Q \<and>
    (\<forall>t \<in> set (tg_runs g). tr_phase t = Executing False \<longrightarrow> task_done g t)"
proof -
  have "within L Q (new_queued limit queue)"
    using assms by (simp add: within_def new_queued_def new_group_with_def)
  then have "within L Q g" using within_run assms by blast
  moreover have "counted g"
    by (rule group_inv_parts(1), rule group_run_inv [OF assms(1)]) (simp add: new_queued_def new_group_inv)
  moreover have "slotless_cancelled g"
    by (rule slotless_run [OF assms(1)]) (simp add: slotless_cancelled_def new_queued_def new_group_with_def)
  ultimately show ?thesis by (simp add: within_def counted_def slotless_cancelled_def)
qed

theorem task_group_bounded_witness:
  "runs_in (\<lambda>p. p = Executing True) demo_group \<le> 1 \<and> runs_in is_waiting demo_group \<le> 1 \<and>
     group_run demo_events (new_queued 1 1) = Some demo_group"
proof -
  have "list_all (configures_within 1 1) demo_events" by (simp add: demo_events_def)
  moreover have "group_run demo_events (new_queued 1 1) = Some demo_group"
    using demo_runs by (simp add: new_queued_def)
  ultimately show ?thesis using task_group_bounded [of demo_events 1 1 demo_group 1 1] by simp
qed

text \<open>C11: no wake-up is lost. In any reachable state, a queued task that is not cancelled while a slot
  is free gets that slot by its own next steps: if it is blocked, the channel it waits on has already
  been closed.\<close>

theorem task_group_no_lost_wakeup:
  assumes "0 \<le> limit" and "group_run es (new_group_with limit queue) = Some g"
    and "i < length (tg_runs g)" and "is_waiting (tr_phase (tg_runs g ! i))"
    and "\<not> task_done g (tg_runs g ! i)" and "tg_limit g = 0 \<or> tg_running g < tg_limit g"
  shows "\<exists>es' h. es' \<in> {[Ev_Wait i], [Ev_Wake i, Ev_Wait i]} \<and> group_run es' g = Some h \<and>
     tr_phase (tg_runs h ! i) = Executing True"
proof (cases "tr_phase (tg_runs g ! i)")
  case Queued
  then show ?thesis
    using assms by (intro exI [of _ "[Ev_Wait i]"]) (simp add: group_wait_def)
next
  case (Blocked k)
  have "no_lost_wakeup g"
    by (rule group_inv_parts(3), rule group_run_inv [OF assms(2) new_group_inv [OF assms(1)]])
  then have "k \<noteq> tg_changed g"
    using Blocked assms(3,6) nth_mem unfolding no_lost_wakeup_def by fastforce
  then show ?thesis
    using assms Blocked
    by (intro exI [of _ "[Ev_Wake i, Ev_Wait i]"]) (simp add: group_wait_def group_wake_def task_done_def)
qed (use assms in simp_all)

definition handover_events :: "group_event list" where
  "handover_events = [Ev_Go_Task ''sync'', Ev_Go_Task ''probe'', Ev_Wait 1, Ev_Finish 0]"

definition handover_group :: group where
  "handover_group = the (group_run handover_events (new_group_with 1 1))"

lemma handover_run: "group_run handover_events (new_group_with 1 1) = Some handover_group"
proof -
  have "is_set (group_run handover_events (new_group_with 1 1))" by code_simp
  then show ?thesis by (simp add: handover_group_def is_set_the)
qed

lemma handover_facts:
  "tg_runs handover_group ! 1 = \<lparr>tr_id = ''probe'', tr_phase = Blocked 0, tr_cancelled = False\<rparr>"
  "1 < length (tg_runs handover_group)" "tg_ctx_done handover_group = False"
  "tg_running handover_group < tg_limit handover_group"
  by code_simp+

theorem task_group_no_lost_wakeup_witness:
  "tr_phase (tg_runs handover_group ! 1) = Blocked 0 \<and>
   (\<exists>es' h. es' \<in> {[Ev_Wait 1], [Ev_Wake 1, Ev_Wait 1]} \<and> group_run es' handover_group = Some h \<and>
     tr_phase (tg_runs h ! 1) = Executing True)"
  using task_group_no_lost_wakeup [OF _ handover_run handover_facts(2)] handover_facts
  by (simp add: task_done_def)

text \<open>C12: a stopped group drains. After \<open>Cancel\<close> the tasks can take at most three more steps each, and
  when they can take none, \<open>done\<close> is closed and \<open>Shutdown\<close> answers nil whatever its caller's context says;
  a task offered after the stop is refused with \<open>ErrStopped\<close>.\<close>

theorem task_group_drains:
  assumes "0 \<le> limit" and "group_run es (new_group_with limit queue) = Some g"
    and "group_run es' (group_cancel g) = Some h" and "list_all task_event es'"
  shows "int (length es') \<le> 3 * tg_active g \<and>
     group_start task_id False h = Inl Err_Stopped \<and>
     ((\<forall>e. task_event e \<longrightarrow> group_apply e h = None) \<longrightarrow>
        tg_active h = 0 \<and> shutdown_answer ctx_err h = Some None)"
proof -
  have inv: "group_inv g" by (rule group_run_inv [OF assms(2) new_group_inv [OF assms(1)]])
  have stop: "tg_stopped (group_cancel g)" "tg_ctx_done (group_cancel g)"
    using group_inv_parts(4) [OF inv] by (auto simp: group_cancel_def Let_def close_done_def closed_once_def)
  have "tg_runs (group_cancel g) = tg_runs g" by (simp add: group_cancel_def Let_def close_done_def)
  then have rank: "group_rank (group_cancel g) = group_rank g" by (simp add: group_rank_def)
  have run: "tg_stopped h" "tg_ctx_done h" "int (length es') = group_rank g - group_rank h"
    using task_run_stopped [OF assms(3,4) stop] by (simp_all add: rank)
  have "int (length es') \<le> 3 * tg_active g"
    using run(3) group_rank_nonneg [of h] group_rank_le [of g] group_inv_parts(1) [OF inv]
    by (simp add: counted_def)
  moreover have "group_start task_id False h = Inl Err_Stopped" using run by (simp add: group_start_def)
  moreover have "tg_active h = 0 \<and> shutdown_answer ctx_err h = Some None"
    if "\<forall>e. task_event e \<longrightarrow> group_apply e h = None"
    using stuck_is_drained [OF group_run_inv [OF assms(3) group_cancel_inv [OF inv]] run(1,2)] that
    by (simp add: shutdown_answer_def)
  ultimately show ?thesis by blast
qed

definition drained_group :: group where
  "drained_group = the (group_run [Ev_Wake 1, Ev_Wait 1, Ev_Finish 1] (group_cancel handover_group))"

lemma drained_run:
  "group_run [Ev_Wake 1, Ev_Wait 1, Ev_Finish 1] (group_cancel handover_group) = Some drained_group"
proof -
  have "is_set (group_run [Ev_Wake 1, Ev_Wait 1, Ev_Finish 1] (group_cancel handover_group))" by code_simp
  then show ?thesis by (simp add: drained_group_def is_set_the)
qed

theorem task_group_drains_witness:
  "int (length [Ev_Wake 1, Ev_Wait 1, Ev_Finish 1]) \<le> 3 * tg_active handover_group \<and>
   group_start ''late'' False drained_group = Inl Err_Stopped"
  using task_group_drains [OF _ handover_run drained_run, where task_id = "''late''" and ctx_err = "None :: unit option"]
  by simp

end
