(* ===== verification/Float64.thy ===== *)
theory Float64
  imports Complex_Main Prelude
begin

text \<open>
  The \<open>float64\<close> arithmetic the scores and quotas of the code are computed with.

  A finite \<open>float64\<close> is the rational number it denotes. \<open>fl\<close> rounds a rational to the nearest
  representable one, ties to the even mantissa, with 53 bits and gradual underflow at
  \<open>2\<^sup>-\<^sup>1\<^sup>0\<^sup>7\<^sup>4\<close>; every operation is the exact one followed by \<open>fl\<close>, as IEEE 754 prescribes and Go
  guarantees for an expression whose roundings are explicit. Overflow to an infinity and NaN are not
  modelled: the values come from decoded JSON, which has neither, and stay far below \<open>2\<^sup>1\<^sup>0\<^sup>2\<^sup>4\<close>.
\<close>

subsection \<open>Powers of two and the binary exponent\<close>

function ilog2 :: "int \<Rightarrow> int" where
  "ilog2 n = (if n < 2 then 0 else 1 + ilog2 (n div 2))"
  by pat_completeness auto
termination by (relation "measure nat") auto

declare ilog2.simps [simp del]

definition pow2 :: "int \<Rightarrow> rat" where
  "pow2 n = (if 0 \<le> n then of_int (2 ^ nat n) else 1 / of_int (2 ^ nat (- n)))"

lemma pow2_powi: "pow2 n = 2 powi n"
  unfolding pow2_def power_int_def by (simp add: power_one_over inverse_eq_divide)

lemma pow2_pos [simp]: "0 < pow2 n" "pow2 n \<noteq> 0" "0 \<le> pow2 n" "\<not> pow2 n < 0"
  by (simp_all add: pow2_powi zero_less_power_int zero_le_power_int not_less)

lemma pow2_add: "pow2 (a + b) = pow2 a * pow2 b"
  by (simp add: pow2_powi power_int_add)

lemma pow2_diff: "pow2 (a - b) = pow2 a / pow2 b"
  by (simp add: pow2_powi power_int_diff)

lemma pow2_0 [simp]: "pow2 0 = 1" and pow2_1 [simp]: "pow2 1 = 2"
  by (simp_all add: pow2_def)

lemma pow2_int: "0 \<le> n \<Longrightarrow> pow2 n = of_int (2 ^ nat n)"
  by (simp add: pow2_def)

lemma pow2_strict: "a < b \<Longrightarrow> pow2 a < pow2 b"
proof -
  assume "a < b"
  then have "1 < pow2 (b - a)" by (simp add: pow2_int one_less_power)
  then have "pow2 a * 1 < pow2 a * pow2 (b - a)" by (intro mult_strict_left_mono) auto
  then show ?thesis by (simp add: pow2_add [symmetric])
qed

lemma pow2_less_iff [simp]: "pow2 a < pow2 b \<longleftrightarrow> a < b"
  using pow2_strict [of a b] pow2_strict [of b a] by (cases a b rule: linorder_cases) auto

lemma pow2_le_iff [simp]: "pow2 a \<le> pow2 b \<longleftrightarrow> a \<le> b"
  using pow2_less_iff [of b a] by linarith

lemma ilog2_bounds: "1 \<le> n \<Longrightarrow> 0 \<le> ilog2 n \<and> pow2 (ilog2 n) \<le> of_int n \<and> of_int n < pow2 (ilog2 n + 1)"
proof (induction n rule: ilog2.induct)
  case (1 n)
  show ?case
  proof (cases "n < 2")
    case True
    then show ?thesis using 1 by (simp add: ilog2.simps)
  next
    case False
    then have IH: "0 \<le> ilog2 (n div 2)" "pow2 (ilog2 (n div 2)) \<le> of_int (n div 2)"
      "of_int (n div 2) < pow2 (ilog2 (n div 2) + 1)"
      using 1 by simp_all
    let ?k = "nat (ilog2 (n div 2))"
    have lo: "2 ^ ?k \<le> n div 2" and hi: "n div 2 < 2 ^ Suc ?k"
      using IH by (simp_all add: pow2_int nat_add_distrib del: of_int_power of_int_mult)
    then have "2 ^ Suc ?k \<le> n" "n < 2 ^ Suc (Suc ?k)" by auto
    then have "(of_int (2 ^ Suc ?k) :: rat) \<le> of_int n" "(of_int n :: rat) < of_int (2 ^ Suc (Suc ?k))"
      by (simp_all only: of_int_le_iff of_int_less_iff)
    moreover have "ilog2 n = 1 + ilog2 (n div 2)" using False by (subst ilog2.simps) simp
    moreover have "nat (1 + ilog2 (n div 2)) = Suc ?k" "nat (1 + ilog2 (n div 2) + 1) = Suc (Suc ?k)"
      using IH(1) by auto
    ultimately show ?thesis using IH(1) by (simp add: pow2_int del: of_int_power of_int_mult power_Suc)
  qed
qed

definition flog2 :: "rat \<Rightarrow> int" where
  "flog2 x = (let (n, d) = quotient_of x; k = ilog2 n - ilog2 d in if pow2 k \<le> x then k else k - 1)"

lemma flog2_bounds:
  assumes "0 < x"
  shows "pow2 (flog2 x) \<le> x" "x < pow2 (flog2 x + 1)"
proof -
  obtain n d where q: "quotient_of x = (n, d)" by (metis surj_pair)
  have d: "0 < d" using quotient_of_denom_pos [OF q] .
  have x: "x = of_int n / of_int d" using quotient_of_div [OF q] .
  have n: "1 \<le> n" using assms d by (simp add: x zero_less_divide_iff)
  note N = ilog2_bounds [OF n] and D = ilog2_bounds [of d]
  have "x < pow2 (ilog2 n + 1) / pow2 (ilog2 d)"
    unfolding x using N D d n by (intro frac_less) auto
  then have up: "x < pow2 (ilog2 n - ilog2 d + 1)" by (simp add: pow2_diff [symmetric] algebra_simps)
  have "pow2 (ilog2 n) / pow2 (ilog2 d + 1) < x"
    unfolding x using N D d n by (intro frac_less2) auto
  then have lo: "pow2 (ilog2 n - ilog2 d - 1) < x" by (simp add: pow2_diff [symmetric] algebra_simps)
  show "pow2 (flog2 x) \<le> x" "x < pow2 (flog2 x + 1)"
    using up lo by (auto simp: flog2_def q Let_def)
qed

lemma flog2_mono: "0 < x \<Longrightarrow> x \<le> y \<Longrightarrow> flog2 x \<le> flog2 y"
  using flog2_bounds(1) [of x] flog2_bounds(2) [of y] pow2_less_iff [of "flog2 x" "flog2 y + 1"] by linarith


subsection \<open>Rounding\<close>

definition round_even :: "rat \<Rightarrow> int" where
  "round_even q =
     (let f = \<lfloor>q\<rfloor>; r = q - of_int f in
      if r < 1 / 2 then f else if r > 1 / 2 then f + 1 else if even f then f else f + 1)"

lemma round_even_of_int [simp]: "round_even (of_int n) = n"
  by (simp add: round_even_def)

lemma round_even_bounds: "\<lfloor>q\<rfloor> \<le> round_even q" "round_even q \<le> \<lfloor>q\<rfloor> + 1"
  by (simp_all add: round_even_def Let_def)

lemma round_even_mono:
  assumes "p \<le> q"
  shows "round_even p \<le> round_even q"
proof (cases "\<lfloor>p\<rfloor> = \<lfloor>q\<rfloor>")
  case True
  then show ?thesis using assms by (auto simp: round_even_def Let_def)
next
  case False
  then have "\<lfloor>p\<rfloor> + 1 \<le> \<lfloor>q\<rfloor>" using floor_mono [OF assms] by linarith
  then show ?thesis using round_even_bounds [of p] round_even_bounds [of q] by linarith
qed

definition quantum :: "rat \<Rightarrow> rat" where
  "quantum x = pow2 (max (flog2 x) (- 1022) - 52)"

definition fl_pos :: "rat \<Rightarrow> rat" where
  "fl_pos x = of_int (round_even (x / quantum x)) * quantum x"

definition fl :: "rat \<Rightarrow> rat" where
  "fl x = (if x = 0 then 0 else if x < 0 then - fl_pos (- x) else fl_pos x)"

lemma quantum_pos [simp]: "0 < quantum x" "quantum x \<noteq> 0" "0 \<le> quantum x"
  by (simp_all add: quantum_def)

lemma quantum_div_mono: "x \<le> y \<Longrightarrow> x / quantum z \<le> y / quantum z"
  by (rule divide_right_mono) simp_all

lemma fl_pos_nonneg: "0 < x \<Longrightarrow> 0 \<le> fl_pos x"
  using round_even_mono [of 0 "x / quantum x"] round_even_of_int [of 0] by (simp add: fl_pos_def)

lemma fl_pos_below:
  assumes "0 < x" "flog2 x < k" "- 1022 < k"
  shows "fl_pos x \<le> pow2 k"
proof -
  let ?e = "max (flog2 x) (- 1022)"
  have k: "0 \<le> k - (?e - 52)" using assms by linarith
  have "x < pow2 (?e + 1)" using flog2_bounds(2) [OF assms(1)] pow2_le_iff [of "flog2 x + 1" "?e + 1"] by linarith
  also have "\<dots> \<le> pow2 k" using assms by simp
  finally have "x / quantum x \<le> pow2 k / quantum x" by (intro quantum_div_mono) simp
  also have "\<dots> = pow2 (k - (?e - 52))" unfolding quantum_def by (subst pow2_diff [symmetric]) simp
  finally have "round_even (x / quantum x) \<le> 2 ^ nat (k - (?e - 52))"
    using round_even_mono k by (fastforce simp add: pow2_int simp del: of_int_power)
  then have "of_int (round_even (x / quantum x)) \<le> pow2 (k - (?e - 52))"
    using k by (simp add: pow2_int del: of_int_power)
  then have "fl_pos x \<le> pow2 (k - (?e - 52)) * quantum x"
    by (simp add: fl_pos_def mult_right_mono)
  then show ?thesis unfolding quantum_def by (subst (asm) pow2_add [symmetric]) simp
qed

lemma fl_pos_above:
  assumes "0 < x" "k \<le> flog2 x" "- 1022 \<le> k"
  shows "pow2 k \<le> fl_pos x"
proof -
  let ?e = "max (flog2 x) (- 1022)"
  have e: "?e = flog2 x" using assms by linarith
  have "pow2 52 = pow2 (flog2 x) / quantum x" unfolding quantum_def e by (subst pow2_diff [symmetric]) simp
  also have "\<dots> \<le> x / quantum x" using flog2_bounds(1) [OF assms(1)] by (rule quantum_div_mono)
  finally have "(of_int (2 ^ 52) :: rat) \<le> x / quantum x" by (simp add: pow2_int)
  then have "2 ^ 52 \<le> round_even (x / quantum x)"
    using round_even_mono round_even_of_int by metis
  then have "(of_int (2 ^ 52) :: rat) \<le> of_int (round_even (x / quantum x))" by (simp only: of_int_le_iff)
  then have "pow2 52 * quantum x \<le> fl_pos x"
    unfolding fl_pos_def by (intro mult_right_mono) (simp_all add: pow2_int)
  moreover have "pow2 52 * quantum x = pow2 (flog2 x)"
    unfolding quantum_def e by (subst pow2_add [symmetric]) simp
  moreover have "pow2 k \<le> pow2 (flog2 x)" using assms by simp
  ultimately show ?thesis by linarith
qed

lemma fl_pos_mono:
  assumes "0 < x" "x \<le> y"
  shows "fl_pos x \<le> fl_pos y"
proof -
  have y: "0 < y" using assms by linarith
  have le: "flog2 x \<le> flog2 y" by (rule flog2_mono [OF assms])
  show ?thesis
  proof (cases "max (flog2 x) (- 1022) = max (flog2 y) (- 1022)")
    case True
    then have "quantum x = quantum y" by (simp add: quantum_def)
    then show ?thesis
      using assms by (simp add: fl_pos_def mult_right_mono round_even_mono quantum_div_mono)
  next
    case False
    then have "flog2 x < flog2 y" "- 1022 < flog2 y" using le by linarith+
    then show ?thesis using fl_pos_below [OF assms(1), of "flog2 y"] fl_pos_above [OF y, of "flog2 y"] by linarith
  qed
qed

lemma fl_0 [simp]: "fl 0 = 0" by (simp add: fl_def)

lemma fl_minus: "fl (- x) = - fl x" by (simp add: fl_def)

lemma fl_nonneg: "0 \<le> x \<Longrightarrow> 0 \<le> fl x"
  using fl_pos_nonneg [of x] by (simp add: fl_def)

lemma fl_mono: "x \<le> y \<Longrightarrow> fl x \<le> fl y"
  using fl_pos_mono [of x y] fl_pos_mono [of "- y" "- x"] fl_pos_nonneg [of y] fl_pos_nonneg [of "- x"]
  by (auto simp: fl_def)

text \<open>What is representable is kept: an integral mantissa of at most 53 bits, at any exponent in range.\<close>

lemma fl_pos_exact: "x = of_int n * quantum x \<Longrightarrow> fl_pos x = x"
  using quantum_pos(2) [of x] round_even_of_int [of n]
  by (metis fl_pos_def nonzero_mult_div_cancel_right)

lemma fl_pos_grid:
  assumes "0 < n" "n < 2 ^ 53" "- 1074 \<le> k"
  shows "fl_pos (of_int n * pow2 k) = of_int n * pow2 k"
proof -
  let ?x = "of_int n * pow2 k"
  have x: "0 < ?x" using assms(1) by simp
  have "(of_int n :: rat) < of_int (2 ^ 53)" using assms(2) by (simp only: of_int_less_iff)
  then have "?x < pow2 53 * pow2 k" by (simp add: pow2_int)
  then have "?x < pow2 (53 + k)" by (simp add: pow2_add)
  then have "flog2 ?x \<le> 52 + k"
    using flog2_bounds(1) [OF x] pow2_less_iff [of "flog2 ?x" "53 + k"] by linarith
  then have d: "0 \<le> k - (max (flog2 ?x) (- 1022) - 52)" using assms(3) by linarith
  have "pow2 k = pow2 (k - (max (flog2 ?x) (- 1022) - 52)) * quantum ?x"
    unfolding quantum_def by (subst pow2_add [symmetric]) simp
  then have "?x = of_int (n * 2 ^ nat (k - (max (flog2 ?x) (- 1022) - 52))) * quantum ?x"
    using d by (simp add: pow2_int)
  then show ?thesis by (rule fl_pos_exact)
qed

lemma fl_grid:
  assumes "\<bar>n\<bar> \<le> 2 ^ 53" "- 1074 \<le> k"
  shows "fl (of_int n * pow2 k) = of_int n * pow2 k"
proof -
  have pos: "fl (of_int m * pow2 k) = of_int m * pow2 k" if m: "0 < m" "m \<le> 2 ^ 53" for m
  proof (cases "m = 2 ^ 53")
    case False
    then show ?thesis using m assms(2) fl_pos_grid [of m k] by (simp add: fl_def mult_less_0_iff)
  next
    case True
    have "of_int m * pow2 k = of_int (2 ^ 52) * pow2 (k + 1)" by (simp add: True pow2_add)
    then show ?thesis using assms(2) fl_pos_grid [of "2 ^ 52" "k + 1"] by (simp add: fl_def mult_less_0_iff)
  qed
  consider "n = 0" | "0 < n" | "n < 0" by linarith
  then show ?thesis
  proof cases
    case 3
    then show ?thesis using pos [of "- n"] assms(1) fl_minus [of "of_int n * pow2 k"] by simp
  qed (use pos assms(1) in auto)
qed

lemma fl_of_int: "\<bar>n\<bar> \<le> 2 ^ 53 \<Longrightarrow> fl (of_int n) = of_int n"
  using fl_grid [of n 0] by simp

lemma fl_numeral [simp]: "numeral n \<le> (2 ^ 53 :: int) \<Longrightarrow> fl (numeral n) = numeral n"
  using fl_of_int [of "numeral n"] by simp

lemma fl_1 [simp]: "fl 1 = 1"
  using fl_of_int [of 1] by simp

lemma fl_le_int: "x \<le> of_int n \<Longrightarrow> \<bar>n\<bar> \<le> 2 ^ 53 \<Longrightarrow> fl x \<le> of_int n"
  using fl_mono [of x "of_int n"] by (simp add: fl_of_int)

lemma fl_ge_int: "of_int n \<le> x \<Longrightarrow> \<bar>n\<bar> \<le> 2 ^ 53 \<Longrightarrow> of_int n \<le> fl x"
  using fl_mono [of "of_int n" x] by (simp add: fl_of_int)

subsection \<open>The operations of the code\<close>

definition fadd :: "rat \<Rightarrow> rat \<Rightarrow> rat" where "fadd x y = fl (x + y)"
definition fsub :: "rat \<Rightarrow> rat \<Rightarrow> rat" where "fsub x y = fl (x - y)"
definition fmul :: "rat \<Rightarrow> rat \<Rightarrow> rat" where "fmul x y = fl (x * y)"
definition fdiv :: "rat \<Rightarrow> rat \<Rightarrow> rat" where "fdiv x y = fl (x / y)"

text \<open>\<open>math.Round\<close> (half away from zero) and \<open>math.Trunc\<close>, as the integers they return.\<close>

definition math_round :: "rat \<Rightarrow> int" where
  "math_round x = (if 0 \<le> x then \<lfloor>x + 1 / 2\<rfloor> else - \<lfloor>1 / 2 - x\<rfloor>)"

definition math_trunc :: "rat \<Rightarrow> int" where
  "math_trunc x = (if 0 \<le> x then \<lfloor>x\<rfloor> else \<lceil>x\<rceil>)"

lemma math_round_of_int [simp]: "math_round (of_int n) = n"
proof -
  have "\<lfloor>(of_int n :: rat) + 1 / 2\<rfloor> = n" "\<lfloor>1 / 2 - (of_int n :: rat)\<rfloor> = - n" by linarith+
  then show ?thesis by (simp add: math_round_def)
qed

lemma math_round_mono: "x \<le> y \<Longrightarrow> math_round x \<le> math_round y"
  unfolding math_round_def by (auto intro!: floor_mono) linarith+

end
