(* ===== verification/Go_Values.thy ===== *)
theory Go_Values
  imports Float64
begin

text \<open>
  Decoded JSON as the code holds it (\<open>any\<close>, \<open>map[string]any\<close>) and the conversions of strconv the
  code applies to it. An \<open>int\<close> and an \<open>int64\<close> are both \<open>GInt\<close>, since no function of the model tells
  them apart; a \<open>float64\<close> is finite (JSON has no infinity and no NaN); a map is an association list,
  and a nil map, which reads like an empty one, is the empty list.
\<close>

datatype goval =
    GNil
  | GBool bool
  | GInt int
  | GFloat rat
  | GNumber string
  | GString string
  | GList "goval list"
  | GMap "(string \<times> goval) list"

type_synonym gomap = "(string \<times> goval) list"

subsection \<open>Decimal integers: strconv.Atoi, strconv.ParseInt (base 10, 64 bits)\<close>

definition digit_value :: "char \<Rightarrow> int option" where
  "digit_value c = (let n = (of_char c :: int) in if 48 \<le> n \<and> n \<le> 57 then Some (n - 48) else None)"

fun digits_value :: "int \<Rightarrow> string \<Rightarrow> int option" where
  "digits_value acc [] = Some acc"
| "digits_value acc (c # s) =
     (case digit_value c of None \<Rightarrow> None | Some d \<Rightarrow> digits_value (acc * 10 + d) s)"

definition split_sign :: "string \<Rightarrow> int \<times> string" where
  "split_sign s = (case s of
      [] \<Rightarrow> (1, [])
    | c # r \<Rightarrow> if c = CHR ''-'' then (- 1, r) else if c = CHR ''+'' then (1, r) else (1, s))"

definition parse_int64 :: "string \<Rightarrow> int option" where
  "parse_int64 s =
     (let (sgn, ds) = split_sign s in
      if ds = [] then None
      else (case digits_value 0 ds of
          None \<Rightarrow> None
        | Some n \<Rightarrow> if in_int64 (sgn * n) then Some (sgn * n) else None))"

subsection \<open>Decimal fractions: strconv.ParseFloat\<close>

text \<open>
  The decimal syntax: an optional sign, digits with at most one point and at least one digit, an
  optional exponent. The other spellings ParseFloat knows (hexadecimal, underscores, inf, nan) are
  refused here; the code rejects the last two itself, and neither JSON numbers nor the metrics the
  console stores are written in the others.
\<close>

fun span_digits :: "string \<Rightarrow> string \<times> string" where
  "span_digits [] = ([], [])"
| "span_digits (c # s) =
     (if digit_value c = None then ([], c # s) else (let (ds, r) = span_digits s in (c # ds, r)))"

definition number_of_digits :: "string \<Rightarrow> int" where
  "number_of_digits ds = (case digits_value 0 ds of Some n \<Rightarrow> n | None \<Rightarrow> 0)"

definition pow10 :: "int \<Rightarrow> rat" where
  "pow10 n = (if 0 \<le> n then of_int (10 ^ nat n) else 1 / of_int (10 ^ nat (- n)))"

definition parse_exponent :: "string \<Rightarrow> int option" where
  "parse_exponent s = (case s of
      [] \<Rightarrow> Some 0
    | c # r \<Rightarrow>
        if c = CHR ''e'' \<or> c = CHR ''E'' then
          (let (sgn, ds) = split_sign r in
           if ds = [] then None else map_option ((*) sgn) (digits_value 0 ds))
        else None)"

definition parse_decimal :: "string \<Rightarrow> rat option" where
  "parse_decimal s =
     (let (sgn, body) = split_sign s;
          (whole, rest) = span_digits body;
          (fraction, tail) = (case rest of
              [] \<Rightarrow> ([], [])
            | c # r \<Rightarrow> if c = CHR ''.'' then span_digits r else ([], rest))
      in if whole = [] \<and> fraction = [] then None
         else map_option
           (\<lambda>e. of_int (sgn * number_of_digits (whole @ fraction)) * pow10 (e - int (length fraction)))
           (parse_exponent tail))"

text \<open>A value that rounds to \<open>2\<^sup>1\<^sup>0\<^sup>2\<^sup>4\<close> or beyond is the range error of ParseFloat.\<close>

definition parse_float :: "string \<Rightarrow> rat option" where
  "parse_float s =
     (case parse_decimal s of
        None \<Rightarrow> None
      | Some x \<Rightarrow> if pow2 1024 \<le> \<bar>fl x\<bar> then None else Some (fl x))"

subsection \<open>Strict conversions (routing/scoring.go)\<close>

text \<open>\<open>int(value)\<close> of an integral \<open>float64\<close> beyond int64 is what amd64 gives, the smallest int64.\<close>

definition int_of_float :: "rat \<Rightarrow> int" where
  "int_of_float x = (if in_int64 (math_trunc x) then math_trunc x else min_int64)"

fun strict_integer :: "goval \<Rightarrow> int option" where
  "strict_integer (GInt n) = Some n"
| "strict_integer (GNumber s) = parse_int64 s"
| "strict_integer (GFloat x) = (if x \<noteq> of_int (math_trunc x) then None else Some (int_of_float x))"
| "strict_integer _ = None"

fun strict_number :: "goval \<Rightarrow> rat option" where
  "strict_number (GInt n) = Some (fl (of_int n))"
| "strict_number (GFloat x) = Some x"
| "strict_number (GNumber s) = parse_float s"
| "strict_number _ = None"

lemma digit_value_range: "digit_value c = Some d \<Longrightarrow> 0 \<le> d \<and> d \<le> 9"
  by (auto simp: digit_value_def Let_def split: if_splits)

lemma digits_value_nonneg: "digits_value acc s = Some n \<Longrightarrow> 0 \<le> acc \<Longrightarrow> acc \<le> n"
proof (induction acc s rule: digits_value.induct)
  case (2 acc c s)
  then show ?case by (auto split: option.splits dest!: digit_value_range)
qed simp

lemma parse_int64_range: "parse_int64 s = Some n \<Longrightarrow> in_int64 n"
  by (auto simp: parse_int64_def split: prod.splits if_splits option.splits)

lemma parse_float_examples:
  "parse_float ''-12.50e-1'' = Some (- 5 / 4)"
  "parse_float ''0.1'' = Some (3602879701896397 / 36028797018963968)"
  "parse_float ''.e1'' = None"
  by code_simp+

end
