(* ===== verification/Scoring.thy ===== *)
theory Scoring
  imports Go_Values
begin

text \<open>
  The health scores of routing/scoring.go: parsing the scoring policy, classifying a probe or traffic
  sample, and folding the samples of an account into its scores, streaks and latency percentiles;
  with the empty-usage test of usagequality/usage.go and the capacity test of upstreamerror/capacity.go.
\<close>

subsection \<open>Samples, classifications, health\<close>

datatype event =
    Event_Healthy
  | Event_Slow
  | Event_Empty_Response
  | Event_Unknown
  | Event_Gateway
  | Event_Rate_Limited
  | Event_Probe_Failed
  | Event_Credential_Bad
  | Event_Client_Error

record sample =
  sm_result :: string
  sm_failure_reason :: string
  sm_source :: string
  sm_latency_p95 :: "string option"
  sm_status_code :: "int option"
  sm_payload :: gomap

record classified =
  cl_score :: rat
  cl_event :: event
  cl_fatal :: bool
  cl_failure :: bool
  cl_gateway :: bool
  cl_rate_limited :: bool
  cl_neutral :: bool

record health =
  h_short_score :: rat
  h_long_score :: rat
  h_health_score :: rat
  h_sample_count :: nat
  h_neutral_count :: nat
  h_latest_event :: event
  h_fatal :: bool
  h_failure_streak :: nat
  h_recovery_pass_streak :: nat
  h_p50_ms :: "rat option"
  h_p95_ms :: "rat option"
  h_events :: "event list"
  h_gateway_failures :: nat
  h_rate_limited :: nat

record scoring_config =
  sc_short_window :: nat
  sc_long_window :: nat
  sc_latest_weight :: rat
  sc_short_ratio :: rat
  sc_slow_ttfb_ms :: int
  sc_event_scores :: "event \<Rightarrow> rat"
  sc_fatal_patterns :: "string list"
  sc_quota_patterns :: "string list"
  sc_gateway_codes :: "int list"
  sc_client_codes :: "int list"

definition empty_health :: health where
  "empty_health =
     \<lparr>h_short_score = 0, h_long_score = 0, h_health_score = 0, h_sample_count = 0, h_neutral_count = 0,
      h_latest_event = Event_Unknown, h_fatal = False, h_failure_streak = 0, h_recovery_pass_streak = 0,
      h_p50_ms = None, h_p95_ms = None, h_events = [], h_gateway_failures = 0, h_rate_limited = 0\<rparr>"

definition classified_as :: "rat \<Rightarrow> event \<Rightarrow> classified" where
  "classified_as s e =
     \<lparr>cl_score = s, cl_event = e, cl_fatal = False, cl_failure = False, cl_gateway = False,
      cl_rate_limited = False, cl_neutral = False\<rparr>"

subsection \<open>Patterns\<close>

definition default_fatal_patterns :: "string list" where
  "default_fatal_patterns =
     [''invalid api key'', ''unauthorized'', ''forbidden'', ''authentication'', ''account not found'',
      ''no api key'', ''no access token'', ''insufficient'', ''balance'', ''quota exceeded'',
      ''usage limit'', ''credit'', ''expired'']"

definition default_quota_patterns :: "string list" where
  "default_quota_patterns =
     [''usage limit'', ''usage_limit'', ''quota'', ''rate limit'', ''rate_limit'',
      ''insufficient'', ''balance'', ''credit'', ''billing'', ''too many requests'',
      ''exceeded your current'', ''resource_exhausted'', ''resource exhausted'']"

definition auth_failure_patterns :: "string list" where
  "auth_failure_patterns =
     [''invalid api key'', ''invalid_api_key'', ''invalid key'', ''invalid token'', ''unauthorized'',
      ''authentication'', ''authentication_error'', ''forbidden'', ''permission denied'', ''access denied'',
      ''account not found'', ''no api key'', ''no access token'', ''revoked'', ''disabled key'', ''key not found'']"

definition decisive_auth_failure_patterns :: "string list" where
  "decisive_auth_failure_patterns =
     [''invalid api key'', ''invalid_api_key'', ''invalid key'', ''invalid token'', ''unauthorized'',
      ''authentication'', ''authentication_error'', ''account not found'', ''no api key'', ''no access token'',
      ''revoked'', ''disabled key'', ''key not found'']"

definition access_denied_patterns :: "string list" where
  "access_denied_patterns = [''forbidden'', ''permission denied'', ''access denied'']"

fun contains_pattern :: "string \<Rightarrow> string list \<Rightarrow> bool" where
  "contains_pattern text [] \<longleftrightarrow> False"
| "contains_pattern text (p # ps) \<longleftrightarrow> (if str_contains text p then True else contains_pattern text ps)"

definition normalize_reason :: "string \<Rightarrow> string" where
  "normalize_reason value =
     replace_char (CHR ''-'') (CHR '' '') (replace_char (CHR ''_'') (CHR '' '') (to_lower (trim_space value)))"

definition looks_like_network_failure :: "string \<Rightarrow> bool" where
  "looks_like_network_failure value = contains_pattern value
     [''timeout'', ''deadline exceeded'', ''connection refused'', ''connection reset'',
      ''no such host'', ''eof'', ''broken pipe'', ''network is unreachable'', ''tls'', ''dial tcp'', ''canceled'']"

text \<open>\<open>strings.ReplaceAll(strings.ToLower(strings.TrimSpace(s)), "_", "-")\<close>, written out at each use.\<close>

definition normalized_source :: "string \<Rightarrow> string" where
  "normalized_source s = replace_char (CHR ''_'') (CHR ''-'') (to_lower (trim_space s))"

definition traffic_source :: "string \<Rightarrow> bool" where
  "traffic_source s \<longleftrightarrow> normalized_source s = ''traffic'' \<or> normalized_source s = ''logs''"

definition traffic_client_error :: "string \<Rightarrow> int \<Rightarrow> int list \<Rightarrow> bool" where
  "traffic_client_error source status allowed =
     (if \<not> traffic_source source then False else status \<in> set allowed)"

subsection \<open>Upstream saturation (upstreamerror/capacity.go)\<close>

text \<open>\<open>strings.Fields\<close> joined by single spaces: runs of white space collapse, the ends are trimmed.\<close>

fun fields_from :: "string \<Rightarrow> nat \<Rightarrow> string \<Rightarrow> string list" where
  "fields_from word 0 s = (if word = [] then [] else [rev word])"
| "fields_from word (Suc n) s =
     (case strip_any space_runes s of
        Some r \<Rightarrow> (if word = [] then fields_from [] n r else rev word # fields_from [] n r)
      | None \<Rightarrow> (case s of [] \<Rightarrow> (if word = [] then [] else [rev word]) | c # r \<Rightarrow> fields_from (c # word) n r))"

definition str_fields :: "string \<Rightarrow> string list" where
  "str_fields s = fields_from [] (Suc (length s)) s"

fun join_space :: "string list \<Rightarrow> string" where
  "join_space [] = []"
| "join_space [w] = w"
| "join_space (w # ws) = w @ CHR '' '' # join_space ws"

definition capacity_text :: "string \<Rightarrow> bool" where
  "capacity_text message =
     (let message = replace_char (CHR ''-'') (CHR '' '') (replace_char (CHR ''_'') (CHR '' '') message);
          text = to_lower (join_space (str_fields message))
      in contains_pattern text [''overloaded'', ''service is busy'', ''server is busy'', ''model is at capacity''])"

text \<open>
  \<open>capacityErrorValue\<close>: the depth bound of the code is the fuel, seventeen levels from the top.
  A key that is absent reads as nil.
\<close>

definition gofield :: "gomap \<Rightarrow> string \<Rightarrow> goval" where
  "gofield m k = (case map_of m k of None \<Rightarrow> GNil | Some v \<Rightarrow> v)"

fun capacity_error_value :: "nat \<Rightarrow> goval \<Rightarrow> bool" where
  "capacity_error_value 0 v = False"
| "capacity_error_value (Suc n) v =
     (case v of
        GString s \<Rightarrow> capacity_text s
      | GMap m \<Rightarrow> list_ex (\<lambda>k. capacity_error_value n (gofield m k))
          [''message'', ''code'', ''type'', ''error'', ''response'']
      | _ \<Rightarrow> False)"

text \<open>
  \<open>IsCapacity\<close>. The argument \<open>json\<close> is encoding/json: the value of a text that is exactly one JSON
  value (with numbers kept as text), none otherwise.
\<close>

definition is_capacity :: "(string \<Rightarrow> goval option) \<Rightarrow> string \<Rightarrow> bool" where
  "is_capacity json message =
     (let trimmed = trim_space message in
      if trimmed \<noteq> [] \<and> hd trimmed \<in> {CHR ''{'', CHR ''['', CHR 0x22}
      then (case json trimmed of
              Some v \<Rightarrow> capacity_error_value 17 v
            | None \<Rightarrow> capacity_text message)
      else capacity_text message)"

subsection \<open>Token usage (usagequality/usage.go)\<close>

definition counter_text :: "string \<Rightarrow> int option" where
  "counter_text text = (case parse_int64 text of Some n \<Rightarrow> if 0 \<le> n then Some n else None | None \<Rightarrow> None)"

fun counter :: "goval \<Rightarrow> int option" where
  "counter (GInt n) = (if 0 \<le> n then Some n else None)"
| "counter (GFloat x) =
     (if x < 0 \<or> x \<ge> pow2 63 \<or> of_int (math_trunc x) \<noteq> x then None else Some (math_trunc x))"
| "counter (GNumber s) = counter_text s"
| "counter (GString s) = counter_text (trim_space s)"
| "counter _ = None"

fun normalize_usage_keys :: "string list \<Rightarrow> gomap \<Rightarrow> (string \<times> int) list option" where
  "normalize_usage_keys [] raw = Some []"
| "normalize_usage_keys (key # keys) raw =
     (if map_of raw key = None \<and> key \<noteq> ''input_tokens'' \<and> key \<noteq> ''output_tokens''
      then normalize_usage_keys keys raw
      else (case counter (gofield raw key) of
              None \<Rightarrow> None
            | Some n \<Rightarrow> map_option ((#) (key, n)) (normalize_usage_keys keys raw)))"

definition normalize_usage :: "gomap \<Rightarrow> (string \<times> int) list option" where
  "normalize_usage raw = normalize_usage_keys
     [''input_tokens'', ''output_tokens'', ''cache_read_tokens'', ''cache_creation_tokens'', ''image_count''] raw"

definition empty_usage :: "gomap \<Rightarrow> bool" where
  "empty_usage raw =
     (case normalize_usage raw of None \<Rightarrow> False | Some counts \<Rightarrow> list_all (\<lambda>kn. snd kn = 0) counts)"

definition empty_response_sample :: "sample \<Rightarrow> bool" where
  "empty_response_sample sample =
     (if \<not> traffic_source (sm_source sample) then False
      else empty_usage
        (case map_of (sm_payload sample) ''token_usage'' of
           None \<Rightarrow> sm_payload sample
         | Some (GMap usage) \<Rightarrow> usage
         | Some _ \<Rightarrow> []))"

subsection \<open>Status codes and latencies\<close>

text \<open>The leftmost match of the pattern \<open>\\b([45][0-9]{2})\\b\<close>; \<open>w\<close> tells whether a word character precedes.\<close>

definition word_char :: "char \<Rightarrow> bool" where
  "word_char c =
     (let n = (of_char c :: int) in
      (48 \<le> n \<and> n \<le> 57) \<or> (65 \<le> n \<and> n \<le> 90) \<or> (97 \<le> n \<and> n \<le> 122) \<or> n = 95)"

definition status_here :: "string \<Rightarrow> int option" where
  "status_here s =
     (case s of
        a # b # c # r \<Rightarrow>
          (case (digit_value a, digit_value b, digit_value c) of
             (Some x, Some y, Some z) \<Rightarrow>
               if (x = 4 \<or> x = 5) \<and> (r = [] \<or> \<not> word_char (hd r)) then Some (100 * x + 10 * y + z) else None
           | _ \<Rightarrow> None)
      | _ \<Rightarrow> None)"

fun find_status :: "bool \<Rightarrow> string \<Rightarrow> int option" where
  "find_status w [] = None"
| "find_status w (c # s) =
     (case (if w then None else status_here (c # s)) of
        Some n \<Rightarrow> Some n
      | None \<Rightarrow> find_status (word_char c) s)"

definition sample_status :: "sample \<Rightarrow> string \<Rightarrow> int" where
  "sample_status sample text =
     (case sm_status_code sample of
        Some code \<Rightarrow> code
      | None \<Rightarrow>
          (case map_of (sm_payload sample) ''status_code'' of
             Some raw \<Rightarrow> (case strict_integer raw of Some v \<Rightarrow> v | None \<Rightarrow> 0)
           | None \<Rightarrow> (case find_status False text of Some v \<Rightarrow> v | None \<Rightarrow> 0)))"

text \<open>
  \<open>positiveMilliseconds\<close> prints the value and parses the text: a number is read back as itself, and of
  the other kinds only a string can hold one.
\<close>

definition positive :: "rat option \<Rightarrow> rat option" where
  "positive x = (case x of Some v \<Rightarrow> if v \<le> 0 then None else Some v | None \<Rightarrow> None)"

fun positive_milliseconds :: "goval \<Rightarrow> rat option" where
  "positive_milliseconds (GInt n) = positive (Some (fl (of_int n)))"
| "positive_milliseconds (GFloat x) = positive (Some x)"
| "positive_milliseconds (GNumber s) = positive (parse_float (trim_space s))"
| "positive_milliseconds (GString s) = positive (parse_float (trim_space s))"
| "positive_milliseconds _ = None"

text \<open>\<open>v, ok := m[k].(string)\<close>\<close>

definition string_field :: "gomap \<Rightarrow> string \<Rightarrow> string option" where
  "string_field m k = (case map_of m k of Some (GString s) \<Rightarrow> Some s | _ \<Rightarrow> None)"

definition string_or_empty :: "string option \<Rightarrow> string" where
  "string_or_empty x = (case x of Some s \<Rightarrow> s | None \<Rightarrow> [])"

definition in_milliseconds :: "gomap \<Rightarrow> rat \<Rightarrow> rat option" where
  "in_milliseconds payload v =
     (case map_of payload ''latency_unit'' of
        None \<Rightarrow> Some v
      | Some (GString unit) \<Rightarrow>
          (let unit = to_lower (trim_space unit) in
           if unit \<in> {''ms'', ''millisecond'', ''milliseconds''} then Some v
           else if unit \<in> {''s'', ''second'', ''seconds''} then Some (fmul v 1000)
           else None)
      | Some _ \<Rightarrow> None)"

definition measured_first_token_ms :: "sample \<Rightarrow> rat option" where
  "measured_first_token_ms sample =
     (let payload = sm_payload sample in
      case map_of payload ''first_token_ms'' of
        Some raw \<Rightarrow> positive_milliseconds raw
      | None \<Rightarrow>
          (case sm_latency_p95 sample of
             None \<Rightarrow> None
           | Some text \<Rightarrow>
               if trim_space text = [] then None
               else
                 let field = string_field payload ''latency_metric'';
                     metric = replace_char (CHR ''-'') (CHR ''_'') (to_lower (trim_space (string_or_empty field)));
                     latency_source = string_or_empty (string_field payload ''latency_source'')
                 in if equal_fold (trim_space latency_source) ''operations.duration_ms'' then None
                    else if \<not> is_set field \<or> (metric \<noteq> ''first_token'' \<and> metric \<noteq> ''ttfb'') then None
                    else (case positive (parse_float (trim_space text)) of
                            None \<Rightarrow> None
                          | Some v \<Rightarrow> in_milliseconds payload v)))"

definition latency_ms :: "sample \<Rightarrow> rat option" where
  "latency_ms sample = (if \<not> traffic_source (sm_source sample) then None else measured_first_token_ms sample)"

definition health_latency_ms :: "sample \<Rightarrow> rat option" where
  "health_latency_ms sample =
     (let source = normalized_source (sm_source sample) in
      if source = ''active-probe'' \<or> source = ''probe'' then
        (let latency_source = string_field (sm_payload sample) ''latency_source'' in
         if latency_source \<noteq> Some ''account_test.first_content'' \<and>
            latency_source \<noteq> Some ''upstream_direct.first_content''
         then None else measured_first_token_ms sample)
      else latency_ms sample)"

subsection \<open>Classification\<close>

text \<open>The conditions \<open>classify\<close> computes first, in its order.\<close>

definition sample_text :: "sample \<Rightarrow> string" where
  "sample_text sample =
     trim_space (normalize_reason (sm_result sample) @ '' '' @ normalize_reason (sm_failure_reason sample))"

definition success_result :: "string \<Rightarrow> bool" where
  "success_result result \<longleftrightarrow>
     result = [CHR 0xE9, CHR 0x80, CHR 0x9A, CHR 0xE8, CHR 0xBF, CHR 0x87] \<or>
     result \<in> {''passed'', ''pass'', ''success'', ''succeeded'', ''healthy'', ''ok''}"

definition quota_failure :: "scoring_config \<Rightarrow> bool \<Rightarrow> int \<Rightarrow> string \<Rightarrow> bool" where
  "quota_failure config success status text =
     (let quota_status = (status = 402 \<or> status = 429);
          quota_text = (contains_pattern text (sc_quota_patterns config) \<and>
            \<not> contains_pattern text auth_failure_patterns)
      in \<not> success \<and> (quota_status \<or> quota_text))"

definition decisive_credential :: "int \<Rightarrow> string \<Rightarrow> bool" where
  "decisive_credential status text \<longleftrightarrow> status = 401 \<or> contains_pattern text decisive_auth_failure_patterns"

definition credential_failure :: "scoring_config \<Rightarrow> int \<Rightarrow> string \<Rightarrow> bool" where
  "credential_failure config status text =
     (let credential = (decisive_credential status text \<or> contains_pattern text (sc_fatal_patterns config)) in
      if (status = 403 \<or> contains_pattern text access_denied_patterns) \<and> \<not> decisive_credential status text
      then False else credential)"

definition failed_result :: "string \<Rightarrow> string \<Rightarrow> bool" where
  "failed_result result reason \<longleftrightarrow>
     result \<in> {[CHR 0xE5, CHR 0xA4, CHR 0xB1, CHR 0xE8, CHR 0xB4, CHR 0xA5],
       ''failed'', ''error'', ''timeout'', [CHR 0xE8, CHR 0xB6, CHR 0x85, CHR 0xE6, CHR 0x97, CHR 0xB6],
       ''probe failed'', ''unhealthy''} \<or> reason \<noteq> []"

definition classify :: "(string \<Rightarrow> goval option) \<Rightarrow> scoring_config \<Rightarrow> sample \<Rightarrow> classified" where
  "classify json config sample =
     (let result = normalize_reason (sm_result sample);
          reason = normalize_reason (sm_failure_reason sample);
          text = sample_text sample;
          status = sample_status sample text;
          success = success_result result;
          quota = quota_failure config success status text;
          decisive = decisive_credential status text;
          credential = credential_failure config status text;
          gateway = (status \<in> set (sc_gateway_codes config));
          failed = failed_result result reason;
          as_event = (\<lambda>e. classified_as (sc_event_scores config e) e)
      in if quota then (as_event Event_Rate_Limited)\<lparr>cl_failure := True, cl_rate_limited := True\<rparr>
         else if \<not> success \<and> \<not> decisive \<and>
             (is_capacity json (sm_failure_reason sample) \<or> is_capacity json (sm_result sample))
           then (as_event Event_Gateway)\<lparr>cl_failure := True, cl_gateway := True\<rparr>
         else if traffic_client_error (sm_source sample) status (sc_client_codes config) \<and> \<not> decisive
           then (classified_as 0 Event_Client_Error)\<lparr>cl_neutral := True\<rparr>
         else if credential
           then (as_event Event_Credential_Bad)\<lparr>cl_fatal := True, cl_failure := True\<rparr>
         else if success then
           (if empty_response_sample sample
            then (as_event Event_Empty_Response)\<lparr>cl_failure := True\<rparr>
            else (case health_latency_ms sample of
                    Some latency \<Rightarrow>
                      if latency > fl (of_int (sc_slow_ttfb_ms config)) then as_event Event_Slow
                      else as_event Event_Healthy
                  | None \<Rightarrow> as_event Event_Healthy))
         else if gateway then (as_event Event_Gateway)\<lparr>cl_failure := True, cl_gateway := True\<rparr>
         else if failed then
           (if looks_like_network_failure text
            then (as_event Event_Probe_Failed)\<lparr>cl_failure := True\<rparr>
            else (as_event Event_Unknown)\<lparr>cl_failure := True\<rparr>)
         else (as_event Event_Unknown)\<lparr>cl_failure := True\<rparr>)"

subsection \<open>Folding the samples of an account\<close>

definition round4 :: "rat \<Rightarrow> rat" where
  "round4 v = fdiv (of_int (math_round (fmul v 10000))) 10000"

definition clamp :: "rat \<Rightarrow> rat \<Rightarrow> rat \<Rightarrow> rat" where
  "clamp v low high = max low (min high v)"

text \<open>\<open>math.Pow(0.5, float64(i))\<close>, exact until it underflows.\<close>

definition pow_half :: "nat \<Rightarrow> rat" where
  "pow_half i = fl (pow2 (- int i))"

definition decay_sum :: "nat \<Rightarrow> rat" where
  "decay_sum n = fold (\<lambda>i acc. fadd acc (pow_half i)) [0..<n - 1] 0"

definition short_value :: "rat \<Rightarrow> classified list \<Rightarrow> rat" where
  "short_value latest_weight short =
     (if length short \<le> 1 then cl_score (hd short)
      else fold
        (\<lambda>i acc. fadd acc (fmul (cl_score (short ! i))
           (fdiv (fmul (fsub 1 latest_weight) (pow_half (i - 1))) (decay_sum (length short)))))
        [1..<length short] (fmul (cl_score (hd short)) latest_weight))"

definition long_value :: "classified list \<Rightarrow> rat" where
  "long_value items =
     fdiv (fold (\<lambda>item acc. fadd acc (cl_score item)) items 0) (of_nat (length items))"

fun failure_streak :: "classified list \<Rightarrow> nat" where
  "failure_streak [] = 0"
| "failure_streak (item # items) =
     (if cl_neutral item \<or> \<not> cl_failure item then 0 else Suc (failure_streak items))"

fun recovery_streak :: "classified list \<Rightarrow> nat" where
  "recovery_streak [] = 0"
| "recovery_streak (item # items) =
     (if cl_neutral item \<or> cl_failure item then 0 else Suc (recovery_streak items))"

text \<open>\<open>latencies[max(0, int(math.Ceil(p*float64(len(latencies))))-1)]\<close> of the sorted latencies.\<close>

definition percentile_index :: "rat \<Rightarrow> nat \<Rightarrow> nat" where
  "percentile_index p n = nat (max 0 (\<lceil>fmul p (of_nat n)\<rceil> - 1))"

definition percentile :: "rat \<Rightarrow> rat list \<Rightarrow> rat option" where
  "percentile p latencies =
     (if latencies = [] then None else Some (sort latencies ! percentile_index p (length latencies)))"

fun collect_latencies :: "(classified \<times> sample) list \<Rightarrow> rat list" where
  "collect_latencies [] = []"
| "collect_latencies ((item, sample) # rest) =
     (if cl_failure item then collect_latencies rest
      else (case latency_ms sample of
              Some l \<Rightarrow> l # collect_latencies rest
            | None \<Rightarrow> collect_latencies rest))"

definition health_of :: "scoring_config \<Rightarrow> sample list \<Rightarrow> classified list \<Rightarrow> health" where
  "health_of config samples all_classified =
     (let effective = filter (\<lambda>cs. \<not> cl_neutral (fst cs)) (zip all_classified samples);
          classified = map fst effective in
      if classified = [] then
        empty_health\<lparr>h_neutral_count := length samples, h_latest_event := cl_event (hd all_classified)\<rparr>
      else
        let short = take (min (length classified) (sc_short_window config)) classified;
            short_v = short_value (sc_latest_weight config) short;
            long_count = min (length classified) (sc_long_window config);
            long_items = take long_count classified;
            long_v = long_value long_items;
            final = clamp (fadd (fmul short_v (sc_short_ratio config))
                                (fmul long_v (fsub 1 (sc_short_ratio config)))) 0 100;
            final = (if cl_fatal (hd classified) then cl_score (hd classified) else final);
            latencies = collect_latencies (take long_count effective)
        in \<lparr>h_short_score = round4 short_v, h_long_score = round4 long_v, h_health_score = round4 final,
            h_sample_count = length classified, h_neutral_count = length samples - length classified,
            h_latest_event = cl_event (hd classified), h_fatal = cl_fatal (hd classified),
            h_failure_streak = failure_streak all_classified,
            h_recovery_pass_streak = recovery_streak all_classified,
            h_p50_ms = map_option round4 (percentile (fl (1 / 2)) latencies),
            h_p95_ms = map_option round4 (percentile (fl (95 / 100)) latencies),
            h_events = map cl_event long_items,
            h_gateway_failures = length (filter cl_gateway (take 5 long_items)),
            h_rate_limited = length (filter cl_rate_limited (take 5 long_items))\<rparr>)"

definition health_score_with :: "(string \<Rightarrow> goval option) \<Rightarrow> scoring_config \<Rightarrow> sample list \<Rightarrow> health" where
  "health_score_with json config samples =
     (let samples = (if length samples > sc_long_window config then take (sc_long_window config) samples
                     else samples) in
      if samples = [] then empty_health
      else health_of config samples (map (classify json config) samples))"

subsection \<open>The scoring policy\<close>

datatype policy_error =
    Must_Be_Object string
  | Deprecated_Field string
  | Invalid_Field string
  | Window_Order
  | Score_Out_Of_Range string
  | Must_Be_List string
  | Blank_List_Item string
  | Codes_Must_Be_List
  | Bad_Status_Code

definition optional_object :: "gomap \<Rightarrow> string \<Rightarrow> policy_error + gomap" where
  "optional_object source key =
     (case map_of source key of
        None \<Rightarrow> Inr []
      | Some (GMap m) \<Rightarrow> Inr m
      | Some _ \<Rightarrow> Inl (Must_Be_Object key))"

definition integer_field :: "gomap \<Rightarrow> string \<Rightarrow> int \<Rightarrow> int \<Rightarrow> int \<Rightarrow> policy_error + int" where
  "integer_field source key fallback minimum maximum =
     (case map_of source key of
        None \<Rightarrow> Inr fallback
      | Some raw \<Rightarrow>
          (case strict_integer raw of
             None \<Rightarrow> Inl (Invalid_Field key)
           | Some v \<Rightarrow> if v < minimum \<or> v > maximum then Inl (Invalid_Field key) else Inr v))"

definition number_field :: "gomap \<Rightarrow> string \<Rightarrow> rat \<Rightarrow> rat \<Rightarrow> rat \<Rightarrow> policy_error + rat" where
  "number_field source key fallback minimum maximum =
     (case map_of source key of
        None \<Rightarrow> Inr fallback
      | Some raw \<Rightarrow>
          (case strict_number raw of
             None \<Rightarrow> Inl (Invalid_Field key)
           | Some v \<Rightarrow> if v < minimum \<or> v > maximum then Inl (Invalid_Field key) else Inr v))"

fun string_items :: "string \<Rightarrow> goval list \<Rightarrow> policy_error + string list" where
  "string_items field [] = Inr []"
| "string_items field (item # items) =
     (case item of
        GString v \<Rightarrow>
          if trim_space v = [] then Inl (Blank_List_Item field)
          else map_sum id ((#) (to_lower (trim_space v))) (string_items field items)
      | _ \<Rightarrow> Inl (Blank_List_Item field))"

definition string_list :: "goval \<Rightarrow> string \<Rightarrow> policy_error + string list" where
  "string_list raw field = (case raw of GList items \<Rightarrow> string_items field items | _ \<Rightarrow> Inl (Must_Be_List field))"

fun code_items :: "goval list \<Rightarrow> policy_error + int list" where
  "code_items [] = Inr []"
| "code_items (item # items) =
     (case strict_integer item of
        None \<Rightarrow> Inl Bad_Status_Code
      | Some v \<Rightarrow>
          if v < 100 \<or> v > 599 then Inl Bad_Status_Code else map_sum id ((#) v) (code_items items))"

definition status_codes :: "goval \<Rightarrow> policy_error + int list" where
  "status_codes raw = (case raw of GList items \<Rightarrow> code_items items | _ \<Rightarrow> Inl Codes_Must_Be_List)"

fun default_event_score :: "event \<Rightarrow> rat" where
  "default_event_score Event_Healthy = 100"
| "default_event_score Event_Slow = 65"
| "default_event_score Event_Unknown = 40"
| "default_event_score Event_Gateway = 25"
| "default_event_score Event_Empty_Response = 40"
| "default_event_score Event_Rate_Limited = 15"
| "default_event_score Event_Probe_Failed = 10"
| "default_event_score Event_Credential_Bad = 0"
| "default_event_score Event_Client_Error = 0"

definition event_score_fields :: "(event \<times> string) list" where
  "event_score_fields =
     [(Event_Healthy, ''perfect''), (Event_Slow, ''slow_ttfb''), (Event_Unknown, ''upstream_unknown''),
      (Event_Gateway, ''gateway_error''), (Event_Empty_Response, ''empty_response''),
      (Event_Rate_Limited, ''quota_exhausted''), (Event_Probe_Failed, ''probe_fail''),
      (Event_Credential_Bad, ''fatal'')]"

fun apply_event_scores :: "(event \<times> string) list \<Rightarrow> gomap \<Rightarrow> (event \<Rightarrow> rat) \<Rightarrow> policy_error + (event \<Rightarrow> rat)" where
  "apply_event_scores [] values scores = Inr scores"
| "apply_event_scores ((e, key) # es) values scores =
     (case map_of values key of
        None \<Rightarrow> apply_event_scores es values scores
      | Some v \<Rightarrow>
          (let minimum = (if e = Event_Rate_Limited then 1 else 0) in
           case strict_number v of
             None \<Rightarrow> Inl (Score_Out_Of_Range key)
           | Some parsed \<Rightarrow>
               if parsed < minimum \<or> parsed > 100 then Inl (Score_Out_Of_Range key)
               else apply_event_scores es values (scores(e := parsed))))"

text \<open>
  The code ranges over a Go map, so the order of the fields is unspecified: it is the argument
  \<open>order\<close>, some arrangement of \<open>event_score_fields\<close>.
\<close>

definition configured_event_scores ::
  "(event \<times> string) list \<Rightarrow> gomap \<Rightarrow> policy_error + (event \<Rightarrow> rat)" where
  "configured_event_scores order scoring =
     (case map_of scoring ''event_scores'' of
        None \<Rightarrow> Inr default_event_score
      | Some (GMap values) \<Rightarrow> apply_event_scores order values default_event_score
      | Some _ \<Rightarrow> Inl (Must_Be_Object ''scoring.event_scores''))"

definition optional_field :: "gomap \<Rightarrow> string \<Rightarrow> 'a \<Rightarrow> (goval \<Rightarrow> policy_error + 'a) \<Rightarrow> policy_error + 'a" where
  "optional_field source key fallback parse =
     (case map_of source key of None \<Rightarrow> Inr fallback | Some raw \<Rightarrow> parse raw)"

definition default_gateway_codes :: "int list" where
  "default_gateway_codes = [429, 500, 502, 503, 504]"

definition default_client_codes :: "int list" where
  "default_client_codes = [400, 403, 404, 405, 409, 413, 415, 422]"

text \<open>\<open>math.SmallestNonzeroFloat64\<close>\<close>

definition smallest_float :: rat where
  "smallest_float = pow2 (- 1074)"

definition parse_scoring_config :: "(event \<times> string) list \<Rightarrow> gomap \<Rightarrow> policy_error + scoring_config" where
  "parse_scoring_config order policy =
     sum_bind (optional_object policy ''scoring'') (\<lambda>scoring.
     sum_bind (optional_object policy ''classify'') (\<lambda>section.
     if map_of scoring ''events'' \<noteq> None then Inl (Deprecated_Field ''scoring.events'')
     else if map_of scoring ''error_classification'' \<noteq> None then Inl (Deprecated_Field ''scoring.error_classification'')
     else
     sum_bind (integer_field scoring ''short_window'' 10 1 10000) (\<lambda>short_window.
     sum_bind (integer_field scoring ''long_window'' 60 1 100000) (\<lambda>long_window.
     if long_window < short_window then Inl Window_Order
     else
     sum_bind (number_field scoring ''latest_weight'' (fl (1 / 2)) smallest_float 1) (\<lambda>latest_weight.
     sum_bind (number_field scoring ''short_ratio'' (fl (7 / 10)) smallest_float 1) (\<lambda>short_ratio.
     sum_bind (integer_field scoring ''slow_ttfb_ms'' 5000 1 3600000) (\<lambda>slow_ttfb.
     sum_bind (configured_event_scores order scoring) (\<lambda>event_scores.
     sum_bind (optional_field section ''fatal_patterns'' default_fatal_patterns
        (\<lambda>raw. string_list raw ''classify.fatal_patterns'')) (\<lambda>fatal_patterns.
     sum_bind (optional_field section ''gateway_status_codes'' default_gateway_codes
        (\<lambda>raw. map_sum id (\<lambda>codes. if codes = [] then default_gateway_codes else codes) (status_codes raw)))
        (\<lambda>gateway_codes.
     sum_bind (optional_field section ''client_error_status_codes'' default_client_codes status_codes) (\<lambda>client_codes.
     Inr \<lparr>sc_short_window = nat short_window, sc_long_window = nat long_window,
          sc_latest_weight = latest_weight, sc_short_ratio = short_ratio, sc_slow_ttfb_ms = slow_ttfb,
          sc_event_scores = event_scores, sc_fatal_patterns = fatal_patterns,
          sc_quota_patterns = default_quota_patterns, sc_gateway_codes = gateway_codes,
          sc_client_codes = client_codes\<rparr>)))))))))))"

definition health_score ::
  "(event \<times> string) list \<Rightarrow> (string \<Rightarrow> goval option) \<Rightarrow> sample list \<Rightarrow> gomap \<Rightarrow> policy_error + health" where
  "health_score order json samples policy =
     (case parse_scoring_config order policy of
        Inl e \<Rightarrow> Inl e
      | Inr config \<Rightarrow> Inr (health_score_with json config samples))"

definition classify_sample ::
  "(event \<times> string) list \<Rightarrow> (string \<Rightarrow> goval option) \<Rightarrow> sample \<Rightarrow> gomap \<Rightarrow> policy_error + classified" where
  "classify_sample order json sample policy =
     (case parse_scoring_config order policy of
        Inl e \<Rightarrow> Inl e
      | Inr config \<Rightarrow> Inr (classify json config sample))"

definition new_sample_classifier ::
  "(event \<times> string) list \<Rightarrow> (string \<Rightarrow> goval option) \<Rightarrow> gomap \<Rightarrow> policy_error + (sample \<Rightarrow> classified)" where
  "new_sample_classifier order json policy =
     (case parse_scoring_config order policy of
        Inl e \<Rightarrow> Inl e
      | Inr config \<Rightarrow> Inr (classify json config))"

subsection \<open>What a parsed policy guarantees\<close>

definition config_ok :: "scoring_config \<Rightarrow> bool" where
  "config_ok c \<longleftrightarrow>
     (\<forall>e. 0 \<le> sc_event_scores c e \<and> sc_event_scores c e \<le> 100) \<and>
     1 \<le> sc_short_window c \<and> sc_short_window c \<le> sc_long_window c \<and> sc_long_window c \<le> 100000 \<and>
     0 < sc_latest_weight c \<and> sc_latest_weight c \<le> 1 \<and> 0 < sc_short_ratio c \<and> sc_short_ratio c \<le> 1 \<and>
     sc_quota_patterns c = default_quota_patterns \<and> sc_gateway_codes c \<noteq> []"

lemma integer_field_range:
  "integer_field m k d lo hi = Inr v \<Longrightarrow> lo \<le> d \<Longrightarrow> d \<le> hi \<Longrightarrow> lo \<le> v \<and> v \<le> hi"
  by (auto simp: integer_field_def split: option.splits if_splits)

lemma number_field_range:
  "number_field m k d lo hi = Inr v \<Longrightarrow> lo \<le> d \<Longrightarrow> d \<le> hi \<Longrightarrow> lo \<le> v \<and> v \<le> hi"
  by (auto simp: number_field_def split: option.splits if_splits)

lemma apply_event_scores_range:
  "apply_event_scores es m f = Inr g \<Longrightarrow> \<forall>e. 0 \<le> f e \<and> f e \<le> 100 \<Longrightarrow> 0 \<le> g e \<and> g e \<le> 100"
proof (induction es m f arbitrary: g rule: apply_event_scores.induct)
  case (2 ev key es vals scores)
  show ?case
  proof (cases "map_of vals key")
    case None
    then show ?thesis using 2 by simp
  next
    case (Some v)
    then obtain x where x: "strict_number v = Some x" "(if ev = Event_Rate_Limited then 1 else 0) \<le> x" "x \<le> 100"
      and r: "apply_event_scores es vals (scores(ev := x)) = Inr g"
      using 2(3) by (auto simp: Let_def split: option.splits if_splits)
    have "0 \<le> x" using x(2) by (auto split: if_splits)
    then show ?thesis
      using 2(2) [OF Some refl x(1) _ r] x 2(4) by (auto split: if_splits)
  qed
qed simp

lemma default_event_score_range: "0 \<le> default_event_score e \<and> default_event_score e \<le> 100"
  by (cases e) simp_all

lemma configured_event_scores_range:
  "configured_event_scores es m = Inr g \<Longrightarrow> 0 \<le> g e \<and> g e \<le> 100"
  using default_event_score_range apply_event_scores_range [of es _ default_event_score g e]
  by (auto simp: configured_event_scores_def split: option.splits goval.splits)

lemma smallest_float_pos: "0 < smallest_float"
  by (simp add: smallest_float_def)

lemma smallest_float_le: "smallest_float \<le> pow2 k \<longleftrightarrow> - 1074 \<le> k"
  by (simp add: smallest_float_def)

lemma default_weights: "smallest_float \<le> fl (1 / 2)" "fl (1 / 2) \<le> 1" "smallest_float \<le> fl (7 / 10)" "fl (7 / 10) \<le> 1"
proof -
  have half: "fl (1 / 2) = 1 / 2" by code_simp
  have "fl (7 / 10) = 3152519739159347 / 4503599627370496" by code_simp
  moreover have "smallest_float \<le> 1 / 2" using smallest_float_le [of "- 1"] by (simp add: pow2_def)
  ultimately show "smallest_float \<le> fl (1 / 2)" "fl (1 / 2) \<le> 1" "smallest_float \<le> fl (7 / 10)" "fl (7 / 10) \<le> 1"
    using half by simp_all
qed

lemma parse_scoring_config_ok:
  assumes "parse_scoring_config es policy = Inr c"
  shows "config_ok c"
proof -
  obtain scoring sw lw w r slow f fp gc cc where
    sw: "integer_field scoring ''short_window'' 10 1 10000 = Inr sw" and
    lw: "integer_field scoring ''long_window'' 60 1 100000 = Inr lw" "sw \<le> lw" and
    w: "number_field scoring ''latest_weight'' (fl (1 / 2)) smallest_float 1 = Inr w" and
    r: "number_field scoring ''short_ratio'' (fl (7 / 10)) smallest_float 1 = Inr r" and
    f: "configured_event_scores es scoring = Inr f" and gc: "gc \<noteq> []" and
    c: "c = \<lparr>sc_short_window = nat sw, sc_long_window = nat lw, sc_latest_weight = w, sc_short_ratio = r,
          sc_slow_ttfb_ms = slow, sc_event_scores = f, sc_fatal_patterns = fp,
          sc_quota_patterns = default_quota_patterns, sc_gateway_codes = gc, sc_client_codes = cc\<rparr>"
    using assms unfolding parse_scoring_config_def
    by (auto simp: sum_bind_Inr map_sum_Inr optional_field_def default_gateway_codes_def
        split: if_splits option.splits)
  show ?thesis
    using integer_field_range [OF sw] integer_field_range [OF lw(1)] lw(2) default_weights smallest_float_pos
      number_field_range [OF w] number_field_range [OF r] configured_event_scores_range [OF f] gc
    by (auto simp: config_ok_def c)
qed

subsection \<open>Bounds of the scores\<close>

lemma round4_bounds:
  assumes "0 \<le> x" "x \<le> 100"
  shows "0 \<le> round4 x \<and> round4 x \<le> 100"
proof -
  have "0 \<le> fmul x 10000" "fmul x 10000 \<le> of_int 1000000"
    unfolding fmul_def using assms fl_nonneg fl_le_int [of "x * 10000" 1000000] by simp_all
  then have "0 \<le> math_round (fmul x 10000)" "math_round (fmul x 10000) \<le> 1000000"
    using math_round_mono [of 0 "fmul x 10000"] math_round_mono [of "fmul x 10000" "of_int 1000000"]
      math_round_of_int [of 0] math_round_of_int [of 1000000] by simp_all
  then have "0 \<le> (of_int (math_round (fmul x 10000)) :: rat) / 10000"
    "(of_int (math_round (fmul x 10000)) :: rat) / 10000 \<le> of_int 100" by auto
  then show ?thesis unfolding round4_def fdiv_def using fl_nonneg fl_le_int [of _ 100] by auto
qed

lemma long_sum_bounds:
  assumes "\<And>x. x \<in> set items \<Longrightarrow> 0 \<le> cl_score x \<and> cl_score x \<le> 100" and "length items \<le> 100000"
  shows "0 \<le> fold (\<lambda>item acc. fadd acc (cl_score item)) items 0 \<and>
    fold (\<lambda>item acc. fadd acc (cl_score item)) items 0 \<le> of_int (100 * int (length items))"
  using assms
proof (induction items rule: rev_induct)
  case Nil
  then show ?case by simp
next
  case (snoc x xs)
  let ?s = "fold (\<lambda>item acc. fadd acc (cl_score item)) xs 0"
  have IH: "0 \<le> ?s" "?s \<le> of_int (100 * int (length xs))" and x: "0 \<le> cl_score x" "cl_score x \<le> 100"
    using snoc by auto
  have "fl (?s + cl_score x) \<le> of_int (100 * int (length (xs @ [x])))"
    by (rule fl_le_int) (use IH x snoc.prems(2) in auto)
  then show ?case using IH x by (simp add: fadd_def fl_nonneg)
qed

lemma long_value_bounds:
  assumes "\<And>x. x \<in> set items \<Longrightarrow> 0 \<le> cl_score x \<and> cl_score x \<le> 100" and "length items \<le> 100000"
  shows "0 \<le> long_value items \<and> long_value items \<le> 100"
proof (cases "items = []")
  case True
  then show ?thesis by (simp add: long_value_def fdiv_def)
next
  case False
  then have "fold (\<lambda>item acc. fadd acc (cl_score item)) items 0 / of_nat (length items) \<le> of_int 100"
    using long_sum_bounds [OF assms] by (simp add: pos_divide_le_eq algebra_simps)
  from fl_le_int [OF this] show ?thesis
    using long_sum_bounds [OF assms] by (auto simp: long_value_def fdiv_def intro: fl_nonneg)
qed

lemma clamp_bounds: "0 \<le> clamp x 0 100 \<and> clamp x 0 100 \<le> 100"
  by (simp add: clamp_def)

subsection \<open>Facts on the classification\<close>

lemma classified_as_sel [simp]:
  "cl_score (classified_as x e) = x" "cl_event (classified_as x e) = e" "\<not> cl_fatal (classified_as x e)"
  "\<not> cl_failure (classified_as x e)" "\<not> cl_gateway (classified_as x e)"
  "\<not> cl_rate_limited (classified_as x e)" "\<not> cl_neutral (classified_as x e)"
  by (simp_all add: classified_as_def)

definition flags_of :: "event \<Rightarrow> bool \<times> bool \<times> bool \<times> bool \<times> bool" where
  "flags_of e =
     (e = Event_Credential_Bad, e \<notin> {Event_Healthy, Event_Slow, Event_Client_Error},
      e = Event_Gateway, e = Event_Rate_Limited, e = Event_Client_Error)"

definition flags :: "classified \<Rightarrow> bool \<times> bool \<times> bool \<times> bool \<times> bool" where
  "flags k = (cl_fatal k, cl_failure k, cl_gateway k, cl_rate_limited k, cl_neutral k)"

definition well_classified :: "scoring_config \<Rightarrow> classified \<Rightarrow> bool" where
  "well_classified c k \<longleftrightarrow>
     flags k = flags_of (cl_event k) \<and>
     cl_score k = (if cl_event k = Event_Client_Error then 0 else sc_event_scores c (cl_event k))"

lemma classify_well_classified: "well_classified config (classify json config sample)"
  unfolding well_classified_def classify_def Let_def flags_def flags_of_def
  by (simp split: option.split)

text \<open>C13: the flags and the score of every classification are those of its event: only a credential
  event is fatal, only a client error of real traffic is neutral, everything but healthy, slow and neutral
  samples is a failure, and the score is the configured one.\<close>

theorem classification_consistent:
  "flags (classify json config sample) = flags_of (cl_event (classify json config sample)) \<and>
   cl_score (classify json config sample) =
     (if cl_event (classify json config sample) = Event_Client_Error then 0
      else sc_event_scores config (cl_event (classify json config sample)))"
  using classify_well_classified [of config json sample] by (simp add: well_classified_def)

lemma classify_fatal:
  assumes "cl_fatal (classify json config sample)"
  defines "status \<equiv> sample_status sample (sample_text sample)"
  shows "decisive_credential status (sample_text sample) \<or>
    (contains_pattern (sample_text sample) (sc_fatal_patterns config) \<and> status \<noteq> 403 \<and>
     \<not> contains_pattern (sample_text sample) access_denied_patterns \<and>
     \<not> traffic_client_error (sm_source sample) status (sc_client_codes config))"
proof -
  have "credential_failure config status (sample_text sample) \<and>
      (traffic_client_error (sm_source sample) status (sc_client_codes config) \<longrightarrow>
       decisive_credential status (sample_text sample))"
    using assms(1) unfolding classify_def Let_def status_def [symmetric]
    by (simp split: option.splits if_splits)
  then show ?thesis unfolding credential_failure_def Let_def by (simp split: if_splits) blast
qed

text \<open>C14: an account is condemned (fatal) only on evidence about its credential. A 403, an "access denied"
  or "forbidden" text, or a client error of real traffic is never fatal by itself, whatever patterns the
  policy configures; a 401 or one of the decisive texts is needed then.\<close>

theorem access_denial_not_fatal:
  assumes "\<not> decisive_credential (sample_status sample (sample_text sample)) (sample_text sample)"
    and "sample_status sample (sample_text sample) = 403 \<or>
      contains_pattern (sample_text sample) access_denied_patterns \<or>
      traffic_client_error (sm_source sample) (sample_status sample (sample_text sample)) (sc_client_codes config) \<or>
      \<not> contains_pattern (sample_text sample) (sc_fatal_patterns config)"
  shows "\<not> cl_fatal (classify json config sample) \<and> cl_event (classify json config sample) \<noteq> Event_Credential_Bad"
proof -
  have "\<not> cl_fatal (classify json config sample)"
    using classify_fatal [of json config sample] assms by blast
  moreover have "cl_fatal (classify json config sample) \<longleftrightarrow> cl_event (classify json config sample) = Event_Credential_Bad"
    using classify_well_classified [of config json sample]
    by (simp add: well_classified_def flags_def flags_of_def)
  ultimately show ?thesis by simp
qed

definition forbidden_sample :: sample where
  "forbidden_sample =
     \<lparr>sm_result = ''failed'', sm_failure_reason = ''Forbidden'', sm_source = ''active_probe'',
      sm_latency_p95 = None, sm_status_code = Some 502, sm_payload = []\<rparr>"

definition default_config :: scoring_config where
  "default_config =
     \<lparr>sc_short_window = 10, sc_long_window = 60, sc_latest_weight = 1 / 2, sc_short_ratio = fl (7 / 10),
      sc_slow_ttfb_ms = 5000, sc_event_scores = default_event_score,
      sc_fatal_patterns = default_fatal_patterns, sc_quota_patterns = default_quota_patterns,
      sc_gateway_codes = default_gateway_codes, sc_client_codes = default_client_codes\<rparr>"

lemma forbidden_sample_facts:
  "\<not> decisive_credential (sample_status forbidden_sample (sample_text forbidden_sample)) (sample_text forbidden_sample)"
  "contains_pattern (sample_text forbidden_sample) access_denied_patterns"
  "contains_pattern (sample_text forbidden_sample) (sc_fatal_patterns default_config)"
  by code_simp+

theorem access_denial_not_fatal_witness:
  "contains_pattern (sample_text forbidden_sample) (sc_fatal_patterns default_config) \<and>
   \<not> cl_fatal (classify (\<lambda>_. None) default_config forbidden_sample)"
  using access_denial_not_fatal [of forbidden_sample default_config] forbidden_sample_facts by blast

subsection \<open>Configured patterns that can never match\<close>

definition unseparated :: "string \<Rightarrow> bool" where
  "unseparated p \<longleftrightarrow> CHR ''_'' \<notin> set p \<and> CHR ''-'' \<notin> set p"

lemma strip_any_subset: "strip_any ps s = Some r \<Longrightarrow> set r \<subseteq> set s"
  by (induction ps) (auto split: option.splits dest: strip_prefix_Some)

lemma trim_with_subset: "set (trim_with ps n s) \<subseteq> set s"
  by (induction ps n s rule: trim_with.induct) (auto split: option.splits dest: strip_any_subset)

lemma trim_space_subset: "set (trim_space s) \<subseteq> set s"
  using trim_with_subset [of "map rev space_runes" _ "rev (trim_left s)"] trim_with_subset [of space_runes _ s]
  unfolding trim_space_def trim_right_def trim_left_def by fastforce

lemma normalize_reason_unseparated: "unseparated (normalize_reason s)"
  by (auto simp: unseparated_def normalize_reason_def replace_char_def)

lemma sample_text_unseparated: "unseparated (sample_text s)"
proof -
  have "set (sample_text s) \<subseteq> set (normalize_reason (sm_result s)) \<union> {CHR '' ''} \<union> set (normalize_reason (sm_failure_reason s))"
    unfolding sample_text_def by (rule subset_trans [OF trim_space_subset]) auto
  then show ?thesis
    using normalize_reason_unseparated [of "sm_result s"] normalize_reason_unseparated [of "sm_failure_reason s"]
    by (auto simp: unseparated_def)
qed

lemma contains_pattern_iff: "contains_pattern text ps \<longleftrightarrow> (\<exists>p \<in> set ps. str_contains text p)"
  by (induction ps) auto

lemma contains_pattern_unseparated:
  "unseparated text \<Longrightarrow> contains_pattern text (filter unseparated ps) = contains_pattern text ps"
  unfolding contains_pattern_iff by (fastforce simp: str_contains_iff unseparated_def)

text \<open>C15: a fatal pattern of the policy that contains an underscore or a hyphen never matches, because
  the classified text has both replaced by blanks while the patterns are only trimmed and lowered: removing
  every such pattern from the policy changes no classification.\<close>

theorem separated_patterns_ignored:
  "classify json (config\<lparr>sc_fatal_patterns := filter unseparated (sc_fatal_patterns config)\<rparr>) sample =
   classify json config sample"
proof -
  let ?c = "config\<lparr>sc_fatal_patterns := filter unseparated (sc_fatal_patterns config)\<rparr>"
  have "credential_failure ?c status (sample_text sample) = credential_failure config status (sample_text sample)" for status
    by (simp add: credential_failure_def contains_pattern_unseparated [OF sample_text_unseparated])
  moreover have "quota_failure ?c ok code body = quota_failure config ok code body" for ok code body
    by (simp add: quota_failure_def)
  ultimately show ?thesis unfolding classify_def Let_def by (simp split: option.split)
qed

subsection \<open>Bounds, streaks and percentiles of the health of an account\<close>

lemma classify_score_range:
  assumes "config_ok config"
  shows "0 \<le> cl_score (classify json config sample) \<and> cl_score (classify json config sample) \<le> 100"
  using classify_well_classified [of config json sample] assms by (auto simp: well_classified_def config_ok_def)

lemma streaks_exclusive: "failure_streak items = 0 \<or> recovery_streak items = 0"
  by (cases items) auto

lemma effective_classified:
  "length ks = length ss \<Longrightarrow>
   map fst (filter (\<lambda>cs. \<not> cl_neutral (fst cs)) (zip ks ss)) = filter (\<lambda>k. \<not> cl_neutral k) ks"
  by (induction ks ss rule: list_induct2) auto

lemma fold_fadd_nonneg:
  "(\<And>i. i \<in> set is \<Longrightarrow> 0 \<le> term i) \<Longrightarrow> 0 \<le> acc \<Longrightarrow> 0 \<le> fold (\<lambda>i acc. fadd acc (term i)) is acc"
  by (induction "is" arbitrary: acc) (simp_all add: fadd_def fl_nonneg)

lemma short_value_nonneg:
  assumes "\<And>x. x \<in> set short \<Longrightarrow> 0 \<le> cl_score x" "0 \<le> w" "w \<le> 1" "short \<noteq> []"
  shows "0 \<le> short_value w short"
proof -
  have "0 \<le> decay_sum n" for n
    unfolding decay_sum_def by (rule fold_fadd_nonneg) (simp_all add: pow_half_def fl_nonneg)
  then have "0 \<le> fold (\<lambda>i acc. fadd acc (fmul (cl_score (short ! i))
           (fdiv (fmul (fsub 1 w) (pow_half (i - 1))) (decay_sum (length short)))))
        [1..<length short] (fmul (cl_score (hd short)) w)"
    using assms
    by (intro fold_fadd_nonneg) (auto simp: fmul_def fdiv_def fsub_def pow_half_def intro!: fl_nonneg mult_nonneg_nonneg divide_nonneg_nonneg)
  then show ?thesis using assms by (simp add: short_value_def)
qed

lemma round4_nonneg: "0 \<le> x \<Longrightarrow> 0 \<le> round4 x"
  using math_round_mono [of 0 "fmul x 10000"] math_round_of_int [of 0]
  by (simp add: round4_def fdiv_def fmul_def fl_nonneg)

text \<open>C16: the health score and the long score an account is published with lie between 0 and 100, whatever
  policy was accepted and whatever its samples are, rounding included, and the short score is never
  negative; the samples that count and the neutral ones together are at most the long window of the policy
  (and at most the samples there are); and a failure streak excludes a recovery streak.\<close>

theorem health_score_bounded:
  assumes "health_score order json samples policy = Inr h"
  shows "0 \<le> h_health_score h \<and> h_health_score h \<le> 100 \<and> 0 \<le> h_long_score h \<and> h_long_score h \<le> 100 \<and>
    0 \<le> h_short_score h \<and>
    (\<exists>config. parse_scoring_config order policy = Inr config \<and>
       h_sample_count h + h_neutral_count h \<le> min (length samples) (sc_long_window config)) \<and>
    (h_failure_streak h = 0 \<or> h_recovery_pass_streak h = 0)"
proof -
  obtain c where c: "parse_scoring_config order policy = Inr c" and h: "h = health_score_with json c samples"
    using assms by (auto simp: health_score_def split: sum.splits)
  have ok: "config_ok c" by (rule parse_scoring_config_ok [OF c])
  define ss where "ss = (if length samples > sc_long_window c then take (sc_long_window c) samples else samples)"
  have ss: "length ss \<le> min (length samples) (sc_long_window c)" by (simp add: ss_def)
  show ?thesis
  proof (cases "ss = []")
    case True
    then show ?thesis using c by (simp add: h health_score_with_def empty_health_def flip: ss_def)
  next
    case False
    let ?ks = "map (classify json c) ss"
    let ?eff = "filter (\<lambda>k. \<not> cl_neutral k) ?ks"
    have hh: "h = health_of c ss ?ks" using False by (simp add: h health_score_with_def flip: ss_def)
    have eff: "map fst (filter (\<lambda>cs. \<not> cl_neutral (fst cs)) (zip ?ks ss)) = ?eff"
      by (rule effective_classified) simp
    have len: "length ?eff \<le> length ss" by (metis length_filter_le length_map)
    have range: "x \<in> set ?eff \<Longrightarrow> 0 \<le> cl_score x \<and> cl_score x \<le> 100" for x
      using classify_score_range [OF ok] by auto
    show ?thesis
    proof (cases "?eff = []")
      case True
      then have "filter (\<lambda>cs. \<not> cl_neutral (fst cs)) (zip ?ks ss) = []" using eff by (metis map_is_Nil_conv)
      then show ?thesis using ss c by (simp add: hh health_of_def empty_health_def Let_def)
    next
      case eff_ne: False
      have fatal: "0 \<le> round4 (cl_score (hd ?eff)) \<and> round4 (cl_score (hd ?eff)) \<le> 100"
        using range [OF hd_in_set [OF eff_ne]] round4_bounds by blast
      have long: "0 \<le> long_value (take n ?eff) \<and> long_value (take n ?eff) \<le> 100" if "n \<le> 100000" for n
        by (rule long_value_bounds) (use that range in \<open>auto dest: in_set_takeD\<close>)
      have "sc_long_window c \<le> 100000" using ok by (simp add: config_ok_def)
      then have "0 \<le> round4 (long_value (take (min (length ?eff) (sc_long_window c)) ?eff)) \<and>
          round4 (long_value (take (min (length ?eff) (sc_long_window c)) ?eff)) \<le> 100"
        by (intro round4_bounds conjunct1 [OF long] conjunct2 [OF long]) auto
      moreover have "0 \<le> round4 (clamp x 0 100) \<and> round4 (clamp x 0 100) \<le> 100" for x
        using clamp_bounds round4_bounds by blast
      moreover have "0 \<le> round4 (short_value (sc_latest_weight c) (take (min (length ?eff) (sc_short_window c)) ?eff))"
      proof (rule round4_nonneg, rule short_value_nonneg)
        have "E \<noteq> [] \<Longrightarrow> 1 \<le> k \<Longrightarrow> take (min (length E) k) E \<noteq> []" for E :: "classified list" and k
          by (cases E; cases k) auto
        then show "take (min (length ?eff) (sc_short_window c)) ?eff \<noteq> []" using eff_ne ok unfolding config_ok_def by blast
      qed (use range ok in \<open>auto simp: config_ok_def dest!: in_set_takeD\<close>)
      moreover have "length ?eff + (length ss - length ?eff) \<le> min (length samples) (sc_long_window c)"
        using len ss by simp
      ultimately show ?thesis
        using eff_ne fatal c streaks_exclusive [of ?ks] unfolding hh health_of_def Let_def eff
        by (simp split: if_splits)
    qed
  qed
qed

definition bad_sample :: sample where
  "bad_sample = forbidden_sample\<lparr>sm_result := ''x'', sm_failure_reason := [], sm_status_code := Some 500\<rparr>"

definition two_samples :: "sample list" where
  "two_samples = [bad_sample\<lparr>sm_result := ''ok'', sm_status_code := Some 200\<rparr>, bad_sample]"

theorem health_score_bounded_witness:
  "map_sum id h_health_score (health_score event_score_fields (\<lambda>_. None) two_samples []) = Inr (125 / 2) \<and>
   (case health_score event_score_fields (\<lambda>_. None) two_samples [] of
      Inl e \<Rightarrow> False
    | Inr h \<Rightarrow> 0 \<le> h_health_score h \<and> h_health_score h \<le> 100 \<and> h_sample_count h + h_neutral_count h \<le> 2)"
proof -
  have v: "map_sum id h_health_score (health_score event_score_fields (\<lambda>_. None) two_samples []) = Inr (125 / 2)"
    by code_simp
  then obtain h where h: "health_score event_score_fields (\<lambda>_. None) two_samples [] = Inr h"
    by (auto simp: map_sum_Inr)
  show ?thesis using health_score_bounded [OF h] v unfolding h by (auto simp: two_samples_def)
qed

lemma percentile_index_bounds:
  assumes "0 \<le> p" "p \<le> 1" "0 < n" "n \<le> 2 ^ 53"
  shows "percentile_index p n < n"
proof -
  have "p * of_nat n \<le> of_int (int n)" using assms by (simp add: mult_left_le_one_le)
  then have "fmul p (of_nat n) \<le> of_int (int n)" unfolding fmul_def by (rule fl_le_int) (use assms in auto)
  then have "\<lceil>fmul p (of_nat n)\<rceil> \<le> int n" by (simp add: ceiling_le_iff)
  then show ?thesis using assms(3) by (simp add: percentile_index_def)
qed

lemma percentile_index_mono:
  "p \<le> q \<Longrightarrow> percentile_index p n \<le> percentile_index q n"
  unfolding percentile_index_def fmul_def
  by (intro nat_mono max.mono order_refl diff_right_mono ceiling_mono fl_mono mult_right_mono) simp_all

lemma percentile_mono:
  assumes "percentile p xs = Some a" "percentile q xs = Some b" "0 \<le> p" "p \<le> q" "q \<le> 1" "length xs \<le> 2 ^ 53"
  shows "a \<le> b \<and> a \<in> set xs \<and> b \<in> set xs"
proof -
  have ne: "0 < length xs" and ab: "a = sort xs ! percentile_index p (length xs)" "b = sort xs ! percentile_index q (length xs)"
    using assms by (auto simp: percentile_def split: if_splits)
  have i: "percentile_index p (length xs) < length xs" "percentile_index q (length xs) < length xs"
    using percentile_index_bounds [OF _ _ ne assms(6)] assms by auto
  have "a \<le> b" unfolding ab
    by (rule sorted_nth_mono) (use i percentile_index_mono [OF assms(4)] in auto)
  moreover have "a \<in> set (sort xs)" "b \<in> set (sort xs)" unfolding ab by (rule nth_mem; use i in simp)+
  ultimately show ?thesis by simp
qed

lemma round4_mono: "x \<le> y \<Longrightarrow> round4 x \<le> round4 y"
  unfolding round4_def fdiv_def fmul_def
  by (intro fl_mono divide_right_mono) (auto intro!: math_round_mono fl_mono)

lemma collect_latencies_sound:
  "l \<in> set (collect_latencies zs) \<Longrightarrow> \<exists>z \<in> set zs. \<not> cl_failure (fst z) \<and> latency_ms (snd z) = Some l"
  by (induction zs rule: collect_latencies.induct) (auto split: if_splits option.splits)

lemma length_collect_latencies: "length (collect_latencies zs) \<le> length zs"
  by (induction zs rule: collect_latencies.induct) (auto split: option.splits intro: le_SucI)

lemma health_of_percentiles:
  assumes h: "h = health_of config ss (map f ss)" and w: "sc_long_window config \<le> 100000"
    and p: "h_p50_ms h = Some a \<or> h_p95_ms h = Some b"
  obtains ls where "percentile (fl (1 / 2)) ls \<noteq> None" "percentile (fl (95 / 100)) ls \<noteq> None"
    "h_p50_ms h = map_option round4 (percentile (fl (1 / 2)) ls)"
    "h_p95_ms h = map_option round4 (percentile (fl (95 / 100)) ls)"
    "length ls \<le> 100000"
    "\<And>l. l \<in> set ls \<Longrightarrow> \<exists>s \<in> set ss. \<not> cl_failure (f s) \<and> latency_ms s = Some l"
proof -
  let ?eff = "filter (\<lambda>cs. \<not> cl_neutral (fst cs)) (zip (map f ss) ss)"
  let ?zs = "take (min (length (map fst ?eff)) (sc_long_window config)) ?eff"
  let ?ls = "collect_latencies ?zs"
  have ps: "h_p50_ms h = map_option round4 (percentile (fl (1 / 2)) ?ls)"
    "h_p95_ms h = map_option round4 (percentile (fl (95 / 100)) ?ls)"
    using p by (auto simp: h health_of_def Let_def empty_health_def split: if_splits)
  have len: "length ?ls \<le> 100000"
    using length_collect_latencies [of ?zs] w by auto
  have "\<exists>s \<in> set ss. \<not> cl_failure (f s) \<and> latency_ms s = Some l" if l: "l \<in> set ?ls" for l
  proof -
    obtain z where z: "z \<in> set ?zs" "\<not> cl_failure (fst z)" "latency_ms (snd z) = Some l"
      using collect_latencies_sound [OF l] by blast
    then have "z \<in> set (zip (map f ss) ss)" by (auto dest: in_set_takeD)
    then have "fst z = f (snd z)" "snd z \<in> set ss" by (auto simp: set_zip)
    then show ?thesis using z by auto
  qed
  moreover have "percentile (fl (1 / 2)) ?ls \<noteq> None" "percentile (fl (95 / 100)) ?ls \<noteq> None"
    using p unfolding ps by (auto simp: percentile_def split: if_splits)
  ultimately show ?thesis using that ps len by blast
qed

lemma percentile_ranks: "0 \<le> fl (1 / 2)" "fl (1 / 2) \<le> fl (95 / 100)" "fl (95 / 100) \<le> 1"
  using fl_mono [of "95 / 100" 1] by (auto intro!: fl_nonneg fl_mono)

text \<open>C17: a published median latency never exceeds the published 95th percentile, and each is the
  rounded latency of a sample of real traffic that did not fail; one is published exactly when the other is.\<close>

theorem percentiles_ordered:
  fixes json :: "string \<Rightarrow> goval option" and samples :: "sample list"
  assumes "config_ok config"
  defines "h \<equiv> health_score_with json config samples"
  shows "(h_p50_ms h = None \<longleftrightarrow> h_p95_ms h = None) \<and>
    (\<forall>a b. h_p50_ms h = Some a \<longrightarrow> h_p95_ms h = Some b \<longrightarrow>
       a \<le> b \<and> (\<forall>x \<in> {a, b}. \<exists>s \<in> set samples. \<exists>l. x = round4 l \<and> latency_ms s = Some l \<and>
          \<not> cl_failure (classify json config s)))"
proof -
  define ss where "ss = (if length samples > sc_long_window config then take (sc_long_window config) samples else samples)"
  have sub: "set ss \<subseteq> set samples" by (auto simp: ss_def dest: in_set_takeD)
  have w: "sc_long_window config \<le> 100000" using assms(1) by (simp add: config_ok_def)
  show ?thesis
  proof (cases "(h_p50_ms h = None \<and> h_p95_ms h = None)")
    case True
    then show ?thesis by simp
  next
    case False
    then have "ss \<noteq> []" by (auto simp: h_def health_score_with_def empty_health_def simp flip: ss_def)
    then have h: "h = health_of config ss (map (classify json config) ss)"
      by (simp add: h_def health_score_with_def flip: ss_def)
    obtain a' b' where p: "h_p50_ms h = Some a' \<or> h_p95_ms h = Some b'" using False by auto
    obtain ls where ls: "percentile (fl (1 / 2)) ls \<noteq> None" "percentile (fl (95 / 100)) ls \<noteq> None"
      "h_p50_ms h = map_option round4 (percentile (fl (1 / 2)) ls)"
      "h_p95_ms h = map_option round4 (percentile (fl (95 / 100)) ls)"
      "length ls \<le> 100000"
      "\<And>l. l \<in> set ls \<Longrightarrow> \<exists>s \<in> set ss. \<not> cl_failure (classify json config s) \<and> latency_ms s = Some l"
      by (rule health_of_percentiles [OF h w p]) blast
    obtain x y where xy: "percentile (fl (1 / 2)) ls = Some x" "percentile (fl (95 / 100)) ls = Some y"
      using ls(1,2) by auto
    have "x \<le> y \<and> x \<in> set ls \<and> y \<in> set ls"
      by (rule percentile_mono [OF xy]) (use percentile_ranks ls(5) in auto)
    then have "round4 x \<le> round4 y" "x \<in> set ls" "y \<in> set ls" using round4_mono by auto
    then show ?thesis using ls(3,4,6) xy sub by (simp add: subset_iff) blast
  qed
qed

definition fast_sample :: sample where
  "fast_sample = bad_sample\<lparr>sm_result := ''ok'', sm_status_code := None, sm_source := ''logs'',
     sm_payload := [(''first_token_ms'', GInt 120), (''output_tokens'', GInt 5), (''input_tokens'', GInt 9)]\<rparr>"

definition slow_sample :: sample where
  "slow_sample = fast_sample\<lparr>sm_payload := [(''first_token_ms'', GFloat (901 / 2)), (''output_tokens'', GInt 5)]\<rparr>"

lemma default_config_ok: "config_ok default_config"
  using default_event_score_range default_weights(3,4) smallest_float_pos
  by (simp add: config_ok_def default_config_def default_gateway_codes_def)

definition published_percentiles :: "health \<Rightarrow> rat option \<times> rat option" where
  "published_percentiles h = (h_p50_ms h, h_p95_ms h)"

lemma sample_percentiles:
  "published_percentiles (health_score_with (\<lambda>_. None) default_config [slow_sample, fast_sample]) =
     (Some 120, Some (901 / 2))"
  by code_simp

theorem percentiles_ordered_witness:
  "let h = health_score_with (\<lambda>_. None) default_config [slow_sample, fast_sample]
   in h_p50_ms h = Some 120 \<and> h_p95_ms h = Some (901 / 2) \<and>
      (\<exists>s \<in> set [slow_sample, fast_sample]. \<exists>l. (120 :: rat) = round4 l \<and> latency_ms s = Some l)"
proof -
  let ?h = "health_score_with (\<lambda>_. None) default_config [slow_sample, fast_sample]"
  have v: "h_p50_ms ?h = Some 120" "h_p95_ms ?h = Some (901 / 2)"
    using sample_percentiles by (simp_all add: published_percentiles_def)
  note P = percentiles_ordered [OF default_config_ok, THEN conjunct2, rule_format, OF v]
  have "\<exists>s \<in> set [slow_sample, fast_sample]. \<exists>l. (120 :: rat) = round4 l \<and> latency_ms s = Some l"
    using P [THEN conjunct2, rule_format, of 120] by blast
  then show ?thesis using v by (simp only: Let_def)
qed

end
