(* ===== verification/Routing_Model.thy ===== *)
theory Routing_Model
  imports Scoring
begin

text \<open>
  The data of a routing round (routing/service.go, business/routing.go) and the predicates on accounts
  every phase of the round uses: identifiers and their order, scope, the upstream block of an account
  (business/account_block.go), rates and cost walls.

  A \<open>*big.Rat\<close> is a \<^typ>\<open>rat\<close> option. A sample's \<open>ObservedAt\<close> is the instant \<open>time.Parse\<close> reads in it,
  none when it reads none. A reason shown to the user is the list of its parts, in order, one
  constructor per message of the code (the separator between parts is left out); states and kinds are
  the strings of the code. What the code takes from libraries whose results no property depends on is
  gathered in \<open>go_env\<close>.
\<close>

subsection \<open>Library functions the round is parameterised by\<close>

record go_env =
  ge_json :: "string \<Rightarrow> goval option"   \<comment> \<open>encoding/json on one text\<close>
  ge_time :: "string \<Rightarrow> gotime option"  \<comment> \<open>time.Parse with the RFC 3339 layouts\<close>
  ge_sprint :: "goval \<Rightarrow> string"        \<comment> \<open>fmt.Sprint of a float64, a list or a map\<close>
  ge_pow :: "rat \<Rightarrow> rat \<Rightarrow> rat"         \<comment> \<open>math.Pow\<close>
  ge_log :: "rat \<Rightarrow> rat"                \<comment> \<open>math.Log\<close>
  ge_exp :: "rat \<Rightarrow> rat"                \<comment> \<open>math.Exp\<close>

subsection \<open>Identifiers\<close>

text \<open>\<open>new(big.Int).SetString(s, 10)\<close>: an optional sign and at least one decimal digit.\<close>

definition big_int :: "string \<Rightarrow> int option" where
  "big_int s =
     (let (sgn, ds) = split_sign s in
      if ds = [] then None else map_option ((*) sgn) (digits_value 0 ds))"

definition stable_id_less :: "string \<Rightarrow> string \<Rightarrow> bool" where
  "stable_id_less left right =
     (case (big_int left, big_int right) of
        (Some l, Some r) \<Rightarrow> l < r
      | _ \<Rightarrow> left < right)"

text \<open>A set of identifiers of the policy, and the membership test of \<open>containsGroupID\<close>.\<close>

definition contains_group_id :: "string list \<Rightarrow> string option \<Rightarrow> bool" where
  "contains_group_id ids gid =
     (case gid of None \<Rightarrow> False | Some i \<Rightarrow> to_lower (trim_space i) \<in> set ids)"

definition pointer_text :: "string option \<Rightarrow> string \<Rightarrow> string" where
  "pointer_text v fallback = (case v of None \<Rightarrow> fallback | Some s \<Rightarrow> s)"

fun text_metadata :: "gomap \<Rightarrow> string list \<Rightarrow> string" where
  "text_metadata m [] = []"
| "text_metadata m (k # ks) = (case map_of m k of Some (GString s) \<Rightarrow> s | _ \<Rightarrow> text_metadata m ks)"

subsection \<open>Records\<close>

record routing_account =
  acc_upstream_excluded :: bool
  acc_id :: string
  acc_name :: string
  acc_group_name :: string
  acc_group_id :: "string option"
  acc_group_cost_wall :: "string option"
  acc_profit_enabled :: "bool option"
  acc_profit_min_margin :: "string option"
  acc_profit_safety_buffer :: "string option"
  acc_upstream_host :: "string option"
  acc_upstream_id :: string
  acc_upstream_concurrency_limit :: "int64 option"
  acc_upstream_concurrency_status :: string
  acc_upstream_type :: "string option"
  acc_upstream_auth_status :: "string option"
  acc_schedulable :: "bool option"
  acc_priority :: "int64 option"
  acc_manual_priority :: "int64 option"
  acc_baseline_priority :: "int64 option"
  acc_baseline_concurrency :: "int64 option"
  acc_has_routing_baseline :: bool
  acc_managed_schedulable :: "bool option"
  acc_managed_priority :: "int64 option"
  acc_managed_load_factor :: "string option"
  acc_managed_concurrency :: "int64 option"
  acc_external_control :: bool
  acc_load_factor :: "string option"
  acc_concurrency :: "int64 option"
  acc_multiplier :: "string option"
  acc_paused :: bool
  acc_paused_reason :: "string option"
  acc_effective_state :: string
  acc_missing_binding_fingerprint :: string
  acc_catalog_binding_state :: string
  acc_catalog_binding_reason :: "string option"
  acc_metadata :: gomap

record routing_sample =
  rs_account_id :: string
  rs_evidence_key :: string
  rs_group_name :: string
  rs_result :: string
  rs_latency_p95 :: "string option"
  rs_failure_reason :: string
  rs_source :: string
  rs_observed_at :: "gotime option"
  rs_payload :: gomap

record previous_decision =
  pd_account_id :: string
  pd_group_name :: string
  pd_priority :: "int64 option"
  pd_schedulable :: "bool option"
  pd_state :: string
  pd_updated_at :: string
  pd_last_apply_at :: gotime
  pd_last_weight_write_at :: gotime
  pd_last_scaling_write_at :: gotime
  pd_payload :: gomap

record allocation_scope =
  as_enabled :: bool
  as_mode :: string
  as_account_ids :: "string list"
  as_upstream_ids :: "string list"
  as_account_overrides :: "(string \<times> bool) list"
  as_upstream_overrides :: "(string \<times> bool) list"

record binding_cleanup_config =
  bc_enabled :: bool
  bc_max_per_round :: int

record abnormal_cleanup_config =
  ac_enabled :: bool
  ac_action :: string
  ac_duration :: duration
  ac_max_per_round :: int
  ac_keep_last :: bool

record engine_config =
  ec_binding_cleanup :: binding_cleanup_config
  ec_abnormal_cleanup :: abnormal_cleanup_config
  ec_sample_classification :: scoring_config
  ec_strategy :: string
  ec_traffic_enabled :: bool
  ec_traffic_max_age :: duration
  ec_probe_max_age :: duration
  ec_probe_interval :: duration
  ec_probe_performance_enabled :: bool
  ec_history_max_age :: duration
  ec_short_window :: nat
  ec_long_window :: nat
  ec_breaker_enabled :: bool
  ec_hard_fatal :: bool
  ec_http_window :: nat
  ec_http_failures :: int
  ec_http_score_below :: rat
  ec_transient_failures :: int
  ec_latency_window :: nat
  ec_latency_occurrences :: int
  ec_latency_ttfb_ms :: rat
  ec_max_switch :: int
  ec_min_pool :: int
  ec_min_pool_score :: rat
  ec_fused_cooldown :: duration
  ec_instant_codes :: "int list"
  ec_http_degrade_only :: bool
  ec_latency_degrade_only :: bool
  ec_degrade_enabled :: bool
  ec_degrade_threshold :: rat
  ec_degrade_priority_step :: int64
  ec_degrade_load_ratio :: rat
  ec_degrade_min_load :: int64
  ec_recovery_enabled :: bool
  ec_recovery_target :: rat
  ec_recovery_successes :: int
  ec_recovery_hold :: duration
  ec_weights_enabled :: bool
  ec_weight_budget :: int64
  ec_manual_priority_max :: int64
  ec_manage_all_accounts :: bool
  ec_gate_floor :: rat
  ec_price_exp :: rat
  ec_speed_exp :: rat
  ec_balanced_price_ratio :: rat
  ec_performance_min_samples :: int
  ec_speed_advantage_cap :: rat
  ec_missing_rate_fallback :: string
  ec_change_threshold :: "rat option"
  ec_cooldown :: duration
  ec_min_load_factor :: int64
  ec_max_load_factor :: int64
  ec_scaling_enabled :: bool
  ec_global_scaling_enabled :: bool
  ec_upstream_reduction_enabled :: bool
  ec_upstream_allocation_scope :: allocation_scope
  ec_cost_wall_enabled :: bool
  ec_cost_wall_fallback_enabled :: bool
  ec_cost_wall_stop_auto_probe :: bool
  ec_scaling_global_max :: int64
  ec_scaling_min :: int64
  ec_scaling_max :: int64
  ec_scaling_up_ratio :: rat
  ec_scaling_step_up :: int64
  ec_scaling_step_down :: int64
  ec_scaling_cooldown :: duration
  ec_apply_concurrency :: bool
  ec_apply_schedulable :: bool
  ec_excluded_groups :: "string list"
  ec_excluded_accounts :: "string list"
  ec_ignore_cost_wall_accounts :: "string list"
  ec_paused_accounts :: "string list"
  ec_manual_fused_accounts :: "string list"
  ec_managed_mode :: string
  ec_managed_groups :: "string list"
  ec_account_types :: "string list"
  ec_platforms :: "string list"
  ec_group_bindings :: gomap
  ec_cleanup_enabled :: bool
  ec_cleanup_action :: string
  ec_cleanup_occurrences :: int
  ec_cleanup_window :: nat
  ec_cleanup_observation :: duration
  ec_cleanup_max_per_round :: int
  ec_cleanup_keep_last :: bool
  ec_cleanup_only_auth :: bool
  ec_cleanup_status_codes :: "int list"
  ec_animation_enabled :: bool
  ec_animation_pass_multiplier :: rat
  ec_animation_fail_multiplier :: rat
  ec_animation_failure_action :: string

subsection \<open>Reasons and candidates\<close>

datatype concurrency_note =
    CN_Source_Missing
  | CN_Recovery_Unconfirmed
  | CN_Wait_Readback
  | CN_Scaling_Off
  | CN_Shared_Unconfirmed
  | CN_Pause_Conditions
  | CN_Account_Unconfirmed
  | CN_Needs_Switches
  | CN_Limit_Unknown
  | CN_Upstream_Full int int int
  | CN_Global_Full int int int
  | CN_Stale
  | CN_Stale_Recovery
  | CN_Wait_Release
  | CN_Adjust_First
  | CN_Enable_Writes int
  | CN_Recovered int
  | CN_Assigned int int
  | CN_Global_Budget_Short
  | CN_Wait_Health
  | CN_Reduction_Pause
  | CN_Reduced int
  | CN_Restore_Baseline int

datatype reason_part =
    M_Text string
  | M_Computed
  | M_Binding_Restored
  | M_Binding_Invalid
  | M_Rate_Unavailable
  | M_Upstream_Excluded
  | M_Account_Excluded
  | M_Group_Excluded
  | M_Group_Unmanaged
  | M_Manual_Pause
  | M_Policy_Pause
  | M_Account_Disabled
  | M_Schedulable_Unknown
  | M_Manual_Fuse
  | M_Rate_Wall
  | M_Rate_Wall_Missing
  | M_Rate_Fail_Open
  | M_Rate_Strict
  | M_Recovered
  | M_Waiting "string list"
  | M_Fatal
  | M_Instant_Code
  | M_Http_Degrade
  | M_Http_Fuse
  | M_Latency_Degrade
  | M_Latency_Fuse
  | M_Retry_Recovered
  | M_Client_Error_Only
  | M_No_Samples
  | M_Below_Degrade rat
  | M_Pending
  | M_Animation_Degrade
  | M_Animation_Fuse
  | M_Soft_Limit string
  | M_Survivor
  | M_Survivor_Group string
  | M_Cost_Blocked bool
  | M_Cost_Below
  | M_Cost_Wall_Off
  | M_Cost_Wall_Ignored
  | M_Cost_Fallback string
  | M_Concurrency concurrency_note
  | M_Missing_Binding
  | M_Persistent_Abnormal

type_synonym reason = "reason_part list"

record probe_performance_key =
  pk_request_model :: string
  pk_actual_model :: string
  pk_protocol :: string
  pk_prompt :: string
  pk_request :: string

record probe_performance_summary =
  ps_p95_ms :: rat
  ps_samples :: int

text \<open>
  \<open>placementConfig\<close> points to the configuration of the group the weights were computed for; the model
  names the group. \<open>placementMemberships\<close> holds the account's candidates and is not a field of its own.
\<close>

record candidate =
  c_account :: routing_account
  c_health :: health
  c_routing_health :: rat
  c_evidence_pending :: bool
  c_rows :: "routing_sample list"
  c_recovery_hold_span :: "duration option"
  c_performance_p50_ms :: "rat option"
  c_performance_p95_ms :: "rat option"
  c_performance_samples :: int
  c_performance_model :: string
  c_probe_performance :: "(probe_performance_key \<times> probe_performance_summary) list"
  c_ranking_latency_ms :: rat
  c_rate :: "rat option"
  c_rate_text :: "string option"
  c_rate_known :: bool
  c_rate_reason :: "reason_part option"
  c_cost_wall :: "rat option"
  c_cost_wall_text :: "string option"
  c_cost_tier :: string
  c_cost_tier_rank :: int
  c_state :: string
  c_reason :: reason
  c_schedulable :: bool
  c_fuse_kind :: string
  c_strategy :: string
  c_quality :: rat
  c_weight :: rat
  c_rank :: "int option"
  c_desired_priority :: "int64 option"
  c_desired_load :: "string option"
  c_desired_concurrency :: "int64 option"
  c_restore_concurrency :: bool
  c_write_cooldown :: bool
  c_placement_cooldown :: bool
  c_placement_planned :: bool
  c_placement_config :: "string option"
  c_placement_quality_scale :: rat
  c_scaling_cooldown :: bool
  c_state_since :: gotime
  c_fused_until :: gotime
  c_cleanup_reason :: reason
  c_cleanup_action :: "string option"
  c_concurrency_issue :: bool
  c_concurrency_configuration_error :: bool
  c_animation_verdict :: string
  c_animation_failure_kind :: string
  c_animation_multiplier :: rat
  c_animation_evidence_applied :: bool
  c_upstream_allocation :: bool
  c_upstream_reduction_id :: string
  c_upstream_reduction_limit :: "int64 option"

abbreviation c_id :: "candidate \<Rightarrow> string" where
  "c_id c \<equiv> acc_id (c_account c)"

abbreviation c_group :: "candidate \<Rightarrow> string" where
  "c_group c \<equiv> acc_group_name (c_account c)"

text \<open>
  A round is the list of its candidates, one for each managed membership, grouped by group in the
  order of the names: \<open>groups[g]\<close> and \<open>byAccount[a]\<close> are the sublists of a group and of an account,
  and both maps share the candidates as the code's pointers do.
\<close>

type_synonym round = "candidate list"
type_synonym configs = "string \<Rightarrow> engine_config"

definition group_members :: "string \<Rightarrow> round \<Rightarrow> candidate list" where
  "group_members g cs = filter (\<lambda>c. c_group c = g) cs"

definition account_members :: "string \<Rightarrow> round \<Rightarrow> candidate list" where
  "account_members a cs = filter (\<lambda>c. c_id c = a) cs"

definition group_names :: "round \<Rightarrow> string list" where
  "group_names cs = sort (remdups (map c_group cs))"

text \<open>An assignment to some fields of every membership of one account.\<close>

definition update_account :: "string \<Rightarrow> (candidate \<Rightarrow> candidate) \<Rightarrow> round \<Rightarrow> round" where
  "update_account a f cs = map (\<lambda>c. if c_id c = a then f c else c) cs"

subsection \<open>Decimal numbers and rates\<close>

text \<open>
  \<open>new(big.Rat).SetString\<close> on decimal text (its fraction, hexadecimal and prefix syntaxes are not
  modelled; decimalutil rejects them too).
\<close>

definition nonneg_rat :: "string option \<Rightarrow> rat option" where
  "nonneg_rat raw =
     (case raw of
        None \<Rightarrow> None
      | Some s \<Rightarrow> (case parse_decimal (trim_space s) of
                     None \<Rightarrow> None
                   | Some v \<Rightarrow> if v < 0 then None else Some v))"

fun digits_text :: "nat \<Rightarrow> int \<Rightarrow> string" where
  "digits_text 0 n = []"
| "digits_text (Suc k) n = digits_text k (n div 10) @ [char_of (nat (48 + n mod 10))]"

function int_digits :: "int \<Rightarrow> string" where
  "int_digits n = (if n < 10 then digits_text 1 (max 0 n) else int_digits (n div 10) @ digits_text 1 n)"
  by pat_completeness auto
termination by (relation "measure nat") auto

declare int_digits.simps [simp del]

text \<open>\<open>strconv.FormatInt(n, 10)\<close>\<close>

definition int_text :: "int \<Rightarrow> string" where
  "int_text n = (if n < 0 then CHR ''-'' # int_digits (- n) else int_digits n)"

fun trim_right_char :: "char \<Rightarrow> string \<Rightarrow> string" where
  "trim_right_char c s = rev (dropWhile (\<lambda>x. x = c) (rev s))"

text \<open>\<open>decimalText\<close>: \<open>FloatString(12)\<close> (halves away from zero) without trailing zeros or point.\<close>

definition decimal_text :: "rat \<Rightarrow> string" where
  "decimal_text v =
     (let n = math_round (v * 10 ^ 12);
          text = (if n < 0 then CHR ''-'' # int_digits (- n div 10 ^ 12) else int_digits (n div 10 ^ 12)) @
            CHR ''.'' # digits_text 12 (\<bar>n\<bar> mod 10 ^ 12);
          text = trim_right_char (CHR ''.'') (trim_right_char (CHR ''0'') text)
      in if text = [] \<or> text = ''-0'' then ''0'' else text)"

definition nonnegative_decimal :: "string option \<Rightarrow> (rat \<times> string) option" where
  "nonnegative_decimal raw = map_option (\<lambda>v. (v, decimal_text v)) (nonneg_rat raw)"

definition resolve_rate ::
  "routing_account \<Rightarrow> engine_config \<Rightarrow> rat option \<Rightarrow> rat option \<times> string option \<times> bool \<times> reason_part option" where
  "resolve_rate account config wall =
     (case nonnegative_decimal (acc_multiplier account) of
        Some (v, t) \<Rightarrow> (Some v, Some t, True, None)
      | None \<Rightarrow>
          if ec_missing_rate_fallback config = ''current_cost_wall'' then
            (case wall of
               Some w \<Rightarrow> (Some w, Some (decimal_text w), False, Some M_Rate_Wall)
             | None \<Rightarrow> (None, None, False, Some M_Rate_Wall_Missing))
          else if ec_missing_rate_fallback config = ''fail_open'' then
            (Some 1, Some ''1'', False, Some M_Rate_Fail_Open)
          else (None, None, False, Some M_Rate_Strict))"

datatype wall_error = Profit_Control_Incomplete | Profit_Deduction_Too_Large

definition effective_cost_wall :: "routing_account \<Rightarrow> wall_error + (rat \<times> string) option" where
  "effective_cost_wall account =
     (case nonnegative_decimal (acc_group_cost_wall account) of
        None \<Rightarrow> Inr None
      | Some (wall, t) \<Rightarrow>
          if acc_profit_enabled account = Some True then
            (case (nonneg_rat (acc_profit_min_margin account), nonneg_rat (acc_profit_safety_buffer account)) of
               (Some margin, Some buffer) \<Rightarrow>
                 (let deduction = margin + buffer in
                  if deduction \<ge> 1 then Inl Profit_Deduction_Too_Large
                  else let wall = wall * (1 - deduction) in Inr (Some (wall, decimal_text wall)))
             | _ \<Rightarrow> Inl Profit_Control_Incomplete)
          else Inr (Some (wall, t)))"

definition cost_tier :: "rat option \<Rightarrow> rat option \<Rightarrow> string \<times> int" where
  "cost_tier rate wall =
     (case (rate, wall) of
        (Some r, Some w) \<Rightarrow> if r < w then (''below'', 0) else if r > w then (''above'', 2) else (''equal'', 1)
      | _ \<Rightarrow> (''unknown'', 1))"

definition cost_wall_reached :: "string \<Rightarrow> bool" where
  "cost_wall_reached tier \<longleftrightarrow> tier = ''equal'' \<or> tier = ''above''"

definition account_cost_wall_enabled :: "engine_config \<Rightarrow> string \<Rightarrow> bool" where
  "account_cost_wall_enabled config account_id \<longleftrightarrow>
     ec_cost_wall_enabled config \<and> account_id \<notin> set (ec_ignore_cost_wall_accounts config)"

lemma decimal_text_examples:
  "decimal_text (1 / 3) = ''0.333333333333''" "decimal_text 120 = ''120''" "int_text (- 907) = ''-907''"
  by code_simp+

subsection \<open>The upstream block of an account (business/account_block.go)\<close>

fun sprint :: "go_env \<Rightarrow> goval \<Rightarrow> string" where
  "sprint env (GString s) = s"
| "sprint env (GNumber s) = s"
| "sprint env (GInt n) = int_text n"
| "sprint env (GBool b) = (if b then ''true'' else ''false'')"
| "sprint env GNil = ''<nil>''"
| "sprint env v = ge_sprint env v"

text \<open>\<open>value, found := metadata[key]; found && value != nil\<close>\<close>

definition metadata_value :: "gomap \<Rightarrow> string \<Rightarrow> goval option" where
  "metadata_value m k = (case map_of m k of None \<Rightarrow> None | Some GNil \<Rightarrow> None | Some v \<Rightarrow> Some v)"

fun metadata_text :: "go_env \<Rightarrow> gomap \<Rightarrow> string list \<Rightarrow> string" where
  "metadata_text env m [] = []"
| "metadata_text env m (k # ks) =
     (case metadata_value m k of
        None \<Rightarrow> metadata_text env m ks
      | Some v \<Rightarrow> (let t = trim_space (sprint env v) in if t \<noteq> [] then t else metadata_text env m ks))"

text \<open>\<open>strconv.ParseBool\<close>, where it gives true.\<close>

definition parses_true :: "string \<Rightarrow> bool" where
  "parses_true s \<longleftrightarrow> s \<in> {''1'', ''t'', ''T'', ''TRUE'', ''true'', ''True''}"

definition metadata_bool_value :: "go_env \<Rightarrow> gomap \<Rightarrow> string \<Rightarrow> bool" where
  "metadata_bool_value env m k =
     (case metadata_value m k of
        None \<Rightarrow> False
      | Some (GBool b) \<Rightarrow> b
      | Some v \<Rightarrow> parses_true (trim_space (sprint env v)))"

text \<open>The text of a number parses back to the number.\<close>

fun sprint_float :: "go_env \<Rightarrow> goval \<Rightarrow> rat option" where
  "sprint_float env (GInt n) = Some (fl (of_int n))"
| "sprint_float env (GFloat x) = Some x"
| "sprint_float env v = parse_float (trim_space (sprint env v))"

definition metadata_number_value :: "go_env \<Rightarrow> gomap \<Rightarrow> string \<Rightarrow> rat option" where
  "metadata_number_value env m k =
     (case metadata_value m k of None \<Rightarrow> None | Some v \<Rightarrow> sprint_float env v)"

text \<open>\<open>time.Unix(int64(whole), int64(fraction*float64(time.Second)))\<close> of \<open>math.Modf(seconds)\<close>.\<close>

definition unix_time :: "rat \<Rightarrow> gotime" where
  "unix_time seconds =
     (let whole = math_trunc seconds in
      int_of_float seconds * nsec + math_trunc (fmul (seconds - of_int whole) 1000000000))"

definition metadata_time_value :: "go_env \<Rightarrow> gomap \<Rightarrow> string \<Rightarrow> gotime option" where
  "metadata_time_value env m k =
     (case metadata_value m k of
        None \<Rightarrow> None
      | Some v \<Rightarrow>
          (let t = trim_space (sprint env v) in
           if t = [] \<or> t = ''0'' \<or> equal_fold t ''null'' then None
           else (case sprint_float env v of
                   Some seconds \<Rightarrow> Some (unix_time seconds)
                 | None \<Rightarrow> ge_time env t)))"

definition metadata_window_active :: "go_env \<Rightarrow> gomap \<Rightarrow> string \<Rightarrow> gotime \<Rightarrow> bool" where
  "metadata_window_active env m k now =
     (case metadata_time_value env m k of None \<Rightarrow> False | Some t \<Rightarrow> now < t)"

definition quota_exhausted :: "go_env \<Rightarrow> gomap \<Rightarrow> string \<times> string \<Rightarrow> bool" where
  "quota_exhausted env m keys =
     (case (metadata_number_value env m (fst keys), metadata_number_value env m (snd keys)) of
        (Some limit, Some used) \<Rightarrow> limit > 0 \<and> used \<ge> limit
      | _ \<Rightarrow> False)"

definition account_upstream_block :: "go_env \<Rightarrow> gomap \<Rightarrow> bool option \<Rightarrow> gotime \<Rightarrow> string" where
  "account_upstream_block env m schedulable now =
     (let status = to_lower (trim_space (metadata_text env m [''status''])) in
      if status \<noteq> [] \<and> status \<noteq> ''active'' then ''disabled''
      else if schedulable = Some False then ''unschedulable''
      else if metadata_bool_value env m ''auto_pause_on_expired'' \<and>
          (case metadata_time_value env m ''expires_at'' of None \<Rightarrow> False | Some t \<Rightarrow> t \<le> now) then ''expired''
      else if metadata_window_active env m ''overload_until'' now then ''overloaded''
      else if metadata_window_active env m ''rate_limit_reset_at'' now then ''rate_limited''
      else if metadata_window_active env m ''temp_unschedulable_until'' now then ''temp_unschedulable''
      else
        let account_type = to_lower (trim_space (metadata_text env m [''type'', ''account_type''])) in
        if (account_type = ''apikey'' \<or> account_type = ''bedrock'') \<and>
           list_ex (quota_exhausted env m)
             [(''quota_limit'', ''quota_used''), (''quota_daily_limit'', ''quota_daily_used''),
              (''quota_weekly_limit'', ''quota_weekly_used'')]
        then ''quota_exceeded''
        else [])"

subsection \<open>Predicates on accounts (routing/service.go)\<close>

definition fused_routing_state :: "string \<Rightarrow> bool" where
  "fused_routing_state v \<longleftrightarrow> to_lower (trim_space v) \<in> {''fused'', ''hard_open'', ''soft_open''}"

definition degraded_routing_state :: "string list \<Rightarrow> bool" where
  "degraded_routing_state vs = list_ex (\<lambda>v. equal_fold (trim_space v) ''degraded'') vs"

definition remote_schedulable :: "routing_account \<Rightarrow> bool" where
  "remote_schedulable a \<longleftrightarrow> acc_schedulable a = Some True"

definition account_disabled :: "routing_account \<Rightarrow> bool" where
  "account_disabled a =
     (let status = to_lower (trim_space (text_metadata (acc_metadata a) [''status''])) in
      status \<in> {''inactive'', ''disabled'',
        [CHR 0xE5, CHR 0x81, CHR 0x9C, CHR 0xE7, CHR 0x94, CHR 0xA8],
        [CHR 0xE5, CHR 0xB7, CHR 0xB2, CHR 0xE5, CHR 0x81, CHR 0x9C, CHR 0xE7, CHR 0x94, CHR 0xA8]})"

definition catalog_binding_invalid :: "string \<Rightarrow> bool" where
  "catalog_binding_invalid v \<longleftrightarrow>
     to_lower (trim_space v) \<in> {''key_missing'', ''group_missing'', ''key_and_group_missing''}"

definition account_block :: "go_env \<Rightarrow> routing_account \<Rightarrow> gotime \<Rightarrow> string" where
  "account_block env a now = account_upstream_block env (acc_metadata a) (acc_schedulable a) now"

definition cost_wall_recovery_allowed :: "go_env \<Rightarrow> routing_account \<Rightarrow> gotime \<Rightarrow> bool" where
  "cost_wall_recovery_allowed env a now \<longleftrightarrow> account_upstream_block env (acc_metadata a) (Some True) now = []"

definition candidate_rate_limited :: "go_env \<Rightarrow> candidate \<Rightarrow> gotime \<Rightarrow> bool" where
  "candidate_rate_limited env c now \<longleftrightarrow>
     account_block env (c_account c) now = ''rate_limited'' \<or> h_latest_event (c_health c) = Event_Rate_Limited"

definition group_excluded :: "engine_config \<Rightarrow> string option \<Rightarrow> bool" where
  "group_excluded config gid = contains_group_id (ec_excluded_groups config) gid"

definition group_managed :: "engine_config \<Rightarrow> string option \<Rightarrow> bool" where
  "group_managed config gid =
     (if ec_managed_mode config \<noteq> ''selected'' then True else contains_group_id (ec_managed_groups config) gid)"

definition eligible_scope :: "routing_account \<Rightarrow> engine_config \<Rightarrow> bool \<times> reason" where
  "eligible_scope a config =
     (if acc_upstream_excluded a then (False, [M_Upstream_Excluded])
      else if acc_id a \<in> set (ec_excluded_accounts config) then (False, [M_Account_Excluded])
      else if group_excluded config (acc_group_id a) then (False, [M_Group_Excluded])
      else if \<not> group_managed config (acc_group_id a) then (False, [M_Group_Unmanaged])
      else (True, []))"

definition account_metadata_managed :: "routing_account \<Rightarrow> engine_config \<Rightarrow> bool" where
  "account_metadata_managed a config =
     (if acc_upstream_excluded a then False
      else
        let account_type = to_lower (trim_space (text_metadata (acc_metadata a) [''type'', ''account_type'']));
            account_type = (if account_type = [] then ''apikey'' else account_type);
            platform = to_lower (trim_space (text_metadata (acc_metadata a) [''platform'']));
            platform = (if platform = [] then
                (case acc_upstream_type a of None \<Rightarrow> platform | Some t \<Rightarrow> to_lower (trim_space t)) else platform)
        in if ec_account_types config \<noteq> [] \<and> account_type \<notin> set (ec_account_types config) then False
           else if ec_platforms config \<noteq> [] \<and> platform \<notin> set (ec_platforms config) then False
           else True)"

definition same_optional :: "'a option \<Rightarrow> 'a option \<Rightarrow> bool" where
  "same_optional l r = (case (l, r) of (Some x, Some y) \<Rightarrow> x = y | _ \<Rightarrow> False)"

text \<open>
  \<open>decimalutil.Parse\<close>: decimal text of at most 128 bytes with an exponent of at most 1000. The exponent
  part is checked on the text after the last e, which the pattern makes an integer.
\<close>

definition exponent_part :: "string \<Rightarrow> string" where
  "exponent_part s = (case dropWhile (\<lambda>c. c \<noteq> CHR ''e'' \<and> c \<noteq> CHR ''E'') s of [] \<Rightarrow> [] | _ # r \<Rightarrow> r)"

definition decimal_parse :: "string \<Rightarrow> rat option" where
  "decimal_parse raw =
     (let v = trim_space raw in
      if v = [] \<or> length v > 128 then None
      else (case parse_decimal v of
          None \<Rightarrow> None
        | Some x \<Rightarrow>
            if exponent_part v \<noteq> [] \<and>
               (case parse_int64 (exponent_part v) of None \<Rightarrow> True | Some e \<Rightarrow> e < - 1000 \<or> e > 1000)
            then None else Some x))"

definition same_optional_decimal :: "string option \<Rightarrow> string option \<Rightarrow> bool" where
  "same_optional_decimal l r =
     (case (l, r) of
        (Some x, Some y) \<Rightarrow> (case (decimal_parse x, decimal_parse y) of (Some p, Some q) \<Rightarrow> p = q | _ \<Rightarrow> False)
      | _ \<Rightarrow> False)"

definition account_externally_modified :: "routing_account \<Rightarrow> bool" where
  "account_externally_modified a =
     (if acc_managed_schedulable a \<noteq> None \<and> \<not> same_optional (acc_schedulable a) (acc_managed_schedulable a) then True
      else if acc_managed_priority a \<noteq> None \<and> \<not> same_optional (acc_priority a) (acc_managed_priority a) then True
      else if acc_managed_load_factor a \<noteq> None \<and>
          \<not> same_optional_decimal (acc_load_factor a) (acc_managed_load_factor a) then True
      else acc_managed_concurrency a \<noteq> None \<and> \<not> same_optional (acc_concurrency a) (acc_managed_concurrency a))"

definition previously_concurrency_limited :: "routing_account \<Rightarrow> bool" where
  "previously_concurrency_limited a \<longleftrightarrow> equal_fold (trim_space (acc_effective_state a)) ''concurrency_limited''"

definition confirmed_concurrency_pause :: "routing_account \<Rightarrow> bool" where
  "confirmed_concurrency_pause a \<longleftrightarrow> previously_concurrency_limited a \<and> acc_schedulable a = Some False"

definition sub2api_upstream_id :: "routing_account \<Rightarrow> string" where
  "sub2api_upstream_id a =
     (case acc_upstream_type a of
        None \<Rightarrow> []
      | Some t \<Rightarrow> if \<not> equal_fold (trim_space t) ''sub2api'' then [] else trim_space (acc_upstream_id a))"

definition placement_load_factor_eligible :: "candidate \<Rightarrow> bool" where
  "placement_load_factor_eligible c \<longleftrightarrow>
     c_state c \<notin> {''excluded'', ''paused'', ''disabled'', ''fused'', ''cost_blocked'', ''binding_invalid''}"

subsection \<open>The primary membership of an account\<close>

definition membership_key :: "routing_account \<Rightarrow> string" where
  "membership_key a =
     (case acc_group_id a of
        Some g \<Rightarrow> if trim_space g \<noteq> [] then trim_space g else acc_group_name a
      | None \<Rightarrow> acc_group_name a)"

definition membership_less :: "candidate \<Rightarrow> candidate \<Rightarrow> bool" where
  "membership_less l r =
     (let lk = membership_key (c_account l); rk = membership_key (c_account r) in
      if lk \<noteq> rk then stable_id_less lk rk else c_group l < c_group r)"

fun primary_from :: "candidate \<Rightarrow> candidate list \<Rightarrow> candidate" where
  "primary_from p [] = p"
| "primary_from p (c # cs) = primary_from (if membership_less c p then c else p) cs"

definition primary_membership :: "candidate list \<Rightarrow> candidate option" where
  "primary_membership items = (case items of [] \<Rightarrow> None | c # cs \<Rightarrow> Some (primary_from c cs))"

lemma primary_from_mem: "primary_from p cs \<in> set (p # cs)"
  by (induction p cs rule: primary_from.induct) auto

lemma primary_membership_mem: "primary_membership items = Some p \<Longrightarrow> p \<in> set items"
  using primary_from_mem by (fastforce simp: primary_membership_def split: list.splits)

lemma primary_membership_None: "primary_membership items = None \<longleftrightarrow> items = []"
  by (auto simp: primary_membership_def split: list.splits)

subsection \<open>Updates of one account\<close>

text \<open>The updates of the round never touch the account row of a candidate.\<close>

definition keeps_account :: "(candidate \<Rightarrow> candidate) \<Rightarrow> bool" where
  "keeps_account f \<longleftrightarrow> (\<forall>c. c_account (f c) = c_account c)"

lemma keeps_accountD: "keeps_account f \<Longrightarrow> c_account (f c) = c_account c"
  by (simp add: keeps_account_def)

lemma accounts_update_account:
  "keeps_account f \<Longrightarrow> map c_account (update_account a f cs) = map c_account cs"
  by (simp add: update_account_def keeps_account_def)

lemma account_members_self:
  "keeps_account f \<Longrightarrow> account_members a (update_account a f cs) = map f (account_members a cs)"
  by (induction cs) (auto simp: account_members_def update_account_def keeps_account_def)

lemma account_members_other:
  "keeps_account f \<Longrightarrow> b \<noteq> a \<Longrightarrow> account_members b (update_account a f cs) = account_members b cs"
  by (induction cs) (auto simp: account_members_def update_account_def keeps_account_def)

lemma group_members_update:
  "keeps_account f \<Longrightarrow> group_members g (update_account a f cs) = update_account a f (group_members g cs)"
  by (induction cs) (auto simp: group_members_def update_account_def keeps_account_def)

lemma length_update_account [simp]: "length (update_account a f cs) = length cs"
  by (simp add: update_account_def)

lemma nth_update_account:
  "i < length cs \<Longrightarrow> update_account a f cs ! i = (if c_id (cs ! i) = a then f (cs ! i) else cs ! i)"
  by (simp add: update_account_def)

lemma account_members_mem [simp]: "c \<in> set (account_members a cs) \<longleftrightarrow> c \<in> set cs \<and> c_id c = a"
  by (auto simp: account_members_def)

lemma group_members_mem [simp]: "c \<in> set (group_members g cs) \<longleftrightarrow> c \<in> set cs \<and> c_group c = g"
  by (auto simp: group_members_def)

lemma groups_of_account:
  "map c_account cs = map c_account ds \<Longrightarrow>
   map c_group (account_members a cs) = map c_group (account_members a ds)"
proof (induction cs arbitrary: ds)
  case (Cons c cs)
  then show ?case by (cases ds) (auto simp: account_members_def)
qed (simp add: account_members_def)

end
