(* ===== verification/Sample_Round.thy ===== *)
theory Sample_Round
  imports Routing_Model
begin

text \<open>
  Small concrete values the witnesses of the round's properties share: an environment whose library
  functions answer nothing, an account bound to one group, the candidate of that account with no
  sample, and a policy with small limits. They model no code of their own.
\<close>

definition plain_env :: go_env where
  "plain_env =
     \<lparr>ge_json = (\<lambda>_. None), ge_time = (\<lambda>_. None), ge_sprint = (\<lambda>_. []),
      ge_pow = (\<lambda>_ _. 1), ge_log = (\<lambda>_. 0), ge_exp = (\<lambda>_. 1)\<rparr>"

definition plain_account :: "string \<Rightarrow> string \<Rightarrow> routing_account" where
  "plain_account i g =
     \<lparr>acc_upstream_excluded = False, acc_id = i, acc_name = i, acc_group_name = g,
      acc_group_id = Some g, acc_group_cost_wall = None, acc_profit_enabled = None,
      acc_profit_min_margin = None, acc_profit_safety_buffer = None, acc_upstream_host = Some ''h'',
      acc_upstream_id = [], acc_upstream_concurrency_limit = None, acc_upstream_concurrency_status = [],
      acc_upstream_type = Some ''sub2api'', acc_upstream_auth_status = Some ''healthy'',
      acc_schedulable = Some True, acc_priority = None, acc_manual_priority = None,
      acc_baseline_priority = None, acc_baseline_concurrency = None, acc_has_routing_baseline = False,
      acc_managed_schedulable = None, acc_managed_priority = None, acc_managed_load_factor = None,
      acc_managed_concurrency = None, acc_external_control = False, acc_load_factor = None,
      acc_concurrency = None, acc_multiplier = None, acc_paused = False, acc_paused_reason = None,
      acc_effective_state = [], acc_missing_binding_fingerprint = [], acc_catalog_binding_state = [],
      acc_catalog_binding_reason = None, acc_metadata = []\<rparr>"

definition plain_candidate :: "routing_account \<Rightarrow> candidate" where
  "plain_candidate a =
     \<lparr>c_account = a, c_health = empty_health, c_routing_health = 0, c_evidence_pending = False,
      c_rows = [], c_recovery_hold_span = None, c_performance_p50_ms = None, c_performance_p95_ms = None,
      c_performance_samples = 0, c_performance_model = [], c_probe_performance = [], c_ranking_latency_ms = 0,
      c_rate = Some 1, c_rate_text = None, c_rate_known = True, c_rate_reason = None, c_cost_wall = None,
      c_cost_wall_text = None, c_cost_tier = [], c_cost_tier_rank = 0, c_state = ''healthy'', c_reason = [],
      c_schedulable = True, c_fuse_kind = [], c_strategy = ''balanced'', c_quality = 0, c_weight = 0,
      c_rank = None, c_desired_priority = None, c_desired_load = None, c_desired_concurrency = None,
      c_restore_concurrency = False, c_write_cooldown = False, c_placement_cooldown = False,
      c_placement_planned = False, c_placement_config = None, c_placement_quality_scale = 1,
      c_scaling_cooldown = False, c_state_since = 0, c_fused_until = 0, c_cleanup_reason = [],
      c_cleanup_action = None, c_concurrency_issue = False, c_concurrency_configuration_error = False,
      c_animation_verdict = [], c_animation_failure_kind = [], c_animation_multiplier = 1,
      c_animation_evidence_applied = False, c_upstream_allocation = False, c_upstream_reduction_id = [],
      c_upstream_reduction_limit = None\<rparr>"

definition plain_scoring :: scoring_config where
  "plain_scoring =
     \<lparr>sc_short_window = 3, sc_long_window = 10, sc_latest_weight = 1/2, sc_short_ratio = 1/2, sc_slow_ttfb_ms = 5000,
      sc_event_scores = default_event_score, sc_fatal_patterns = [], sc_quota_patterns = [],
      sc_gateway_codes = [502], sc_client_codes = [400]\<rparr>"

definition plain_config :: engine_config where
  "plain_config =
     \<lparr>ec_binding_cleanup = \<lparr>bc_enabled = False, bc_max_per_round = 1\<rparr>,
      ec_abnormal_cleanup = \<lparr>ac_enabled = False, ac_action = ''pause'', ac_duration = 86400000000000, ac_max_per_round = 1, ac_keep_last = True\<rparr>,
      ec_sample_classification = plain_scoring, ec_strategy = ''balanced'', ec_traffic_enabled = False,
      ec_traffic_max_age = 0, ec_probe_max_age = 0, ec_probe_interval = 0,
      ec_probe_performance_enabled = False, ec_history_max_age = 0, ec_short_window = 3, ec_long_window = 10,
      ec_breaker_enabled = True, ec_hard_fatal = False, ec_http_window = 0, ec_http_failures = 0,
      ec_http_score_below = 0, ec_transient_failures = 0, ec_latency_window = 0, ec_latency_occurrences = 0,
      ec_latency_ttfb_ms = 0, ec_max_switch = 1, ec_min_pool = 1, ec_min_pool_score = 50,
      ec_fused_cooldown = 60, ec_instant_codes = [], ec_http_degrade_only = False,
      ec_latency_degrade_only = False, ec_degrade_enabled = False, ec_degrade_threshold = 0,
      ec_degrade_priority_step = 0, ec_degrade_load_ratio = 0, ec_degrade_min_load = 0,
      ec_recovery_enabled = True, ec_recovery_target = 80, ec_recovery_successes = 2, ec_recovery_hold = 0,
      ec_weights_enabled = False, ec_weight_budget = 0, ec_manual_priority_max = 10,
      ec_manage_all_accounts = False, ec_gate_floor = 60, ec_price_exp = 0, ec_speed_exp = 0,
      ec_balanced_price_ratio = 0, ec_performance_min_samples = 0, ec_speed_advantage_cap = 0,
      ec_missing_rate_fallback = [], ec_change_threshold = None, ec_cooldown = 0, ec_min_load_factor = 0,
      ec_max_load_factor = 0, ec_scaling_enabled = False, ec_global_scaling_enabled = False,
      ec_upstream_reduction_enabled = False,
      ec_upstream_allocation_scope = \<lparr>as_enabled = False, as_mode = [], as_account_ids = [], as_upstream_ids = [], as_account_overrides = [], as_upstream_overrides = []\<rparr>,
      ec_cost_wall_enabled = False, ec_cost_wall_fallback_enabled = False,
      ec_cost_wall_stop_auto_probe = False, ec_scaling_global_max = 0, ec_scaling_min = 0, ec_scaling_max = 0,
      ec_scaling_up_ratio = 0, ec_scaling_step_up = 0, ec_scaling_step_down = 0, ec_scaling_cooldown = 0,
      ec_apply_concurrency = False, ec_apply_schedulable = False, ec_excluded_groups = [],
      ec_excluded_accounts = [], ec_ignore_cost_wall_accounts = [], ec_paused_accounts = [],
      ec_manual_fused_accounts = [], ec_managed_mode = [], ec_managed_groups = [], ec_account_types = [],
      ec_platforms = [], ec_group_bindings = [], ec_cleanup_enabled = False, ec_cleanup_action = ''pause'',
      ec_cleanup_occurrences = 1, ec_cleanup_window = 5, ec_cleanup_observation = 0,
      ec_cleanup_max_per_round = 1, ec_cleanup_keep_last = True, ec_cleanup_only_auth = False,
      ec_cleanup_status_codes = [], ec_animation_enabled = False, ec_animation_pass_multiplier = 0,
      ec_animation_fail_multiplier = 0, ec_animation_failure_action = []\<rparr>"

lemma plain_candidate_account [simp]: "c_account (plain_candidate a) = a"
  by (simp add: plain_candidate_def)

lemma plain_account_simps [simp]: "acc_id (plain_account i g) = i" "acc_group_name (plain_account i g) = g"
  by (simp_all add: plain_account_def)

end
