(* ===== verification/Evidence.thy ===== *)
theory Evidence
  imports Sample_Round
begin

text \<open>
  The selection and scoring of an account's evidence: the source and age filters of routing/service.go,
  evidence_history.go, health_evidence.go, recovery_evidence.go and the recovery conditions of
  recovery_status.go.

  \<open>freshSourceSamples\<close> rewrites each timestamp it keeps in one fixed-width format, so ordering the texts
  is ordering the instants; a row of the model holds the instant, none where \<open>time.Parse\<close> reads none.
\<close>

subsection \<open>One sample\<close>

definition exact_integer :: "go_env \<Rightarrow> goval \<Rightarrow> int option" where
  "exact_integer env raw =
     (case raw of
        GInt n \<Rightarrow> Some n
      | GFloat x \<Rightarrow> if of_int (math_trunc x) \<noteq> x then None else Some (int_of_float x)
      | v \<Rightarrow> (let t = trim_space (sprint env v) in
              case parse_int64 t of
                Some n \<Rightarrow> if int_text n = t then Some n else None
              | None \<Rightarrow> None))"

definition routing_sample_status :: "go_env \<Rightarrow> routing_sample \<Rightarrow> int option" where
  "routing_sample_status env row =
     (let text_status = find_status False (to_lower (rs_result row @ '' '' @ rs_failure_reason row)) in
      case map_of (rs_payload row) ''status_code'' of
        None \<Rightarrow> text_status
      | Some GNil \<Rightarrow> text_status
      | Some raw \<Rightarrow>
          (case exact_integer env raw of
             Some n \<Rightarrow> if 100 \<le> n \<and> n \<le> 599 then Some n else text_status
           | None \<Rightarrow> text_status))"

definition row_sample :: "go_env \<Rightarrow> routing_sample \<Rightarrow> sample" where
  "row_sample env row =
     \<lparr>sm_result = rs_result row, sm_failure_reason = rs_failure_reason row, sm_source = rs_source row,
      sm_latency_p95 = rs_latency_p95 row, sm_status_code = routing_sample_status env row,
      sm_payload = rs_payload row\<rparr>"

text \<open>The sample built without a result, a reason and a status, to read a latency or the usage.\<close>

definition bare_sample :: "routing_sample \<Rightarrow> sample" where
  "bare_sample row =
     \<lparr>sm_result = [], sm_failure_reason = [], sm_source = rs_source row,
      sm_latency_p95 = rs_latency_p95 row, sm_status_code = None, sm_payload = rs_payload row\<rparr>"

definition classify_row :: "go_env \<Rightarrow> scoring_config \<Rightarrow> routing_sample \<Rightarrow> classified" where
  "classify_row env config row = classify (ge_json env) config (row_sample env row)"

definition successful_routing_sample :: "routing_sample \<Rightarrow> bool" where
  "successful_routing_sample row =
     (if empty_response_sample (bare_sample row) then False
      else if trim_space (rs_failure_reason row) \<noteq> [] then False
      else success_result (to_lower (trim_space (rs_result row))))"

subsection \<open>Filters\<close>

definition filter_source :: "string \<Rightarrow> routing_sample list \<Rightarrow> routing_sample list" where
  "filter_source source rows =
     filter (\<lambda>row. let n = normalized_source (rs_source row) in
        \<not> (source = ''active_probe'' \<and> n \<noteq> ''active-probe'') \<and>
        \<not> (source = ''traffic'' \<and> n \<noteq> ''traffic'' \<and> n \<noteq> ''active-probe'')) rows"

definition limited :: "nat \<Rightarrow> 'a list \<Rightarrow> 'a list" where
  "limited limit rows = (if limit > 0 \<and> length rows > limit then take limit rows else rows)"

definition filter_and_limit_samples :: "routing_sample list \<Rightarrow> string \<Rightarrow> nat \<Rightarrow> routing_sample list" where
  "filter_and_limit_samples rows source limit = limited limit (filter_source source rows)"

definition fresh :: "gotime \<Rightarrow> duration \<Rightarrow> routing_sample \<Rightarrow> bool" where
  "fresh now max_age row =
     (case rs_observed_at row of
        None \<Rightarrow> False
      | Some t \<Rightarrow> \<not> (t > now + nmin \<or> time_sub now t > max_age))"

definition newer :: "routing_sample \<Rightarrow> routing_sample \<Rightarrow> bool" where
  "newer l r =
     (case (rs_observed_at l, rs_observed_at r) of
        (Some a, Some b) \<Rightarrow> a > b
      | (Some _, None) \<Rightarrow> True
      | _ \<Rightarrow> False)"

definition fresh_source_samples ::
  "routing_sample list \<Rightarrow> string \<Rightarrow> gotime \<Rightarrow> duration \<Rightarrow> nat \<Rightarrow> routing_sample list" where
  "fresh_source_samples rows source now max_age limit =
     limited limit
       (sort_by newer (filter (\<lambda>row. normalized_source (rs_source row) = source \<and> fresh now max_age row) rows))"

definition observed_after :: "gotime \<Rightarrow> routing_sample \<Rightarrow> bool" where
  "observed_after t row = (case rs_observed_at row of None \<Rightarrow> False | Some o' \<Rightarrow> o' > t)"

text \<open>\<open>observed, _ := time.Parse(...)\<close>: the zero time where nothing parses.\<close>

definition observed_or_zero :: "routing_sample \<Rightarrow> gotime" where
  "observed_or_zero row = (case rs_observed_at row of None \<Rightarrow> zero_time | Some t \<Rightarrow> t)"

definition select_routing_evidence ::
  "routing_sample list \<Rightarrow> gotime \<Rightarrow> duration \<Rightarrow> duration \<Rightarrow> nat \<Rightarrow> routing_sample list \<times> routing_sample list" where
  "select_routing_evidence rows now traffic_max_age probe_max_age limit =
     (let traffic = fresh_source_samples rows ''traffic'' now traffic_max_age limit;
          probes = fresh_source_samples rows ''active-probe'' now probe_max_age limit
      in case traffic of
           [] \<Rightarrow> (probes, traffic)
         | t # _ \<Rightarrow>
             (take limit (filter (\<lambda>p. observed_or_zero p > observed_or_zero t) probes @ traffic), traffic))"

fun latest_traffic_after :: "gotime \<Rightarrow> routing_sample list \<Rightarrow> gotime" where
  "latest_traffic_after cutoff [] = cutoff"
| "latest_traffic_after cutoff (row # rows) =
     latest_traffic_after
       (if \<not> equal_fold (trim_space (rs_source row)) ''traffic'' then cutoff
        else (case rs_observed_at row of None \<Rightarrow> cutoff | Some t \<Rightarrow> if t > cutoff then t else cutoff)) rows"

definition with_recovery_probe_evidence ::
  "routing_sample list \<Rightarrow> routing_sample list \<Rightarrow> gotime \<Rightarrow> duration \<Rightarrow> gotime \<Rightarrow> routing_sample list" where
  "with_recovery_probe_evidence health_rows all_rows now probe_max_age fused_since =
     (let health_rows = filter (observed_after fused_since) health_rows;
          cutoff = latest_traffic_after fused_since health_rows;
          probes = fresh_source_samples all_rows ''active-probe'' now probe_max_age (length all_rows);
          recovery = filter (observed_after cutoff) probes
      in if recovery \<noteq> [] then recovery else health_rows)"

definition with_critical_probe_evidence ::
  "go_env \<Rightarrow> routing_sample list \<Rightarrow> routing_sample list \<Rightarrow> gotime \<Rightarrow> duration \<Rightarrow> scoring_config \<Rightarrow> routing_sample list" where
  "with_critical_probe_evidence env health_rows all_rows now probe_max_age config =
     (case fresh_source_samples all_rows ''active-probe'' now probe_max_age (length all_rows) of
        [] \<Rightarrow> health_rows
      | latest # _ \<Rightarrow>
          if \<not> cl_fatal (classify_row env config latest) then health_rows
          else (case rs_observed_at latest of
                  None \<Rightarrow> health_rows
                | Some t \<Rightarrow>
                    (case health_rows of
                       [] \<Rightarrow> [latest]
                     | h # _ \<Rightarrow>
                         (case rs_observed_at h of
                            Some u \<Rightarrow> if \<not> t > u then health_rows else latest # health_rows
                          | None \<Rightarrow> latest # health_rows))))"

definition select_scoring_history ::
  "routing_sample list \<Rightarrow> routing_sample list \<Rightarrow> gotime \<Rightarrow> duration \<Rightarrow> nat \<Rightarrow> routing_sample list" where
  "select_scoring_history rows current now max_age limit =
     (if current = [] then []
      else if list_ex (\<lambda>row. equal_fold (trim_space (rs_source row)) ''traffic'') current
      then fst (select_routing_evidence rows now max_age max_age limit)
      else fresh_source_samples rows ''active-probe'' now max_age limit)"

subsection \<open>Scores\<close>

definition score_routing_rows :: "go_env \<Rightarrow> scoring_config \<Rightarrow> routing_sample list \<Rightarrow> health" where
  "score_routing_rows env config rows = health_score_with (ge_json env) config (map (row_sample env) rows)"

definition score_routing_health ::
  "go_env \<Rightarrow> scoring_config \<Rightarrow> routing_sample list \<Rightarrow> routing_sample list \<Rightarrow> health" where
  "score_routing_health env config current history =
     (let health = score_routing_rows env (config\<lparr>sc_long_window := max (sc_long_window config) (length current)\<rparr>) current
      in if h_sample_count health = 0 then health
         else
           let historical = score_routing_rows env config history;
               historical = (if h_sample_count historical = 0 then score_routing_rows env config current else historical);
               current_score = h_health_score health;
               health = health\<lparr>h_short_score := h_short_score historical, h_long_score := h_long_score historical,
                 h_health_score := h_health_score historical, h_sample_count := h_sample_count historical\<rparr>
           in if h_fatal health then health\<lparr>h_health_score := current_score\<rparr> else health)"

definition performance_model :: "go_env \<Rightarrow> gomap \<Rightarrow> string" where
  "performance_model env payload =
     (case filter (\<lambda>v. v \<noteq> [] \<and> v \<noteq> ''<nil>'')
             (map (\<lambda>k. to_lower (trim_space (sprint env (gofield payload k)))) [''model'', ''model_name'', ''actual_model'']) of
        [] \<Rightarrow> [] | v # _ \<Rightarrow> v)"

text \<open>\<open>dominantModel\<close>; \<open>order\<close> is the order in which the map of counts comes up.\<close>

fun dominant_from :: "(string \<Rightarrow> nat) \<Rightarrow> string list \<Rightarrow> string \<times> nat \<Rightarrow> string" where
  "dominant_from counts [] (result, best) = result"
| "dominant_from counts (m # ms) (result, best) =
     dominant_from counts ms
       (if counts m > best \<or> (counts m = best \<and> m < result) then (m, counts m) else (result, best))"

definition dominant_model :: "(string \<Rightarrow> nat) \<Rightarrow> string list \<Rightarrow> string" where
  "dominant_model counts order = dominant_from counts order ([], 0)"

definition model_latencies :: "go_env \<Rightarrow> routing_sample list \<Rightarrow> (string \<times> rat) list" where
  "model_latencies env rows =
     List.map_filter
       (\<lambda>row. if \<not> successful_routing_sample row then None
             else map_option (\<lambda>l. (performance_model env (rs_payload row), l)) (latency_ms (bare_sample row))) rows"

definition model_count :: "(string \<times> rat) list \<Rightarrow> string \<Rightarrow> nat" where
  "model_count ls m = length (filter (\<lambda>l. fst l = m) ls)"

definition performance_latency_summary ::
  "go_env \<Rightarrow> (string list \<Rightarrow> string list) \<Rightarrow> routing_sample list \<Rightarrow> rat option \<times> rat option \<times> int \<times> string" where
  "performance_latency_summary env map_order rows =
     (let ls = model_latencies env rows in
      if ls = [] then (None, None, 0, [])
      else
        let model = dominant_model (model_count ls) (map_order (remdups (map fst ls)));
            latencies = map snd (filter (\<lambda>l. fst l = model) ls)
        in (map_option round4 (percentile (fl (1 / 2)) latencies),
            map_option round4 (percentile (fl (95 / 100)) latencies),
            int (length latencies), model))"

record routing_health_evidence =
  he_health :: health
  he_rows :: "routing_sample list"
  he_p50_ms :: "rat option"
  he_p95_ms :: "rat option"
  he_samples :: int
  he_model :: string

text \<open>\<open>sampleWindow\<close>\<close>

definition sample_window :: "engine_config \<Rightarrow> nat" where
  "sample_window c =
     max (ec_long_window c) (max (nat (ec_performance_min_samples c)) (max (ec_http_window c) (max (ec_latency_window c)
       (max (nat (ec_transient_failures c)) (max (nat (ec_recovery_successes c)) (ec_cleanup_window c))))))"

definition previous_state_since :: "go_env \<Rightarrow> previous_decision \<Rightarrow> gotime" where
  "previous_state_since env previous =
     (let updated = (case ge_time env (pd_updated_at previous) of Some t \<Rightarrow> t | None \<Rightarrow> zero_time) in
      case map_of (pd_payload previous) ''state_since'' of
        None \<Rightarrow> updated
      | Some raw \<Rightarrow> (case ge_time env (trim_space (sprint env raw)) of Some t \<Rightarrow> t | None \<Rightarrow> updated))"

definition previous_fused_until :: "go_env \<Rightarrow> previous_decision \<Rightarrow> gotime" where
  "previous_fused_until env previous =
     (case metadata_value (pd_payload previous) ''fused_until'' of
        None \<Rightarrow> zero_time
      | Some raw \<Rightarrow> (case ge_time env (trim_space (sprint env raw)) of Some t \<Rightarrow> t | None \<Rightarrow> zero_time))"

text \<open>The rows \<open>evaluateRoutingHealth\<close> judges an account by, and the history it scores.\<close>

definition evidence_source :: "engine_config \<Rightarrow> string" where
  "evidence_source config = (if ec_traffic_enabled config then ''traffic'' else ''active_probe'')"

definition evidence_rows ::
  "go_env \<Rightarrow> routing_account \<Rightarrow> routing_sample list \<Rightarrow> previous_decision \<Rightarrow> engine_config \<Rightarrow> gotime \<Rightarrow>
   routing_sample list \<times> routing_sample list" where
  "evidence_rows env account samples previous config now =
     (let rows = filter_and_limit_samples samples (evidence_source config) (sample_window config * 2);
          (health_rows, performance_rows) = select_routing_evidence rows now (ec_traffic_max_age config)
            (ec_probe_max_age config) (sample_window config);
          health_rows = (if fused_routing_state (acc_effective_state account)
            then with_recovery_probe_evidence health_rows rows now (ec_probe_max_age config) (previous_state_since env previous)
            else health_rows)
      in (with_critical_probe_evidence env health_rows rows now (ec_probe_max_age config) (ec_sample_classification config),
          performance_rows))"

definition evaluate_routing_health ::
  "go_env \<Rightarrow> (string list \<Rightarrow> string list) \<Rightarrow> routing_account \<Rightarrow> routing_sample list \<Rightarrow> previous_decision \<Rightarrow>
   engine_config \<Rightarrow> gotime \<Rightarrow> routing_health_evidence" where
  "evaluate_routing_health env map_order account samples previous config now =
     (let rows = filter_and_limit_samples samples (evidence_source config) (sample_window config * 2);
          (health_rows, performance_rows) = evidence_rows env account samples previous config now;
          placement_rows = take (max (ec_long_window config) (nat (ec_performance_min_samples config))) performance_rows;
          performance_rows = take (ec_long_window config) performance_rows;
          history_rows = (if fused_routing_state (acc_effective_state account) then health_rows
            else select_scoring_history rows health_rows now (ec_history_max_age config) (ec_long_window config));
          health = score_routing_health env (ec_sample_classification config) health_rows history_rows;
          (hp50, hp95, _, _) = performance_latency_summary env map_order performance_rows;
          (p50, p95, count, model) = performance_latency_summary env map_order placement_rows
      in \<lparr>he_health = health\<lparr>h_p50_ms := hp50, h_p95_ms := hp95\<rparr>, he_rows = health_rows,
          he_p50_ms = p50, he_p95_ms = p95, he_samples = count, he_model = model\<rparr>)"

subsection \<open>Recovery\<close>

definition recovery_span :: "routing_sample list \<Rightarrow> nat \<Rightarrow> gotime \<Rightarrow> duration" where
  "recovery_span rows successes now =
     (if successes < 1 \<or> rows = [] then 0
      else case rs_observed_at (rows ! (min successes (length rows) - 1)) of
             None \<Rightarrow> 0
           | Some t \<Rightarrow> max 0 (time_sub now t))"

text \<open>A condition is its code and whether it is met; the detail shown to the user is left out.\<close>

record account_recovery =
  ar_ready :: bool
  ar_conditions :: "(string \<times> bool) list"

definition recovery_status :: "candidate \<Rightarrow> engine_config \<Rightarrow> gotime \<Rightarrow> bool \<Rightarrow> account_recovery" where
  "recovery_status c config now with_cooldown =
     (let span = (case c_recovery_hold_span c of
            Some d \<Rightarrow> d | None \<Rightarrow> recovery_span (c_rows c) (h_recovery_pass_streak (c_health c)) now);
          remaining = \<lceil>max 0 (rat_of_int (time_sub (c_fused_until c) now) / 1000000000)\<rceil>;
          conditions =
            [(''automatic_recovery'', ec_recovery_enabled config),
             (''health_score'', h_health_score (c_health c) \<ge> ec_recovery_target config),
             (''success_streak'', int (h_recovery_pass_streak (c_health c)) \<ge> ec_recovery_successes config),
             (''healthy_hold'', span \<ge> ec_recovery_hold config),
             (''fatal_error'', \<not> h_fatal (c_health c))] @
            (if with_cooldown then [(''fuse_cooldown'', remaining = 0)] else [])
      in \<lparr>ar_ready = list_all snd conditions, ar_conditions = conditions\<rparr>)"

definition recovery_reason :: "account_recovery \<Rightarrow> reason" where
  "recovery_reason status = [M_Waiting (map fst (filter (\<lambda>cm. \<not> snd cm) (ar_conditions status)))]"

text \<open>The evidence kept per request: the first row of each source and request id.\<close>

fun first_requests :: "string list \<Rightarrow> routing_sample list \<Rightarrow> routing_sample list" where
  "first_requests seen [] = []"
| "first_requests seen (row # rows) =
     (let request = text_metadata (rs_payload row) [''request_id''];
          key = rs_source row @ CHR 0x00 # request
      in if request \<noteq> [] \<and> key \<in> set seen then first_requests seen rows
         else row # first_requests (if request \<noteq> [] then key # seen else seen) rows)"

text \<open>\<open>extendRecoveryHold\<close>; the repository's reader of recovery traffic, where it has one, is \<open>reader\<close>.\<close>

definition extend_recovery_hold ::
  "go_env \<Rightarrow> (string \<Rightarrow> gotime \<Rightarrow> gotime \<Rightarrow> string + routing_sample list) option \<Rightarrow> engine_config \<Rightarrow>
   previous_decision \<Rightarrow> gotime \<Rightarrow> candidate \<Rightarrow> string + candidate" where
  "extend_recovery_hold env reader config previous now c =
     (let effective = acc_effective_state (c_account c); streak = h_recovery_pass_streak (c_health c) in
      if \<not> fused_routing_state effective \<and> \<not> degraded_routing_state [effective, pd_state previous] then Inr c
      else if int streak < ec_recovery_successes config \<or> recovery_span (c_rows c) streak now \<ge> ec_recovery_hold config
      then Inr c
      else
        (case reader of
           None \<Rightarrow> Inr c
         | Some read \<Rightarrow>
             if \<not> ec_traffic_enabled config then Inr c
             else
               (case read (c_id c) (now - ec_recovery_hold config) (now + nmin) of
                  Inl e \<Rightarrow> Inl e
                | Inr traffic \<Rightarrow>
                    (let rows = first_requests [] (traffic @ c_rows c);
                         current = fst (select_routing_evidence rows now (ec_traffic_max_age config)
                           (ec_probe_max_age config) (length rows));
                         current = (if fused_routing_state effective
                           then with_recovery_probe_evidence current rows now (ec_probe_max_age config)
                             (previous_state_since env previous)
                           else current);
                         streak = recovery_streak (map (classify_row env (ec_sample_classification config)) current)
                     in Inr (c\<lparr>c_recovery_hold_span := Some (recovery_span current streak now)\<rparr>)))))"

subsection \<open>Counts over the recent evidence\<close>

definition latest_status_in :: "go_env \<Rightarrow> routing_sample list \<Rightarrow> int list \<Rightarrow> bool" where
  "latest_status_in env rows allowed =
     (case rows of
        [] \<Rightarrow> False
      | row # _ \<Rightarrow> allowed \<noteq> [] \<and>
          (case routing_sample_status env row of None \<Rightarrow> False | Some s \<Rightarrow> s \<in> set allowed))"

definition recent_http_failures :: "health \<Rightarrow> nat \<Rightarrow> nat" where
  "recent_http_failures health window =
     length (filter (\<lambda>e. e = Event_Gateway \<or> e = Event_Probe_Failed) (take window (h_events health)))"

definition recent_transient_failures :: "health \<Rightarrow> nat \<Rightarrow> nat" where
  "recent_transient_failures health window =
     length (filter (\<lambda>e. e \<in> {Event_Unknown, Event_Gateway, Event_Probe_Failed, Event_Empty_Response})
       (take window (h_events health)))"

definition retry_recovered_occurrences :: "routing_sample list \<Rightarrow> nat \<Rightarrow> nat" where
  "retry_recovered_occurrences rows window =
     length (filter (\<lambda>row. map_of (rs_payload row) ''retry_recovered'' = Some (GBool True)) (take window rows))"

definition slow_occurrences :: "routing_sample list \<Rightarrow> nat \<Rightarrow> rat \<Rightarrow> nat" where
  "slow_occurrences rows window threshold =
     length (filter
       (\<lambda>row. successful_routing_sample row \<and>
          (case health_latency_ms (bare_sample row) of None \<Rightarrow> False | Some v \<Rightarrow> v > threshold))
       (take window rows))"

subsection \<open>The selected evidence\<close>

interpretation by_time: strict_weak newer
  by unfold_locales (auto simp: newer_def split: option.splits)

lemma set_limited: "set (limited n xs) \<subseteq> set xs"
  by (auto simp: limited_def dest: in_set_takeD)

lemma length_limited: "0 < n \<Longrightarrow> length (limited n xs) \<le> n"
  by (auto simp: limited_def)

lemma sorted_wrt_take: "sorted_wrt P xs \<Longrightarrow> sorted_wrt P (take n xs)"
  using sorted_wrt_append [of P "take n xs" "drop n xs"] by simp

lemma sorted_limited: "sorted_wrt P xs \<Longrightarrow> sorted_wrt P (limited n xs)"
  by (simp add: limited_def sorted_wrt_take)

definition newest_first :: "routing_sample list \<Rightarrow> bool" where
  "newest_first rows \<longleftrightarrow> sorted_wrt (\<lambda>a b. \<not> newer b a) rows"

lemma fresh_source_samples_sound:
  "newest_first (fresh_source_samples rows source now age limit) \<and>
   list_all (\<lambda>r. r \<in> set rows \<and> normalized_source (rs_source r) = source \<and> fresh now age r)
     (fresh_source_samples rows source now age limit) \<and>
   (0 < limit \<longrightarrow> length (fresh_source_samples rows source now age limit) \<le> limit)"
  unfolding fresh_source_samples_def newest_first_def list_all_iff
  using set_limited by (fastforce intro: sorted_limited by_time.sort_by_sorted length_limited)

lemma fresh_observed: "fresh now age r \<Longrightarrow> \<exists>t. rs_observed_at r = Some t"
  by (auto simp: fresh_def split: option.splits)

definition acceptable_evidence :: "gotime \<Rightarrow> duration \<Rightarrow> duration \<Rightarrow> routing_sample list \<Rightarrow> routing_sample \<Rightarrow> bool" where
  "acceptable_evidence now traffic_max_age probe_max_age rows r \<longleftrightarrow>
     r \<in> set rows \<and>
     (normalized_source (rs_source r) = ''traffic'' \<and> fresh now traffic_max_age r \<or>
      normalized_source (rs_source r) = ''active-probe'' \<and> fresh now probe_max_age r)"

lemma sorted_probes_traffic:
  assumes "newest_first probes" "newest_first (t # ts)"
    and "\<And>r. r \<in> set probes \<union> set (t # ts) \<Longrightarrow> rs_observed_at r \<noteq> None"
  shows "newest_first (filter (\<lambda>p. observed_or_zero p > observed_or_zero t) probes @ t # ts)"
proof -
  have "\<not> newer r p" if p: "p \<in> set probes" "observed_or_zero p > observed_or_zero t" and r: "r \<in> set (t # ts)" for p r
  proof -
    have "\<not> newer r t" using assms(2) r by (auto simp: newest_first_def newer_def split: option.splits)
    moreover have "rs_observed_at p \<noteq> None" "rs_observed_at r \<noteq> None" "rs_observed_at t \<noteq> None"
      using assms(3) p(1) r by auto
    ultimately show ?thesis using p(2) by (auto simp: newer_def observed_or_zero_def split: option.splits)
  qed
  then show ?thesis
    using assms(1,2) unfolding newest_first_def sorted_wrt_append
    by (auto simp: sorted_wrt_filter)
qed

lemma select_routing_evidence_sound:
  assumes "0 < limit"
  shows "(case select_routing_evidence rows now traffic_max_age probe_max_age limit of (health_rows, performance_rows) \<Rightarrow>
    newest_first health_rows \<and> newest_first performance_rows \<and>
    length health_rows \<le> limit \<and> length performance_rows \<le> limit \<and>
    list_all (acceptable_evidence now traffic_max_age probe_max_age rows) health_rows \<and>
    list_all (\<lambda>r. r \<in> set rows \<and> normalized_source (rs_source r) = ''traffic'' \<and> fresh now traffic_max_age r)
      performance_rows)"
proof -
  let ?t = "fresh_source_samples rows ''traffic'' now traffic_max_age limit"
  let ?p = "fresh_source_samples rows ''active-probe'' now probe_max_age limit"
  note t = fresh_source_samples_sound [of rows "''traffic''" now traffic_max_age limit]
  note p = fresh_source_samples_sound [of rows "''active-probe''" now probe_max_age limit]
  show ?thesis
  proof (cases ?t)
    case Nil
    then show ?thesis using p assms
      by (auto simp: select_routing_evidence_def list_all_iff acceptable_evidence_def newest_first_def)
  next
    case (Cons r rs)
    have "rs_observed_at q \<noteq> None" if "q \<in> set ?p \<union> set (r # rs)" for q
      using t p that Cons fresh_observed by (fastforce simp: list_all_iff)
    then have "newest_first (filter (\<lambda>p. observed_or_zero p > observed_or_zero r) ?p @ r # rs)"
      using sorted_probes_traffic t p Cons by auto
    then have "newest_first (take limit (filter (\<lambda>p. observed_or_zero p > observed_or_zero r) ?p @ r # rs))"
      unfolding newest_first_def by (rule sorted_wrt_take)
    moreover have "list_all (acceptable_evidence now traffic_max_age probe_max_age rows)
        (take limit (filter (\<lambda>p. observed_or_zero p > observed_or_zero r) ?p @ r # rs))"
      unfolding list_all_iff
    proof
      fix q
      assume "q \<in> set (take limit (filter (\<lambda>p. observed_or_zero p > observed_or_zero r) ?p @ r # rs))"
      then have "q \<in> set ?p \<or> q \<in> set (r # rs)" by (auto dest: in_set_takeD)
      then show "acceptable_evidence now traffic_max_age probe_max_age rows q"
        using t p Cons by (auto simp: list_all_iff acceptable_evidence_def)
    qed
    ultimately show ?thesis using t assms Cons unfolding select_routing_evidence_def Let_def by simp
  qed
qed

lemma length_fresh_source: "length (fresh_source_samples rows source now age limit) \<le> length rows"
proof -
  have "length (limited n xs) \<le> length xs" for n and xs :: "routing_sample list" by (simp add: limited_def)
  then show ?thesis
    unfolding fresh_source_samples_def using length_filter_le le_trans by (metis mset_sort_by size_mset)
qed

text \<open>The recovery evidence of a fused account and the latest fatal probe keep what the selection gives.\<close>

lemma newest_first_filter: "newest_first rows \<Longrightarrow> newest_first (filter P rows)"
  by (simp add: newest_first_def sorted_wrt_filter)

lemma with_recovery_sound:
  assumes "newest_first hs" "list_all (acceptable_evidence now ta pa rows) hs" "length hs \<le> n"
  shows "newest_first (with_recovery_probe_evidence hs rows now pa since) \<and>
    list_all (acceptable_evidence now ta pa rows) (with_recovery_probe_evidence hs rows now pa since) \<and>
    length (with_recovery_probe_evidence hs rows now pa since) \<le> max n (length rows)"
proof -
  let ?p = "fresh_source_samples rows ''active-probe'' now pa (length rows)"
  note p = fresh_source_samples_sound [of rows "''active-probe''" now pa "length rows"]
  have "newest_first (filter P ?p) \<and> list_all (acceptable_evidence now ta pa rows) (filter P ?p) \<and> length (filter P ?p) \<le> length rows" for P
    using p newest_first_filter le_trans [OF length_filter_le [of P ?p] length_fresh_source]
    by (auto simp: list_all_iff acceptable_evidence_def)
  moreover have "newest_first (filter P hs) \<and> list_all (acceptable_evidence now ta pa rows) (filter P hs) \<and> length (filter P hs) \<le> n" for P
    using assms newest_first_filter le_trans [OF length_filter_le [of P hs] assms(3)] by (auto simp: list_all_iff)
  ultimately show ?thesis unfolding with_recovery_probe_evidence_def Let_def by (simp add: le_max_iff_disj)
qed

lemma with_critical_sound:
  assumes "newest_first hs" "list_all (acceptable_evidence now ta pa rows) hs"
  shows "newest_first (with_critical_probe_evidence env hs rows now pa config) \<and>
    list_all (acceptable_evidence now ta pa rows) (with_critical_probe_evidence env hs rows now pa config) \<and>
    length (with_critical_probe_evidence env hs rows now pa config) \<le> Suc (length hs)"
proof (cases "with_critical_probe_evidence env hs rows now pa config = hs")
  case False
  let ?p = "fresh_source_samples rows ''active-probe'' now pa (length rows)"
  obtain latest ps where p: "?p = latest # ps"
    using False by (cases ?p) (auto simp: with_critical_probe_evidence_def)
  obtain t where t: "rs_observed_at latest = Some t"
    using False p by (cases "rs_observed_at latest") (auto simp: with_critical_probe_evidence_def split: if_splits)
  have c: "with_critical_probe_evidence env hs rows now pa config = latest # hs"
    and newest: "case hs of [] \<Rightarrow> True | h # _ \<Rightarrow> newer latest h"
    using False p t by (cases hs; auto simp: with_critical_probe_evidence_def newer_def split: option.splits if_splits)+
  have "acceptable_evidence now ta pa rows latest"
    using fresh_source_samples_sound [of rows "''active-probe''" now pa "length rows"] by (simp add: p acceptable_evidence_def)
  moreover have "\<not> newer q latest" if q: "q \<in> set hs" for q
  proof -
    obtain h hs' where hs: "hs = h # hs'" using q by (cases hs) auto
    have "\<not> newer q h" using assms(1) q by (auto simp: hs newest_first_def newer_def split: option.splits)
    then show ?thesis using newest hs t by (auto simp: newer_def split: option.splits)
  qed
  ultimately show ?thesis using assms by (simp add: c newest_first_def)
qed (use assms in simp)

lemma acceptable_limited:
  "acceptable_evidence now ta pa (filter_and_limit_samples samples source n) r \<Longrightarrow> acceptable_evidence now ta pa samples r"
  using set_limited [of n "filter_source source samples"]
  by (auto simp: acceptable_evidence_def filter_and_limit_samples_def filter_source_def)

text \<open>C24: the evidence an account is judged by is current. The rows \<open>evaluateRoutingHealth\<close> keeps for its
  health, also those that replace them while the account is fused and the latest fatal probe put in front,
  are rows of the account, newest first, each no older than its source's maximal age (and not from the
  future, beyond one minute); there are at most as many as the sample window, or twice as many for a fused
  account, and one critical probe. The performance rows are real traffic, newest first, within the window.\<close>

theorem account_evidence_fresh_newest_first:
  assumes "0 < sample_window config"
    and "evidence_rows env account samples previous config now = (health_rows, performance_rows)"
  shows "newest_first health_rows \<and> newest_first performance_rows \<and>
    length health_rows \<le> Suc ((if fused_routing_state (acc_effective_state account) then 2 else 1) * sample_window config) \<and>
    length performance_rows \<le> sample_window config \<and>
    list_all (acceptable_evidence now (ec_traffic_max_age config) (ec_probe_max_age config) samples) health_rows \<and>
    list_all (\<lambda>r. r \<in> set samples \<and> normalized_source (rs_source r) = ''traffic'' \<and> fresh now (ec_traffic_max_age config) r)
      performance_rows"
proof -
  let ?n = "sample_window config" and ?ta = "ec_traffic_max_age config" and ?pa = "ec_probe_max_age config"
  let ?rows = "filter_and_limit_samples samples (evidence_source config) (?n * 2)"
  let ?fused = "fused_routing_state (acc_effective_state account)"
  obtain hs ps where sel: "select_routing_evidence ?rows now ?ta ?pa ?n = (hs, ps)" by (metis surj_pair)
  define hs' where "hs' = (if ?fused then with_recovery_probe_evidence hs ?rows now ?pa (previous_state_since env previous) else hs)"
  have parts: "health_rows = with_critical_probe_evidence env hs' ?rows now ?pa (ec_sample_classification config)"
    "performance_rows = ps"
    using assms(2) by (simp_all add: evidence_rows_def Let_def sel hs'_def)
  have s: "newest_first hs" "newest_first ps" "length hs \<le> ?n" "length ps \<le> ?n"
    "list_all (acceptable_evidence now ?ta ?pa ?rows) hs"
    "list_all (\<lambda>r. r \<in> set ?rows \<and> normalized_source (rs_source r) = ''traffic'' \<and> fresh now ?ta r) ps"
    using select_routing_evidence_sound [OF assms(1), where rows = ?rows and now = now and traffic_max_age = ?ta and probe_max_age = ?pa]
    unfolding sel by auto
  have "length ?rows \<le> 2 * ?n"
    using assms(1) length_limited [of "?n * 2"] by (simp add: filter_and_limit_samples_def mult.commute)
  then have h: "newest_first hs'" "list_all (acceptable_evidence now ?ta ?pa ?rows) hs'"
    "length hs' \<le> (if ?fused then 2 else 1) * ?n"
    using with_recovery_sound [OF s(1,5,3), of "previous_state_since env previous"] s by (auto simp: hs'_def)
  have sub: "set ?rows \<subseteq> set samples"
    using set_limited [of "?n * 2" "filter_source (evidence_source config) samples"]
    by (auto simp: filter_and_limit_samples_def filter_source_def)
  show ?thesis
    using with_critical_sound [OF h(1,2), of env "ec_sample_classification config"] h(3) s(2,4,6) sub acceptable_limited
    by (auto simp: parts list_all_iff)
qed

definition sample_rows :: "routing_sample list" where
  "sample_rows =
     (let row = (\<lambda>src t. \<lparr>rs_account_id = ''1'', rs_evidence_key = [], rs_group_name = ''g'', rs_result = ''ok'',
            rs_latency_p95 = None, rs_failure_reason = [], rs_source = src, rs_observed_at = Some t, rs_payload = []\<rparr>)
      in [row ''traffic'' 50, row ''active_probe'' 90, row ''active_probe'' 10])"

definition sample_evidence_config :: engine_config where
  "sample_evidence_config = plain_config\<lparr>ec_traffic_enabled := True, ec_traffic_max_age := 60, ec_probe_max_age := 60\<rparr>"

definition sample_previous :: previous_decision where
  "sample_previous =
     \<lparr>pd_account_id = ''1'', pd_group_name = ''g'', pd_priority = None, pd_schedulable = None, pd_state = ''fused'', pd_updated_at = [],
      pd_last_apply_at = zero_time, pd_last_weight_write_at = zero_time, pd_last_scaling_write_at = zero_time, pd_payload = []\<rparr>"

definition sample_evidence :: "routing_sample list \<times> routing_sample list" where
  "sample_evidence = evidence_rows plain_env ((plain_account ''1'' ''g'')\<lparr>acc_effective_state := ''fused''\<rparr>)
     sample_rows sample_previous sample_evidence_config 100"

lemma sample_evidence_rows: "map rs_observed_at (fst sample_evidence) = [Some 90]" "map rs_observed_at (snd sample_evidence) = [Some 50]"
  by code_simp+

theorem account_evidence_fresh_newest_first_witness:
  "newest_first (fst sample_evidence) \<and> map rs_observed_at (fst sample_evidence) = [Some 90] \<and>
    list_all (acceptable_evidence 100 60 60 sample_rows) (fst sample_evidence)"
proof -
  have "0 < sample_window sample_evidence_config" by code_simp
  moreover have "evidence_rows plain_env ((plain_account ''1'' ''g'')\<lparr>acc_effective_state := ''fused''\<rparr>)
     sample_rows sample_previous sample_evidence_config 100 = (fst sample_evidence, snd sample_evidence)"
    by (simp add: sample_evidence_def)
  ultimately have "newest_first (fst sample_evidence) \<and>
      list_all (acceptable_evidence 100 (ec_traffic_max_age sample_evidence_config) (ec_probe_max_age sample_evidence_config) sample_rows)
        (fst sample_evidence)"
    using account_evidence_fresh_newest_first by blast
  then show ?thesis using sample_evidence_rows by (simp add: sample_evidence_config_def)
qed

subsection \<open>The dominant model\<close>

definition dominates :: "(string \<Rightarrow> nat) \<Rightarrow> string \<Rightarrow> string \<Rightarrow> bool" where
  "dominates counts r m \<longleftrightarrow> counts m < counts r \<or> (counts m = counts r \<and> r \<le> m)"

lemma dominates_trans: "dominates counts a b \<Longrightarrow> dominates counts b c \<Longrightarrow> dominates counts a c"
  by (auto simp: dominates_def)

lemma dominant_from_sound:
  "counts r = best \<Longrightarrow>
   dominant_from counts ms (r, best) \<in> set (r # ms) \<and>
   list_all (dominates counts (dominant_from counts ms (r, best))) (r # ms)"
proof (induction ms arbitrary: r best)
  case Nil
  then show ?case by (simp add: dominates_def)
next
  case (Cons m ms)
  show ?case
  proof (cases "counts m > best \<or> (counts m = best \<and> m < r)")
    case True
    then have "dominates counts m r" using Cons.prems by (auto simp: dominates_def)
    then show ?thesis using True Cons.IH [of m "counts m"] dominates_trans [of counts _ m r] by auto
  next
    case False
    then have "dominates counts r m" using Cons.prems by (auto simp: dominates_def)
    moreover have "dominant_from counts (m # ms) (r, best) = dominant_from counts ms (r, best)" using False by auto
    ultimately show ?thesis using Cons.IH [OF Cons.prems] dominates_trans [of counts _ r m] by auto
  qed
qed

text \<open>C25: the model a latency summary speaks of does not depend on the order in which Go ranges over the
  counts: it is the most frequent model, and of several the least.\<close>

theorem dominant_model_order_free:
  assumes "order \<noteq> []" and "list_all (\<lambda>m. 0 < counts m) order" and "set order' = set order"
  shows "dominant_model counts order \<in> set order \<and>
    list_all (dominates counts (dominant_model counts order)) order \<and>
    dominant_model counts order' = dominant_model counts order"
proof -
  have sound: "dominant_model counts ms \<in> set ms \<and> list_all (dominates counts (dominant_model counts ms)) ms"
    if "ms \<noteq> []" "list_all (\<lambda>m. 0 < counts m) ms" for ms
  proof (cases ms)
    case (Cons m rest)
    then have "dominant_model counts ms = dominant_from counts rest (m, counts m)"
      using that by (simp add: dominant_model_def)
    then show ?thesis using dominant_from_sound [of counts m "counts m" rest] Cons by simp
  qed (use that in simp)
  have "order' \<noteq> []" "list_all (\<lambda>m. 0 < counts m) order'" using assms by (auto simp: list_all_iff)
  then have a: "dominant_model counts order' \<in> set order" "list_all (dominates counts (dominant_model counts order')) order"
    using sound [of order'] assms(3) by (auto simp: list_all_iff)
  note b = sound [OF assms(1,2)]
  have "dominates counts (dominant_model counts order') (dominant_model counts order)"
    "dominates counts (dominant_model counts order) (dominant_model counts order')"
    using a b by (auto simp: list_all_iff)
  then have "dominant_model counts order' = dominant_model counts order" by (auto simp: dominates_def)
  then show ?thesis using b by simp
qed

theorem dominant_model_order_free_witness:
  "dominant_model (\<lambda>m. 2) [''b'', ''a''] \<in> set [''b'', ''a''] \<and>
    list_all (dominates (\<lambda>m. 2) (dominant_model (\<lambda>m. 2) [''b'', ''a''])) [''b'', ''a''] \<and>
    dominant_model (\<lambda>m. 2) [''a'', ''b''] = dominant_model (\<lambda>m. 2) [''b'', ''a'']"
  by (rule dominant_model_order_free) auto

subsection \<open>Evidence of a fused account\<close>

lemma with_recovery_post_fuse:
  "list_all (observed_after since) (with_recovery_probe_evidence hs rows now age since)"
proof -
  have cut: "since \<le> latest_traffic_after since xs" for xs
  proof -
    have "cutoff \<le> latest_traffic_after cutoff xs" for cutoff
    proof (induction xs arbitrary: cutoff)
      case (Cons x xs)
      show ?case using Cons [of cutoff] Cons [of "the (rs_observed_at x)"]
        by (auto split: option.splits)
    qed simp
    then show ?thesis .
  qed
  then show ?thesis
    by (auto simp: with_recovery_probe_evidence_def Let_def list_all_iff observed_after_def
        split: option.splits intro: le_less_trans [OF cut])
qed

lemma with_critical_shape:
  "with_critical_probe_evidence env hs rows now age config = hs \<or>
   (\<exists>p. with_critical_probe_evidence env hs rows now age config = p # hs \<and> cl_fatal (classify_row env config p))"
  by (auto simp: with_critical_probe_evidence_def split: list.splits option.splits)

lemma evidence_rows_post_fuse:
  fixes env samples previous config now
  assumes "fused_routing_state (acc_effective_state account)"
  defines "rows \<equiv> fst (evidence_rows env account samples previous config now)"
  shows "list_all (observed_after (previous_state_since env previous)) rows \<or>
    (\<exists>p hs. rows = p # hs \<and> cl_fatal (classify_row env (ec_sample_classification config) p))"
proof -
  let ?all = "filter_and_limit_samples samples (evidence_source config) (sample_window config * 2)"
  obtain hs0 ps where sel: "select_routing_evidence ?all now (ec_traffic_max_age config) (ec_probe_max_age config)
      (sample_window config) = (hs0, ps)" by (metis surj_pair)
  let ?hs = "with_recovery_probe_evidence hs0 ?all now (ec_probe_max_age config) (previous_state_since env previous)"
  have rows: "rows = with_critical_probe_evidence env ?hs ?all now (ec_probe_max_age config) (ec_sample_classification config)"
    unfolding rows_def evidence_rows_def Let_def sel using assms(1) by simp
  show ?thesis
    using with_critical_shape [of env ?hs ?all now "ec_probe_max_age config" "ec_sample_classification config"]
      with_recovery_post_fuse [of "previous_state_since env previous" hs0 ?all now "ec_probe_max_age config"]
    unfolding rows [symmetric] by auto
qed

end
