(* ===== verification/Fuse_Budget.thy ===== *)
theory Fuse_Budget
  imports Sample_Round
begin

text \<open>
  The fuse budgets of a round (routing/service.go, \<open>applyFuseBudgets\<close>): the pending fuses of the
  round, worst first, are confirmed one account at a time, unless the soft budget of an affected group
  is spent or the group would fall below its minimum pool.

  The code ranges over two Go maps, whose order is unspecified; the arguments \<open>groups_order\<close> and
  \<open>accounts_order\<close> are the orders in which the groups and the collected requests come up. A group's
  empty name doubles as "no group" in the code, and it does here.
\<close>

record fuse_request =
  fr_account_id :: string
  fr_kind :: string
  fr_health_score :: rat
  fr_trigger_group :: string
  fr_reason :: reason

subsection \<open>Collecting and ordering the requests\<close>

definition request_of :: "string \<Rightarrow> candidate \<Rightarrow> fuse_request" where
  "request_of group_name c =
     \<lparr>fr_account_id = c_id c, fr_kind = c_fuse_kind c, fr_health_score = h_health_score (c_health c),
      fr_trigger_group = group_name, fr_reason = c_reason c\<rparr>"

definition collect_request :: "string \<Rightarrow> candidate \<Rightarrow> (string \<rightharpoonup> fuse_request) \<Rightarrow> (string \<rightharpoonup> fuse_request)" where
  "collect_request group_name c reqs =
     (if c_state c \<noteq> ''fuse_pending'' then reqs
      else
        let replace = (case reqs (c_id c) of
              None \<Rightarrow> True
            | Some r \<Rightarrow> (c_fuse_kind c = ''hard'' \<and> fr_kind r \<noteq> ''hard'') \<or>
                (c_fuse_kind c = fr_kind r \<and> h_health_score (c_health c) < fr_health_score r))
        in if replace then reqs(c_id c \<mapsto> request_of group_name c) else reqs)"

definition collect_requests :: "string list \<Rightarrow> round \<Rightarrow> (string \<rightharpoonup> fuse_request)" where
  "collect_requests groups_order cs =
     fold (\<lambda>g reqs. fold (collect_request g) (group_members g cs) reqs) groups_order Map.empty"

definition request_before :: "fuse_request \<Rightarrow> fuse_request \<Rightarrow> bool" where
  "request_before l r =
     (if fr_kind l \<noteq> fr_kind r then fr_kind l = ''hard''
      else if fr_health_score l \<noteq> fr_health_score r then fr_health_score l < fr_health_score r
      else stable_id_less (fr_account_id r) (fr_account_id l))"

definition ordered_requests :: "string list \<Rightarrow> (string \<rightharpoonup> fuse_request) \<Rightarrow> fuse_request list" where
  "ordered_requests accounts_order reqs =
     sort_by request_before (List.map_filter reqs accounts_order)"

subsection \<open>The guards\<close>

definition account_already_fused :: "candidate list \<Rightarrow> bool" where
  "account_already_fused items = list_ex (\<lambda>c. c_state c = ''fused'') items"

definition fuse_affected_group_names :: "candidate list \<Rightarrow> string list" where
  "fuse_affected_group_names items = sort (remdups (map c_group items))"

fun first_group :: "(string \<Rightarrow> bool) \<Rightarrow> string list \<Rightarrow> string" where
  "first_group p [] = []"
| "first_group p (g # gs) = (if p g then g else first_group p gs)"

definition soft_fuse_limit_group :: "configs \<Rightarrow> (string \<Rightarrow> int) \<Rightarrow> candidate list \<Rightarrow> string" where
  "soft_fuse_limit_group configs used items =
     first_group (\<lambda>g. used g \<ge> ec_max_switch (configs g)) (fuse_affected_group_names items)"

definition available_for_minimum_pool :: "go_env \<Rightarrow> gotime \<Rightarrow> candidate \<Rightarrow> bool" where
  "available_for_minimum_pool env now c =
     (if \<not> c_schedulable c \<and> c_state c \<noteq> ''fuse_pending'' then False
      else if c_state c \<in> {''excluded'', ''paused'', ''disabled'', ''fused'', ''binding_invalid'', ''cost_blocked''}
        then False
      else
        let kind = account_block env (c_account c) now in
        if kind \<noteq> [] \<and> kind \<noteq> ''unschedulable'' then False
        else if c_state c = ''survivor'' then True
        else acc_schedulable (c_account c) = Some True)"

definition counts_for_minimum_pool :: "go_env \<Rightarrow> gotime \<Rightarrow> engine_config \<Rightarrow> string \<Rightarrow> candidate \<Rightarrow> bool" where
  "counts_for_minimum_pool env now config account_id other =
     (if c_id other = account_id \<or> \<not> available_for_minimum_pool env now other then False
      else if c_state other = ''survivor'' \<or> c_state other = ''fuse_pending'' then True
      else h_sample_count (c_health other) = 0 \<or> h_health_score (c_health other) \<ge> ec_min_pool_score config)"

definition minimum_pool_blocked_group ::
  "go_env \<Rightarrow> gotime \<Rightarrow> configs \<Rightarrow> string \<Rightarrow> candidate list \<Rightarrow> round \<Rightarrow> string" where
  "minimum_pool_blocked_group env now configs account_id memberships cs =
     first_group
       (\<lambda>g. int (length (filter (counts_for_minimum_pool env now (configs g) account_id) (group_members g cs)))
            < ec_min_pool (configs g))
       (fuse_affected_group_names memberships)"

subsection \<open>Resolving a request\<close>

definition fused_member :: "gotime \<Rightarrow> reason \<Rightarrow> candidate \<Rightarrow> candidate" where
  "fused_member fused_until reason c =
     (if c_state c \<in> {''excluded'', ''paused'', ''disabled''} then c
      else c\<lparr>c_state := ''fused'', c_schedulable := False, c_fused_until := fused_until, c_reason := reason\<rparr>)"

definition resolve_account_fuse :: "fuse_request \<Rightarrow> configs \<Rightarrow> gotime \<Rightarrow> round \<Rightarrow> round" where
  "resolve_account_fuse req configs now cs =
     (let a = fr_account_id req;
          fused_until = (case primary_membership (account_members a cs) of
              None \<Rightarrow> zero_time
            | Some p \<Rightarrow> now + ec_fused_cooldown (configs (c_group p)))
      in update_account a (fused_member fused_until (fr_reason req)) cs)"

definition fallback_state :: "engine_config \<Rightarrow> candidate \<Rightarrow> string" where
  "fallback_state config c =
     (if ec_degrade_enabled config then ''degraded''
      else if h_sample_count (c_health c) > 0 then ''healthy'' else ''unknown'')"

definition resolve_pending_fallback :: "string \<Rightarrow> configs \<Rightarrow> reason \<Rightarrow> round \<Rightarrow> round" where
  "resolve_pending_fallback a configs reason cs =
     update_account a
       (\<lambda>c. if c_state c \<noteq> ''fuse_pending'' then c
            else c\<lparr>c_state := fallback_state (configs (c_group c)) c,
                   c_schedulable := remote_schedulable (c_account c), c_reason := reason\<rparr>) cs"

definition keep_survivor :: "string \<Rightarrow> string \<Rightarrow> round \<Rightarrow> round" where
  "keep_survivor a blocked_group cs =
     update_account a
       (\<lambda>c. if c_state c = ''fuse_pending''
            then c\<lparr>c_state := ''survivor'', c_schedulable := True,
                   c_reason := M_Survivor # c_reason c @ [M_Survivor_Group blocked_group]\<rparr>
            else c) cs"

definition spend :: "string list \<Rightarrow> (string \<Rightarrow> int) \<Rightarrow> (string \<Rightarrow> int)" where
  "spend gs used = (\<lambda>g. if g \<in> set gs then used g + 1 else used g)"

text \<open>How one request of the round ends.\<close>

datatype fuse_outcome = Already_Fused | Soft_Limited | Pool_Protected | Fused

definition fuse_outcome_of ::
  "go_env \<Rightarrow> gotime \<Rightarrow> configs \<Rightarrow> fuse_request \<Rightarrow> round \<times> (string \<Rightarrow> int) \<Rightarrow> fuse_outcome \<times> string" where
  "fuse_outcome_of env now configs req st =
     (let (cs, used) = st;
          memberships = account_members (fr_account_id req) cs
      in if account_already_fused memberships then (Already_Fused, [])
         else
           let limited = (if fr_kind req = ''soft'' then soft_fuse_limit_group configs used memberships else []) in
           if limited \<noteq> [] then (Soft_Limited, limited)
           else
             let blocked = minimum_pool_blocked_group env now configs (fr_account_id req) memberships cs in
             if blocked \<noteq> [] then (Pool_Protected, blocked) else (Fused, []))"

definition resolve_request ::
  "go_env \<Rightarrow> gotime \<Rightarrow> configs \<Rightarrow> fuse_request \<Rightarrow> round \<times> (string \<Rightarrow> int) \<Rightarrow> round \<times> (string \<Rightarrow> int)" where
  "resolve_request env now configs req st =
     (let (cs, used) = st;
          a = fr_account_id req;
          memberships = account_members a cs;
          (outcome, g) = fuse_outcome_of env now configs req st
      in case outcome of
           Already_Fused \<Rightarrow> (resolve_account_fuse req configs now cs, used)
         | Soft_Limited \<Rightarrow> (resolve_pending_fallback a configs [M_Soft_Limit g] cs, used)
         | Pool_Protected \<Rightarrow> (keep_survivor a g cs, used)
         | Fused \<Rightarrow> (resolve_account_fuse req configs now cs,
             if fr_kind req = ''soft'' then spend (fuse_affected_group_names memberships) used else used))"

definition apply_fuse_budgets ::
  "go_env \<Rightarrow> gotime \<Rightarrow> configs \<Rightarrow> string list \<Rightarrow> string list \<Rightarrow> round \<Rightarrow> round" where
  "apply_fuse_budgets env now configs groups_order accounts_order cs =
     fst (fold (resolve_request env now configs)
            (ordered_requests accounts_order (collect_requests groups_order cs)) (cs, \<lambda>_. 0))"

subsection \<open>The requests\<close>

lemma collect_request_sound:
  assumes "collect_request g c reqs a = Some r"
  shows "reqs a = Some r \<or> (c_state c = ''fuse_pending'' \<and> c_id c = a \<and> r = request_of g c)"
  using assms by (auto simp: collect_request_def Let_def split: if_splits option.splits)

lemma collect_request_mono: "reqs a \<noteq> None \<Longrightarrow> collect_request g c reqs a \<noteq> None"
  by (auto simp: collect_request_def Let_def)

lemma collect_request_pending: "c_state c = ''fuse_pending'' \<Longrightarrow> collect_request g c reqs (c_id c) \<noteq> None"
  by (auto simp: collect_request_def Let_def split: option.splits)

lemma fold_collect_sound:
  "fold (collect_request g) items reqs a = Some r \<Longrightarrow>
   reqs a = Some r \<or> (\<exists>c \<in> set items. c_state c = ''fuse_pending'' \<and> c_id c = a \<and> r = request_of g c)"
proof (induction items arbitrary: reqs)
  case (Cons c items)
  then have "collect_request g c reqs a = Some r \<or>
      (\<exists>c \<in> set items. c_state c = ''fuse_pending'' \<and> c_id c = a \<and> r = request_of g c)" by simp
  then show ?case using collect_request_sound [of g c reqs a r] by auto
qed simp

lemma fold_collect_mono: "reqs a \<noteq> None \<Longrightarrow> fold (collect_request g) items reqs a \<noteq> None"
  by (rule fold_invariant [where P = "\<lambda>reqs. reqs a \<noteq> None"]) (assumption, rule collect_request_mono)

lemma fold_collect_pending:
  "c \<in> set items \<Longrightarrow> c_state c = ''fuse_pending'' \<Longrightarrow> fold (collect_request g) items reqs (c_id c) \<noteq> None"
proof (induction items arbitrary: reqs)
  case (Cons d items)
  then show ?case
    using fold_collect_mono [of "collect_request g d reqs" "c_id d" g items] collect_request_pending [of d g reqs]
    by (cases "c = d") auto
qed simp

lemma collect_requests_sound:
  assumes "collect_requests gs cs a = Some r"
  shows "fr_account_id r = a \<and> (\<exists>c \<in> set cs. c_state c = ''fuse_pending'' \<and> c_id c = a)"
proof -
  have "fold (\<lambda>g reqs. fold (collect_request g) (group_members g cs) reqs) gs reqs a = Some r \<Longrightarrow>
      reqs a = Some r \<or> (\<exists>g. \<exists>c \<in> set cs. c_state c = ''fuse_pending'' \<and> c_id c = a \<and> r = request_of g c)" for reqs
  proof (induction gs arbitrary: reqs)
    case (Cons g gs)
    then show ?case using fold_collect_sound [of g "group_members g cs" reqs a r] by fastforce
  qed simp
  from this [of Map.empty] assms show ?thesis by (auto simp: collect_requests_def request_of_def)
qed

lemma collect_requests_complete:
  assumes "c \<in> set cs" "c_state c = ''fuse_pending''" "c_group c \<in> set gs"
  shows "collect_requests gs cs (c_id c) \<noteq> None"
proof -
  have mono': "fold (\<lambda>g reqs. fold (collect_request g) (group_members g cs) reqs) gs reqs a \<noteq> None"
    if "reqs a \<noteq> None" for reqs :: "string \<rightharpoonup> fuse_request" and a gs
    by (rule fold_invariant [where P = "\<lambda>reqs. reqs a \<noteq> None"]) (rule that, rule fold_collect_mono)
  have "fold (\<lambda>g reqs. fold (collect_request g) (group_members g cs) reqs) gs reqs (c_id c) \<noteq> None" for reqs
    using assms(3)
  proof (induction gs arbitrary: reqs)
    case (Cons g gs)
    show ?case
    proof (cases "c_group c = g")
      case True
      have "fold (collect_request g) (group_members g cs) reqs (c_id c) \<noteq> None"
        by (rule fold_collect_pending) (use assms True in auto)
      then show ?thesis using mono' by simp
    next
      case False
      then show ?thesis using Cons by auto
    qed
  qed simp
  then show ?thesis by (simp add: collect_requests_def)
qed

lemma ordered_requests_mem:
  "r \<in> set (ordered_requests as reqs) \<longleftrightarrow> (\<exists>a \<in> set as. reqs a = Some r)"
  by (auto simp: ordered_requests_def List.map_filter_def image_iff)

lemma map_filter_ids:
  "(\<And>a r. reqs a = Some r \<Longrightarrow> fr_account_id r = a) \<Longrightarrow> map fr_account_id (List.map_filter reqs as) = filter (\<lambda>a. reqs a \<noteq> None) as"
  by (induction as) (auto simp: List.map_filter_simps split: option.splits)

lemma ordered_requests_distinct:
  assumes "\<And>a r. reqs a = Some r \<Longrightarrow> fr_account_id r = a" "distinct as"
  shows "distinct (map fr_account_id (ordered_requests as reqs))"
proof -
  have "mset (map fr_account_id (ordered_requests as reqs)) = mset (map fr_account_id (List.map_filter reqs as))"
    by (simp add: ordered_requests_def)
  then have "distinct (map fr_account_id (ordered_requests as reqs)) \<longleftrightarrow>
      distinct (map fr_account_id (List.map_filter reqs as))" by (rule mset_eq_imp_distinct_iff)
  then show ?thesis using assms by (simp add: map_filter_ids)
qed

subsection \<open>One request\<close>

definition fallback_member :: "configs \<Rightarrow> reason \<Rightarrow> candidate \<Rightarrow> candidate" where
  "fallback_member configs reason c =
     (if c_state c \<noteq> ''fuse_pending'' then c
      else c\<lparr>c_state := fallback_state (configs (c_group c)) c,
             c_schedulable := remote_schedulable (c_account c), c_reason := reason\<rparr>)"

definition survivor_member :: "string \<Rightarrow> candidate \<Rightarrow> candidate" where
  "survivor_member g c =
     (if c_state c = ''fuse_pending''
      then c\<lparr>c_state := ''survivor'', c_schedulable := True,
             c_reason := M_Survivor # c_reason c @ [M_Survivor_Group g]\<rparr>
      else c)"

lemma members_keep_account:
  "keeps_account (fused_member t why)" "keeps_account (fallback_member configs why)" "keeps_account (survivor_member g)"
  by (simp_all add: keeps_account_def fused_member_def fallback_member_def survivor_member_def)

lemma fallback_state_range: "fallback_state config c \<in> {''degraded'', ''healthy'', ''unknown''}"
  by (simp add: fallback_state_def)

text \<open>The update a request ends in, and what its outcome tells of the guards.\<close>

lemma resolve_request_cases:
  assumes "resolve_request env now configs r (cs, used) = (ds, used')"
  defines "a \<equiv> fr_account_id r"
  defines "ms \<equiv> account_members a cs"
  obtains
    (already) t where "account_already_fused ms" "ds = update_account a (fused_member t (fr_reason r)) cs" "used' = used"
  | (limited) g where "\<not> account_already_fused ms" "ds = update_account a (fallback_member configs [M_Soft_Limit g]) cs"
      "used' = used"
  | (survivor) g where "\<not> account_already_fused ms" "ds = update_account a (survivor_member g) cs" "used' = used"
  | (fused) t where "\<not> account_already_fused ms" "ds = update_account a (fused_member t (fr_reason r)) cs"
      "used' = (if fr_kind r = ''soft'' then spend (fuse_affected_group_names ms) used else used)"
      "fr_kind r = ''soft'' \<longrightarrow> soft_fuse_limit_group configs used ms = []"
      "minimum_pool_blocked_group env now configs a ms cs = []"
proof -
  let ?L = "if fr_kind r = ''soft'' then soft_fuse_limit_group configs used ms else []"
  let ?B = "minimum_pool_blocked_group env now configs a ms cs"
  have fuse: "\<exists>t. resolve_account_fuse r configs now cs = update_account a (fused_member t (fr_reason r)) cs"
    by (auto simp: resolve_account_fuse_def a_def Let_def)
  have fb: "resolve_pending_fallback a configs why cs = update_account a (fallback_member configs why) cs" for why
    by (simp add: resolve_pending_fallback_def fallback_member_def [abs_def])
  have sv: "keep_survivor a g cs = update_account a (survivor_member g) cs" for g
    by (simp add: keep_survivor_def survivor_member_def [abs_def])
  consider "account_already_fused ms" | "\<not> account_already_fused ms" "?L \<noteq> []"
    | "\<not> account_already_fused ms" "?L = []" "?B \<noteq> []" | "\<not> account_already_fused ms" "?L = []" "?B = []" by blast
  then show ?thesis
  proof cases
    case 1
    then have "ds = resolve_account_fuse r configs now cs" "used' = used"
      using assms(1) by (auto simp: resolve_request_def fuse_outcome_of_def ms_def a_def Let_def)
    then show ?thesis using already 1 fuse by blast
  next
    case 2
    then have "ds = resolve_pending_fallback a configs [M_Soft_Limit ?L] cs" "used' = used"
      using assms(1) by (auto simp: resolve_request_def fuse_outcome_of_def ms_def a_def Let_def split: if_splits)
    then show ?thesis using limited 2 fb by blast
  next
    case 3
    then have "ds = keep_survivor a ?B cs" "used' = used"
      using assms(1) by (auto simp: resolve_request_def fuse_outcome_of_def ms_def a_def Let_def split: if_splits)
    then show ?thesis using survivor 3 sv by blast
  next
    case 4
    then have "ds = resolve_account_fuse r configs now cs"
      "used' = (if fr_kind r = ''soft'' then spend (fuse_affected_group_names ms) used else used)"
      using assms(1) by (auto simp: resolve_request_def fuse_outcome_of_def ms_def a_def Let_def split: if_splits)
    moreover have "fr_kind r = ''soft'' \<longrightarrow> soft_fuse_limit_group configs used ms = []" using 4 by auto
    ultimately show ?thesis using fused 4 fuse by blast
  qed
qed

text \<open>Whatever happens, a request updates its own account only and leaves no pending member in it.\<close>

lemma resolve_request_update:
  assumes "resolve_request env now configs r (cs, used) = (ds, used')"
  obtains f where "keeps_account f" "ds = update_account (fr_account_id r) f cs"
    "\<And>c. c_state (f c) \<noteq> ''fuse_pending''"
proof -
  have np: "c_state (fused_member t why c) \<noteq> ''fuse_pending''" "c_state (fallback_member configs why c) \<noteq> ''fuse_pending''"
    "c_state (survivor_member g c) \<noteq> ''fuse_pending''" for t why g c
    using fallback_state_range [of "configs (c_group c)" c]
    by (auto simp: fused_member_def fallback_member_def survivor_member_def)
  show ?thesis
  proof (cases rule: resolve_request_cases [OF assms])
    case (1 t)
    then show ?thesis using that [OF members_keep_account(1) _ np(1)] by blast
  next
    case (2 g)
    then show ?thesis using that [OF members_keep_account(2) _ np(2)] by blast
  next
    case (3 g)
    then show ?thesis using that [OF members_keep_account(3) _ np(3)] by blast
  next
    case (4 t)
    then show ?thesis using that [OF members_keep_account(1) _ np(1)] by blast
  qed
qed

lemma resolve_requests_frame:
  assumes "fold (resolve_request env now configs) rs (cs, used) = (ds, used')"
  shows "map c_account ds = map c_account cs \<and>
    (\<forall>a. a \<notin> fr_account_id ` set rs \<longrightarrow> account_members a ds = account_members a cs) \<and>
    (\<forall>i < length cs. c_id (cs ! i) \<notin> fr_account_id ` set rs \<longrightarrow> ds ! i = cs ! i)"
  using assms
proof (induction rs arbitrary: cs used)
  case Nil
  then show ?case by simp
next
  case (Cons r rs)
  obtain es u where es: "resolve_request env now configs r (cs, used) = (es, u)" by (metis surj_pair)
  obtain f where f: "keeps_account f" "es = update_account (fr_account_id r) f cs"
    by (rule resolve_request_update [OF es]) blast
  have "fold (resolve_request env now configs) rs (es, u) = (ds, used')" using Cons.prems es by simp
  note IH = Cons.IH [OF this]
  have nth: "es ! i = (if c_id (cs ! i) = fr_account_id r then f (cs ! i) else cs ! i)" if "i < length cs" for i
    using that by (simp add: f(2) nth_update_account)
  have "map c_account ds = map c_account cs" using IH accounts_update_account [OF f(1)] f(2) by simp
  moreover have "account_members a ds = account_members a cs" if "a \<notin> fr_account_id ` set (r # rs)" for a
    using IH that account_members_other [OF f(1), of a "fr_account_id r" cs] f(2) by simp
  moreover have "ds ! i = cs ! i" if "i < length cs" "c_id (cs ! i) \<notin> fr_account_id ` set (r # rs)" for i
    using IH that nth [of i] f(2) by simp
  ultimately show ?case by blast
qed

lemma first_group_none: "first_group p gs = [] \<Longrightarrow> [] \<notin> set gs \<Longrightarrow> g \<in> set gs \<Longrightarrow> \<not> p g"
  by (induction gs) (auto split: if_splits)

lemma affected_groups [simp]: "set (fuse_affected_group_names ms) = c_group ` set ms"
  by (simp add: fuse_affected_group_names_def)

subsection \<open>The minimum pool\<close>

text \<open>The members of a group that can still take traffic (a pending fuse has not removed any yet).\<close>

definition open_count :: "go_env \<Rightarrow> gotime \<Rightarrow> string \<Rightarrow> round \<Rightarrow> int" where
  "open_count env now g cs = int (length (filter (available_for_minimum_pool env now) (group_members g cs)))"

lemma open_count_update:
  assumes "keeps_account f"
    and "\<And>c. c \<in> set cs \<Longrightarrow> P c \<Longrightarrow> available_for_minimum_pool env now (if c_id c = a then f c else c)"
  shows "int (length (filter P (group_members g cs))) \<le> open_count env now g (update_account a f cs)"
proof -
  have "length (filter P (group_members g cs)) \<le>
      length (filter (\<lambda>c. available_for_minimum_pool env now (if c_id c = a then f c else c)) (group_members g cs))"
    by (rule length_filter_mono) (use assms(2) in auto)
  then show ?thesis
    unfolding open_count_def group_members_update [OF assms(1)]
    by (simp add: update_account_def filter_map comp_def)
qed

lemma open_count_kept:
  assumes "keeps_account f" "\<And>c. available_for_minimum_pool env now c \<Longrightarrow> available_for_minimum_pool env now (f c)"
  shows "open_count env now g cs \<le> open_count env now g (update_account a f cs)"
  using open_count_update [OF assms(1), of cs "available_for_minimum_pool env now" env now a g] assms(2)
  by (simp add: open_count_def)

lemma available_fallback:
  "available_for_minimum_pool env now c \<Longrightarrow> available_for_minimum_pool env now (fallback_member configs why c)"
  using fallback_state_range [of "configs (c_group c)" c]
  by (auto simp: available_for_minimum_pool_def fallback_member_def remote_schedulable_def account_block_def Let_def
      split: if_splits)

lemma available_survivor:
  "available_for_minimum_pool env now c \<Longrightarrow> available_for_minimum_pool env now (survivor_member g c)"
  by (auto simp: available_for_minimum_pool_def survivor_member_def account_block_def Let_def split: if_splits)

lemma open_count_fused:
  assumes "minimum_pool_blocked_group env now configs a (account_members a cs) cs = []"
    and "[] \<notin> c_group ` set cs" and "g \<in> c_group ` set (account_members a cs)"
  shows "ec_min_pool (configs g) \<le> open_count env now g (update_account a (fused_member t why) cs)"
proof -
  have "[] \<notin> set (fuse_affected_group_names (account_members a cs))" using assms(2) by auto
  then have "\<not> int (length (filter (counts_for_minimum_pool env now (configs g) a) (group_members g cs))) < ec_min_pool (configs g)"
    using first_group_none [OF assms(1) [unfolded minimum_pool_blocked_group_def]] assms(3) by simp
  moreover have "int (length (filter (counts_for_minimum_pool env now (configs g) a) (group_members g cs))) \<le>
      open_count env now g (update_account a (fused_member t why) cs)"
    by (rule open_count_update [OF members_keep_account(1)])
       (auto simp: counts_for_minimum_pool_def split: if_splits)
  ultimately show ?thesis by linarith
qed

lemma open_count_elsewhere:
  assumes "keeps_account f" "g \<notin> c_group ` set (account_members a cs)"
  shows "open_count env now g (update_account a f cs) = open_count env now g cs"
proof -
  have "update_account a f (group_members g cs) = group_members g cs"
    unfolding update_account_def by (rule map_idI) (use assms(2) in auto)
  then show ?thesis by (simp add: open_count_def group_members_update [OF assms(1)])
qed

subsection \<open>All requests of a round\<close>

text \<open>
  What the earlier phases leave behind: the members of an account agree on being fused, since their
  states were aligned to the primary membership.
\<close>

definition fuse_aligned :: "round \<Rightarrow> bool" where
  "fuse_aligned cs \<longleftrightarrow>
     (\<forall>c \<in> set cs. \<forall>d \<in> set cs. c_id c = c_id d \<longrightarrow> c_state c = ''fuse_pending'' \<longrightarrow> c_state d \<noteq> ''fused'')"

definition soft_fused :: "fuse_request list \<Rightarrow> round \<Rightarrow> string \<Rightarrow> fuse_request list" where
  "soft_fused rs ds g =
     filter (\<lambda>r. fr_kind r = ''soft'' \<and> account_already_fused (account_members (fr_account_id r) ds) \<and>
        g \<in> c_group ` set (account_members (fr_account_id r) ds)) rs"

lemma already_fused_map:
  "(\<And>c. c_state (f c) = ''fused'' \<Longrightarrow> c_state c = ''fused'') \<Longrightarrow> account_already_fused (map f ms) \<Longrightarrow> account_already_fused ms"
  by (auto simp: account_already_fused_def list_ex_iff)

lemma fallback_not_fused: "c_state (fallback_member configs why c) = ''fused'' \<Longrightarrow> c_state c = ''fused''"
  using fallback_state_range [of "configs (c_group c)" c] by (auto simp: fallback_member_def split: if_splits)

lemma survivor_not_fused: "c_state (survivor_member g c) = ''fused'' \<Longrightarrow> c_state c = ''fused''"
  by (auto simp: survivor_member_def split: if_splits)

definition budget_inv ::
  "go_env \<Rightarrow> gotime \<Rightarrow> configs \<Rightarrow> fuse_request list \<Rightarrow> round \<Rightarrow> (string \<Rightarrow> int) \<Rightarrow> bool" where
  "budget_inv env now configs rs ds used \<longleftrightarrow>
     (\<forall>g. int (length (soft_fused rs ds g)) \<le> used g \<and> used g \<le> max 0 (ec_max_switch (configs g))) \<and>
     (\<forall>r \<in> set rs. account_already_fused (account_members (fr_account_id r) ds) \<longrightarrow>
        (\<forall>g \<in> c_group ` set (account_members (fr_account_id r) ds).
           ec_min_pool (configs g) \<le> open_count env now g ds)) \<and>
     (\<forall>r \<in> set rs. \<forall>c \<in> set (account_members (fr_account_id r) ds). c_state c \<noteq> ''fuse_pending'')"

lemma soft_fused_snoc:
  assumes "keeps_account f" "a \<notin> fr_account_id ` set rs" "fr_account_id r = a"
  shows "soft_fused (rs @ [r]) (update_account a f es) g =
     soft_fused rs es g @ soft_fused [r] (update_account a f es) g"
proof -
  have "account_members (fr_account_id q) (update_account a f es) = account_members (fr_account_id q) es" if "q \<in> set rs" for q
    by (rule account_members_other [OF assms(1)]) (use assms(2) that in auto)
  then show ?thesis by (auto simp: soft_fused_def intro: filter_cong)
qed

lemma budget_inv_step:
  assumes inv: "budget_inv env now configs rs es used"
    and step: "resolve_request env now configs r (es, used) = (ds, used')"
    and new: "fr_account_id r \<notin> fr_account_id ` set rs"
    and clean: "\<not> account_already_fused (account_members (fr_account_id r) es)"
    and names: "[] \<notin> c_group ` set es"
  shows "budget_inv env now configs (rs @ [r]) ds used'"
proof -
  let ?a = "fr_account_id r"
  let ?ms = "account_members ?a es"
  have count: "int (length (soft_fused rs es g)) \<le> used g" "used g \<le> max 0 (ec_max_switch (configs g))" for g
    using inv by (auto simp: budget_inv_def)
  have pool: "ec_min_pool (configs g) \<le> open_count env now g es"
    if "q \<in> set rs" "account_already_fused (account_members (fr_account_id q) es)"
      "g \<in> c_group ` set (account_members (fr_account_id q) es)" for q g
    using inv that unfolding budget_inv_def by blast
  have settled: "c_state c \<noteq> ''fuse_pending''" if "q \<in> set rs" "c \<in> set (account_members (fr_account_id q) es)" for q c
    using inv that unfolding budget_inv_def by blast
  obtain f where f: "keeps_account f" "ds = update_account ?a f es" "\<And>c. c_state (f c) \<noteq> ''fuse_pending''"
    by (rule resolve_request_update [OF step]) blast
  have other: "account_members (fr_account_id q) ds = account_members (fr_account_id q) es" if "q \<in> set rs" for q
    unfolding f(2) by (rule account_members_other [OF f(1)]) (use new that in \<open>auto simp: image_iff\<close>)
  have own: "account_members ?a ds = map f ?ms" unfolding f(2) by (rule account_members_self [OF f(1)])
  have own_groups: "c_group ` set (account_members ?a ds) = c_group ` set ?ms"
    unfolding own using f(1) by (simp add: keeps_account_def image_image)
  have split: "soft_fused (rs @ [r]) ds g = soft_fused rs es g @ soft_fused [r] ds g" for g
    unfolding f(2) by (rule soft_fused_snoc [OF f(1) new refl])
  have settled': "\<forall>q \<in> set (rs @ [r]). \<forall>c \<in> set (account_members (fr_account_id q) ds). c_state c \<noteq> ''fuse_pending''"
    using settled other own f(3) by (auto simp del: account_members_mem)
  have kept: ?thesis
    if unfused: "\<not> account_already_fused (account_members ?a ds)" and same: "used' = used"
      and mono: "\<And>g. open_count env now g es \<le> open_count env now g ds"
  proof -
    have "soft_fused [r] ds g = []" for g using unfused by (simp add: soft_fused_def)
    moreover have "ec_min_pool (configs g) \<le> open_count env now g ds"
      if "q \<in> set (rs @ [r])" "account_already_fused (account_members (fr_account_id q) ds)"
        "g \<in> c_group ` set (account_members (fr_account_id q) ds)" for q g
    proof -
      have q: "q \<in> set rs" using that(1,2) unfused by auto
      show ?thesis using pool [OF q, of g] that(2,3) mono [of g] unfolding other [OF q] by linarith
    qed
    ultimately show ?thesis unfolding budget_inv_def using count settled' same split by simp
  qed
  show ?thesis
  proof (cases rule: resolve_request_cases [OF step])
    case (1 t)
    then show ?thesis using clean by simp
  next
    case (2 g)
    have "\<not> account_already_fused (account_members ?a ds)"
      unfolding 2(2) account_members_self [OF members_keep_account(2)]
      using clean already_fused_map [of "fallback_member configs [M_Soft_Limit g]" ?ms] fallback_not_fused by blast
    then show ?thesis
      by (rule kept [OF _ 2(3)]) (simp add: 2(2) open_count_kept members_keep_account available_fallback)
  next
    case (3 g)
    have "\<not> account_already_fused (account_members ?a ds)"
      unfolding 3(2) account_members_self [OF members_keep_account(3)]
      using clean already_fused_map [of "survivor_member g" ?ms] survivor_not_fused by blast
    then show ?thesis
      by (rule kept [OF _ 3(3)]) (simp add: 3(2) open_count_kept members_keep_account available_survivor)
  next
    case (4 t)
    have here: "ec_min_pool (configs g) \<le> open_count env now g ds" if "g \<in> c_group ` set ?ms" for g
      unfolding 4(2) by (rule open_count_fused [OF 4(5) names that])
    have there: "open_count env now g ds = open_count env now g es" if "g \<notin> c_group ` set ?ms" for g
      unfolding 4(2) by (rule open_count_elsewhere [OF members_keep_account(1) that])
    have "ec_min_pool (configs g) \<le> open_count env now g ds"
      if "q \<in> set (rs @ [r])" "account_already_fused (account_members (fr_account_id q) ds)"
        "g \<in> c_group ` set (account_members (fr_account_id q) ds)" for q g
    proof (cases "g \<in> c_group ` set ?ms")
      case False
      then have q: "q \<in> set rs" using that(1,3) own_groups by auto
      show ?thesis using pool [OF q, of g] that(2,3) there [OF False] unfolding other [OF q] by simp
    qed (rule here)
    moreover have "int (length (soft_fused (rs @ [r]) ds g)) \<le> used' g \<and> used' g \<le> max 0 (ec_max_switch (configs g))" for g
    proof (cases "fr_kind r = ''soft'' \<and> g \<in> c_group ` set ?ms")
      case True
      have "[] \<notin> set (fuse_affected_group_names ?ms)" using names by auto
      then have "\<not> used g \<ge> ec_max_switch (configs g)"
        using first_group_none [of _ "fuse_affected_group_names ?ms" g] 4(4) True
        unfolding soft_fuse_limit_group_def by simp
      moreover have "used' g = used g + 1" using 4(3) True by (simp add: spend_def)
      moreover have "length (soft_fused [r] ds g) \<le> 1" by (simp add: soft_fused_def)
      ultimately show ?thesis using count [of g] by (simp add: split)
    next
      case False
      then have "soft_fused [r] ds g = []" using own_groups by (auto simp: soft_fused_def)
      moreover have "used' g = used g" using 4(3) False by (auto simp: spend_def)
      ultimately show ?thesis using count [of g] by (simp add: split)
    qed
    ultimately show ?thesis unfolding budget_inv_def using settled' by blast
  qed
qed

lemma same_accounts_same_groups: "map c_account ds = map c_account cs \<Longrightarrow> c_group ` set ds = c_group ` set cs"
proof -
  assume "map c_account ds = map c_account cs"
  then have "c_account ` set ds = c_account ` set cs" by (simp flip: set_map)
  then have "acc_group_name ` c_account ` set ds = acc_group_name ` c_account ` set cs" by (rule arg_cong)
  then show ?thesis by (simp only: image_image)
qed

lemma budget_inv_fold:
  assumes "fold (resolve_request env now configs) rs (cs, \<lambda>_. 0) = (ds, used)"
    and "distinct (map fr_account_id rs)"
    and "\<And>r. r \<in> set rs \<Longrightarrow> \<exists>c \<in> set cs. c_state c = ''fuse_pending'' \<and> c_id c = fr_account_id r"
    and "fuse_aligned cs" and "[] \<notin> c_group ` set cs"
  shows "budget_inv env now configs rs ds used"
  using assms(1,2,3)
proof (induction rs arbitrary: ds used rule: rev_induct)
  case Nil
  then show ?case by (auto simp: budget_inv_def soft_fused_def)
next
  case (snoc r rs)
  obtain es u where es: "fold (resolve_request env now configs) rs (cs, \<lambda>_. 0) = (es, u)" by (metis surj_pair)
  note frame = resolve_requests_frame [OF es]
  have new: "fr_account_id r \<notin> fr_account_id ` set rs" using snoc.prems(2) by auto
  have ms: "account_members (fr_account_id r) es = account_members (fr_account_id r) cs" using frame new by blast
  obtain c where c: "c \<in> set cs" "c_state c = ''fuse_pending''" "c_id c = fr_account_id r"
    using snoc.prems(3) [of r] by auto
  have "\<not> account_already_fused (account_members (fr_account_id r) es)"
    unfolding ms using assms(4) c unfolding fuse_aligned_def account_already_fused_def list_ex_iff by fastforce
  moreover have "[] \<notin> c_group ` set es"
    using assms(5) same_accounts_same_groups [OF frame [THEN conjunct1]] by simp
  moreover have "resolve_request env now configs r (es, u) = (ds, used)" using snoc.prems(1) es by simp
  moreover have "budget_inv env now configs rs es u"
    by (rule snoc.IH [OF es]) (use snoc.prems in auto)
  ultimately show ?case using budget_inv_step new by blast
qed

lemma apply_fuse_budgets_inv:
  assumes "distinct accounts_order" "fuse_aligned cs" "[] \<notin> c_group ` set cs"
    and "ds = apply_fuse_budgets env now configs groups_order accounts_order cs"
    and "rs = ordered_requests accounts_order (collect_requests groups_order cs)"
  obtains used where "budget_inv env now configs rs ds used" "map c_account ds = map c_account cs"
    "\<And>a. a \<notin> fr_account_id ` set rs \<Longrightarrow> account_members a ds = account_members a cs"
    "\<And>i. i < length cs \<Longrightarrow> c_id (cs ! i) \<notin> fr_account_id ` set rs \<Longrightarrow> ds ! i = cs ! i"
proof -
  obtain used where f: "fold (resolve_request env now configs) rs (cs, \<lambda>_. 0) = (ds, used)"
    using assms(4,5) by (metis apply_fuse_budgets_def prod.collapse)
  have dist: "distinct (map fr_account_id rs)"
    unfolding assms(5) by (rule ordered_requests_distinct) (use collect_requests_sound assms(1) in auto)
  have "\<exists>c \<in> set cs. c_state c = ''fuse_pending'' \<and> c_id c = fr_account_id r" if "r \<in> set rs" for r
    using that collect_requests_sound unfolding assms(5) ordered_requests_mem by fastforce
  then have inv: "budget_inv env now configs rs ds used" by (rule budget_inv_fold [OF f dist _ assms(2,3)])
  note frame = resolve_requests_frame [OF f]
  show ?thesis by (rule that [OF inv]) (use frame in auto)
qed

text \<open>A round of one group in which two of three accounts ask for a soft fuse.\<close>

definition sample_fuses :: round where
  "sample_fuses =
     [plain_candidate (plain_account ''1'' ''g'')\<lparr>c_state := ''fuse_pending'', c_fuse_kind := ''soft''\<rparr>,
      plain_candidate (plain_account ''2'' ''g'')\<lparr>c_state := ''fuse_pending'', c_fuse_kind := ''soft''\<rparr>,
      plain_candidate (plain_account ''3'' ''g'')]"

lemma sample_fuses_outcome:
  "map c_state (apply_fuse_budgets plain_env 0 (\<lambda>_. plain_config) [''g''] [''1'', ''2'', ''3''] sample_fuses) = [''unknown'', ''fused'', ''healthy'']"
  by code_simp

lemma sample_fuses_valid:
  "distinct [''1'', ''2'', ''3'']" "fuse_aligned sample_fuses" "[] \<notin> c_group ` set sample_fuses"
  "c_group ` set sample_fuses \<subseteq> set [''g'']" "c_id ` set sample_fuses \<subseteq> set [''1'', ''2'', ''3'']"
  by (simp_all add: sample_fuses_def fuse_aligned_def plain_candidate_def plain_account_def)

lemma no_pending_left:
  assumes "distinct accounts_order" and "fuse_aligned cs" and "[] \<notin> c_group ` set cs"
    and "c_group ` set cs \<subseteq> set groups_order" and "c_id ` set cs \<subseteq> set accounts_order"
  shows "list_all (\<lambda>c. c_state c \<noteq> ''fuse_pending'')
    (apply_fuse_budgets env now configs groups_order accounts_order cs)"
  unfolding list_all_iff
proof
  fix c
  let ?ds = "apply_fuse_budgets env now configs groups_order accounts_order cs"
  let ?rs = "ordered_requests accounts_order (collect_requests groups_order cs)"
  assume c: "c \<in> set ?ds"
  obtain used where inv: "budget_inv env now configs ?rs ?ds used"
    and others: "\<And>a. a \<notin> fr_account_id ` set ?rs \<Longrightarrow> account_members a ?ds = account_members a cs"
    by (rule apply_fuse_budgets_inv [OF assms(1-3) refl refl]) blast
  show "c_state c \<noteq> ''fuse_pending''"
  proof (cases "c_id c \<in> fr_account_id ` set ?rs")
    case True
    then show ?thesis using inv c unfolding budget_inv_def by auto
  next
    case False
    have "c \<in> set (account_members (c_id c) ?ds)" using c by simp
    then have mem: "c \<in> set cs" unfolding others [OF False] by simp
    show ?thesis
    proof
      assume p: "c_state c = ''fuse_pending''"
      have "collect_requests groups_order cs (c_id c) \<noteq> None"
        by (rule collect_requests_complete [OF mem p]) (use assms(4) mem in auto)
      then obtain r where r: "collect_requests groups_order cs (c_id c) = Some r" by blast
      have "r \<in> set ?rs" unfolding ordered_requests_mem using assms(5) mem r by blast
      then show False using False collect_requests_sound [OF r] by (metis imageI)
    qed
  qed
qed

text \<open>C18: no fuse is left pending. For every order in which the code may see the groups and the
  accounts, each pending membership ends fused, degraded, healthy, unknown or kept as a survivor.\<close>

theorem fuses_all_resolved:
  assumes "distinct accounts_order" and "fuse_aligned cs" and "[] \<notin> c_group ` set cs"
    and "c_group ` set cs \<subseteq> set groups_order" and "c_id ` set cs \<subseteq> set accounts_order"
  shows "list_all (\<lambda>c. c_state c \<noteq> ''fuse_pending'')
    (apply_fuse_budgets env now configs groups_order accounts_order cs)"
  by (rule no_pending_left [OF assms])

theorem fuses_all_resolved_witness:
  "list_all (\<lambda>c. c_state c \<noteq> ''fuse_pending'')
    (apply_fuse_budgets plain_env 0 (\<lambda>_. plain_config) [''g''] [''1'', ''2'', ''3''] sample_fuses)"
  by (rule fuses_all_resolved [OF sample_fuses_valid])

text \<open>C19: a fuse never drains a protected group. After the round every group in which some account was
  newly fused, softly or hard, still has its configured minimum of members that can take traffic.\<close>

theorem fuse_keeps_minimum_pool:
  assumes "distinct accounts_order" and "fuse_aligned cs" and "[] \<notin> c_group ` set cs"
    and "ds = apply_fuse_budgets env now configs groups_order accounts_order cs"
    and "i < length cs" and "c_state (cs ! i) \<noteq> ''fused''" and "c_state (ds ! i) = ''fused''"
  shows "ec_min_pool (configs (c_group (cs ! i))) \<le> open_count env now (c_group (cs ! i)) ds"
proof -
  let ?a = "c_id (cs ! i)"
  let ?rs = "ordered_requests accounts_order (collect_requests groups_order cs)"
  obtain used where inv: "budget_inv env now configs ?rs ds used"
    and accounts: "map c_account ds = map c_account cs"
    and others: "\<And>i. i < length cs \<Longrightarrow> c_id (cs ! i) \<notin> fr_account_id ` set ?rs \<Longrightarrow> ds ! i = cs ! i"
    by (rule apply_fuse_budgets_inv [OF assms(1-4) refl]) blast
  have len: "length ds = length cs" using accounts by (metis length_map)
  have acc: "c_account (ds ! i) = c_account (cs ! i)" using accounts assms(5) len by (metis nth_map)
  have mem: "ds ! i \<in> set (account_members ?a ds)" using assms(5) len acc by simp
  have "?a \<in> fr_account_id ` set ?rs"
  proof (rule ccontr)
    assume "?a \<notin> fr_account_id ` set ?rs"
    from others [OF assms(5) this] show False using assms(6,7) by simp
  qed
  then obtain r where r: "r \<in> set ?rs" "fr_account_id r = ?a" by auto
  have "account_already_fused (account_members ?a ds)"
    unfolding account_already_fused_def list_ex_iff using mem assms(7) by blast
  moreover have "c_group (cs ! i) \<in> c_group ` set (account_members ?a ds)" using mem acc by (metis imageI)
  ultimately show ?thesis using inv r unfolding budget_inv_def by metis
qed

theorem fuse_keeps_minimum_pool_witness:
  "ec_min_pool plain_config \<le> open_count plain_env 0 (c_group (sample_fuses ! 1))
     (apply_fuse_budgets plain_env 0 (\<lambda>_. plain_config) [''g''] [''1'', ''2'', ''3''] sample_fuses)"
proof -
  let ?ds = "apply_fuse_budgets plain_env 0 (\<lambda>_. plain_config) [''g''] [''1'', ''2'', ''3''] sample_fuses"
  have "length ?ds = 3" using arg_cong [OF sample_fuses_outcome, of length] by simp
  then have "c_state (?ds ! 1) = ''fused''" using arg_cong [OF sample_fuses_outcome, of "\<lambda>l. l ! 1"] by simp
  then show ?thesis
    by (intro fuse_keeps_minimum_pool [OF sample_fuses_valid(1-3) refl, where i = 1])
      (simp_all add: sample_fuses_def)
qed

text \<open>C20: in one round at most \<open>max_switch_per_round\<close> accounts of a group are newly fused for a soft
  reason, however many ask for it and whatever other groups they belong to.\<close>

theorem soft_fuses_within_budget:
  assumes "distinct accounts_order" and "fuse_aligned cs" and "[] \<notin> c_group ` set cs"
    and "ds = apply_fuse_budgets env now configs groups_order accounts_order cs"
  shows "int (length (soft_fused (ordered_requests accounts_order (collect_requests groups_order cs)) ds g))
    \<le> max 0 (ec_max_switch (configs g))"
proof -
  let ?rs = "ordered_requests accounts_order (collect_requests groups_order cs)"
  obtain used where inv: "budget_inv env now configs ?rs ds used"
    by (rule apply_fuse_budgets_inv [OF assms refl]) blast
  then show ?thesis unfolding budget_inv_def by (meson order_trans)
qed

theorem soft_fuses_within_budget_witness:
  "int (length (soft_fused (ordered_requests [''1'', ''2'', ''3''] (collect_requests [''g''] sample_fuses))
      (apply_fuse_budgets plain_env 0 (\<lambda>_. plain_config) [''g''] [''1'', ''2'', ''3''] sample_fuses) ''g'')) \<le> max 0 (ec_max_switch plain_config)"
  by (rule soft_fuses_within_budget [OF sample_fuses_valid(1-3) refl])

end
