(* ===== verification/Cost_Wall.thy ===== *)
theory Cost_Wall
  imports Sample_Round
begin

text \<open>
  The cost wall of a round (routing/cost_wall.go, \<open>applyAccountCostWall\<close> of routing/service.go) and
  the cost wall of manually controlled accounts (routing/manual_cost_wall.go).

  An account whose rate reaches the wall of every one of its groups is closed; a group that would be
  left with no usable account then gets its cheapest closed account back. \<open>Rat.Cmp\<close> on a nil rate
  panics, so the choice of the fallback answers an option; \<open>accounts_order\<close> is the order in which the
  code's map of accounts comes up.
\<close>

subsection \<open>The wall of one account\<close>

definition blockable_state :: "string \<Rightarrow> bool" where
  "blockable_state s \<longleftrightarrow> s \<in> {''healthy'', ''degraded'', ''unknown'', ''survivor''}"

definition all_above :: "engine_config \<Rightarrow> candidate \<Rightarrow> candidate list \<Rightarrow> bool" where
  "all_above config primary memberships \<longleftrightarrow>
     account_cost_wall_enabled config (c_id primary) \<and> memberships \<noteq> [] \<and>
     list_all (\<lambda>c. cost_wall_reached (c_cost_tier c)) memberships"

definition apply_account_cost_wall ::
  "go_env \<Rightarrow> gotime \<Rightarrow> engine_config \<Rightarrow> candidate list \<Rightarrow> candidate \<Rightarrow> candidate" where
  "apply_account_cost_wall env now config memberships primary =
     (let above = all_above config primary memberships;
          blockable = blockable_state (c_state primary);
          previously = equal_fold (trim_space (acc_effective_state (c_account primary))) ''cost_blocked'';
          known = acc_schedulable (c_account primary) \<noteq> None
      in if above \<and> blockable \<and> known
         then primary\<lparr>c_state := ''cost_blocked'', c_schedulable := False,
                      c_reason := [M_Cost_Blocked (ec_cost_wall_stop_auto_probe config)]\<rparr>
         else if \<not> above \<and> blockable \<and> previously \<and> known \<and>
                cost_wall_recovery_allowed env (c_account primary) now
         then primary\<lparr>c_schedulable := True,
                c_reason := [if \<not> ec_cost_wall_enabled config then M_Cost_Wall_Off
                             else if \<not> account_cost_wall_enabled config (c_id primary) then M_Cost_Wall_Ignored
                             else M_Cost_Below]\<rparr>
         else primary)"

subsection \<open>The fallback of a group\<close>

definition share_primary :: "candidate \<Rightarrow> candidate \<Rightarrow> candidate" where
  "share_primary primary c =
     c\<lparr>c_state := c_state primary, c_schedulable := c_schedulable primary, c_reason := c_reason primary\<rparr>"

definition wall_account :: "go_env \<Rightarrow> gotime \<Rightarrow> engine_config \<Rightarrow> string \<Rightarrow> round \<Rightarrow> round" where
  "wall_account env now config a cs =
     (case primary_membership (account_members a cs) of
        None \<Rightarrow> cs
      | Some p \<Rightarrow>
          update_account a (share_primary (apply_account_cost_wall env now config (account_members a cs) p)) cs)"

definition open_peer :: "go_env \<Rightarrow> gotime \<Rightarrow> round \<Rightarrow> routing_account \<Rightarrow> bool" where
  "open_peer env now cs a \<longleftrightarrow>
     \<not> (acc_id a \<in> c_id ` set cs \<or> \<not> remote_schedulable a \<or> acc_paused a \<or> account_disabled a \<or>
        catalog_binding_invalid (acc_catalog_binding_state a) \<or> account_block env a now \<noteq> []) \<and>
     to_lower (trim_space (acc_effective_state a)) \<notin>
       {''fused'', ''hard_open'', ''soft_open'', ''cost_blocked'', ''paused'', ''disabled'', ''binding_invalid''}"

definition available_groups :: "go_env \<Rightarrow> gotime \<Rightarrow> routing_account list \<Rightarrow> round \<Rightarrow> string list" where
  "available_groups env now inventory cs =
     map c_group (filter (\<lambda>c. c_schedulable c \<and> cost_wall_recovery_allowed env (c_account c) now) cs) @
     map acc_group_name (filter (open_peer env now cs) inventory)"

definition fallback_eligible :: "go_env \<Rightarrow> gotime \<Rightarrow> candidate \<Rightarrow> bool" where
  "fallback_eligible env now c \<longleftrightarrow>
     \<not> (c_state c \<noteq> ''cost_blocked'' \<or> h_fatal (c_health c) \<or> c_fuse_kind c \<noteq> [] \<or>
        \<not> cost_wall_recovery_allowed env (c_account c) now)"

definition cost_fallback_less :: "candidate \<Rightarrow> candidate \<Rightarrow> bool option" where
  "cost_fallback_less l r =
     (case (c_rate l, c_rate r) of
        (Some lr, Some rr) \<Rightarrow>
          Some (if lr \<noteq> rr then lr < rr
                else if h_health_score (c_health l) \<noteq> h_health_score (c_health r)
                  then h_health_score (c_health l) > h_health_score (c_health r)
                else stable_id_less (c_id l) (c_id r))
      | _ \<Rightarrow> None)"

fun pick_fallback :: "go_env \<Rightarrow> gotime \<Rightarrow> candidate list \<Rightarrow> candidate option \<Rightarrow> candidate option option" where
  "pick_fallback env now [] chosen = Some chosen"
| "pick_fallback env now (c # cs) chosen =
     (if \<not> fallback_eligible env now c then pick_fallback env now cs chosen
      else (case chosen of
              None \<Rightarrow> pick_fallback env now cs (Some c)
            | Some d \<Rightarrow>
                (case cost_fallback_less c d of
                   None \<Rightarrow> None
                 | Some less_ \<Rightarrow> pick_fallback env now cs (Some (if less_ then c else d)))))"

definition open_fallback :: "string \<Rightarrow> candidate \<Rightarrow> candidate" where
  "open_fallback g c = c\<lparr>c_state := ''survivor'', c_schedulable := True, c_reason := [M_Cost_Fallback g]\<rparr>"

fun open_groups ::
  "go_env \<Rightarrow> gotime \<Rightarrow> string list \<Rightarrow> round \<times> string list \<Rightarrow> (round \<times> string list) option" where
  "open_groups env now [] st = Some st"
| "open_groups env now (g # gs) (cs, available) =
     (if g \<in> set available then open_groups env now gs (cs, available)
      else (case pick_fallback env now (group_members g cs) None of
              None \<Rightarrow> None
            | Some None \<Rightarrow> open_groups env now gs (cs, available)
            | Some (Some chosen) \<Rightarrow>
                open_groups env now gs
                  (update_account (c_id chosen) (open_fallback g) cs,
                   map c_group (account_members (c_id chosen) cs) @ available)))"

definition wall_accounts :: "go_env \<Rightarrow> gotime \<Rightarrow> engine_config \<Rightarrow> string list \<Rightarrow> round \<Rightarrow> round" where
  "wall_accounts env now config accounts_order cs = fold (wall_account env now config) accounts_order cs"

definition apply_cost_wall_fallbacks ::
  "go_env \<Rightarrow> gotime \<Rightarrow> engine_config \<Rightarrow> routing_account list \<Rightarrow> string list \<Rightarrow> round \<Rightarrow> round option" where
  "apply_cost_wall_fallbacks env now config inventory accounts_order cs =
     (let cs = wall_accounts env now config accounts_order cs in
      if \<not> ec_cost_wall_enabled config \<or> \<not> ec_cost_wall_fallback_enabled config then Some cs
      else map_option fst
             (open_groups env now (group_names cs) (cs, available_groups env now inventory cs)))"

subsection \<open>Manually controlled accounts\<close>

record manual_change =
  mc_account :: routing_account
  mc_group_ids :: "string list"
  mc_group_names :: "string list"
  mc_schedulable :: bool
  mc_state :: string

text \<open>The scan of one account's memberships: whether it is still blocked, whether all is known, and the
  groups and names seen.\<close>

fun scan_members ::
  "rat option \<Rightarrow> routing_account list \<Rightarrow> bool \<times> bool \<times> string list \<times> string list \<Rightarrow>
   wall_error + (bool \<times> bool \<times> string list \<times> string list)" where
  "scan_members rate [] st = Inr st"
| "scan_members rate (m # ms) (blocked, known, groups, names) =
     (case acc_group_id m of
        None \<Rightarrow> scan_members rate ms (blocked, False, groups, names)
      | Some gid \<Rightarrow>
          (let groups = groups @ [gid]; names = names @ [acc_group_name m] in
           if \<not> blocked then scan_members rate ms (blocked, known, groups, names)
           else (case effective_cost_wall m of
                   Inl e \<Rightarrow> Inl e
                 | Inr wall \<Rightarrow>
                     (case (wall, rate) of
                        (Some (w, _), Some r) \<Rightarrow> scan_members rate ms (blocked \<and> \<not> r < w, known, groups, names)
                      | _ \<Rightarrow> scan_members rate ms (blocked, False, groups, names)))))"

definition manual_account_skipped :: "engine_config \<Rightarrow> routing_account \<Rightarrow> bool" where
  "manual_account_skipped config a \<longleftrightarrow>
     acc_schedulable a = None \<or> acc_paused a \<or> account_disabled a \<or> acc_id a \<in> set (ec_paused_accounts config) \<or>
     acc_id a \<in> set (ec_manual_fused_accounts config) \<or> fused_routing_state (acc_effective_state a)"

definition plan_manual_account ::
  "go_env \<Rightarrow> gotime \<Rightarrow> engine_config \<Rightarrow> routing_account list \<Rightarrow> wall_error + manual_change option" where
  "plan_manual_account env now config members =
     (case members of
        [] \<Rightarrow> Inr None
      | a # _ \<Rightarrow>
          if manual_account_skipped config a then Inr None
          else
            (case scan_members (nonneg_rat (acc_multiplier a)) members
                    (account_cost_wall_enabled config (acc_id a), True, [], []) of
               Inl e \<Rightarrow> Inl e
             | Inr (blocked, known, groups, names) \<Rightarrow>
                 let desired = \<not> blocked in
                 if \<not> known then Inr None
                 else if desired \<and> (acc_effective_state a \<noteq> ''cost_blocked'' \<or>
                   \<not> cost_wall_recovery_allowed env a now \<or> catalog_binding_invalid (acc_catalog_binding_state a))
                 then Inr None
                 else if acc_schedulable a = Some desired then Inr None
                 else Inr (Some \<lparr>mc_account = a, mc_group_ids = sort groups, mc_group_names = names,
                     mc_schedulable = desired, mc_state = (if desired then [] else ''cost_blocked'')\<rparr>)))"

fun plan_manual_accounts ::
  "go_env \<Rightarrow> gotime \<Rightarrow> engine_config \<Rightarrow> routing_account list \<Rightarrow> string list \<Rightarrow> wall_error + manual_change list" where
  "plan_manual_accounts env now config accounts [] = Inr []"
| "plan_manual_accounts env now config accounts (i # ids) =
     (case plan_manual_account env now config
              (filter (\<lambda>a. acc_manual_priority a \<noteq> None \<and> acc_id a = i) accounts) of
        Inl e \<Rightarrow> Inl e
      | Inr change \<Rightarrow>
          map_sum id (\<lambda>cs. case change of None \<Rightarrow> cs | Some c \<Rightarrow> c # cs)
            (plan_manual_accounts env now config accounts ids))"

text \<open>\<open>PlanManualCostWall\<close> on the parsed policy.\<close>

definition plan_manual_cost_wall ::
  "go_env \<Rightarrow> gotime \<Rightarrow> engine_config \<Rightarrow> routing_account list \<Rightarrow> wall_error + manual_change list" where
  "plan_manual_cost_wall env now config accounts =
     plan_manual_accounts env now config accounts
       (sort (remdups (map acc_id (filter (\<lambda>a. acc_manual_priority a \<noteq> None) accounts))))"

subsection \<open>The choice of a fallback\<close>

text \<open>A closed candidate is at least as good a fallback as another: cheaper, or as cheap and as healthy.\<close>

definition cost_le :: "candidate \<Rightarrow> candidate \<Rightarrow> bool" where
  "cost_le l r \<longleftrightarrow>
     the (c_rate l) < the (c_rate r) \<or>
     (the (c_rate l) = the (c_rate r) \<and> h_health_score (c_health l) \<ge> h_health_score (c_health r))"

lemma cost_le_refl: "cost_le c c"
  by (simp add: cost_le_def)

lemma cost_le_trans: "cost_le a b \<Longrightarrow> cost_le b c \<Longrightarrow> cost_le a c"
  by (auto simp: cost_le_def)

lemma cost_fallback_less_known:
  assumes "c_rate l \<noteq> None" "c_rate r \<noteq> None"
  obtains b where "cost_fallback_less l r = Some b" "b \<Longrightarrow> cost_le l r" "\<not> b \<Longrightarrow> cost_le r l"
  using assms by (cases "the (cost_fallback_less l r)") (auto simp: cost_fallback_less_def cost_le_def split: if_splits)

text \<open>Where every eligible candidate has a rate, the choice answers, and answers a minimum.\<close>

definition picked :: "go_env \<Rightarrow> gotime \<Rightarrow> candidate list \<Rightarrow> candidate option \<Rightarrow> candidate option \<Rightarrow> bool" where
  "picked env now cs chosen r \<longleftrightarrow>
     (case r of
        None \<Rightarrow> chosen = None \<and> list_all (\<lambda>c. \<not> fallback_eligible env now c) cs
      | Some b \<Rightarrow> (chosen = Some b \<or> (b \<in> set cs \<and> fallback_eligible env now b)) \<and>
          (\<forall>d. chosen = Some d \<longrightarrow> cost_le b d) \<and>
          list_all (\<lambda>d. fallback_eligible env now d \<longrightarrow> cost_le b d) cs)"

lemma picked_replace:
  assumes "picked env now cs (Some e) r" "e = c \<or> e = d" "cost_le e c" "cost_le e d" "fallback_eligible env now c"
  shows "picked env now (c # cs) (Some d) r"
proof (cases r)
  case None
  then show ?thesis using assms(1) by (simp add: picked_def)
next
  case (Some b)
  then have "cost_le b e" using assms(1) by (simp add: picked_def)
  then have "cost_le b c" "cost_le b d" using assms(3,4) cost_le_trans by blast+
  then show ?thesis using assms(1,2,5) Some by (auto simp: picked_def)
qed

lemma picked_skip:
  "\<not> fallback_eligible env now c \<Longrightarrow> picked env now cs chosen r \<Longrightarrow> picked env now (c # cs) chosen r"
  by (cases r) (auto simp: picked_def)

lemma picked_first:
  "fallback_eligible env now c \<Longrightarrow> picked env now cs (Some c) r \<Longrightarrow> picked env now (c # cs) None r"
  by (cases r) (auto simp: picked_def)

lemma pick_fallback_picked:
  assumes "\<And>c. c \<in> set cs \<Longrightarrow> fallback_eligible env now c \<Longrightarrow> c_rate c \<noteq> None"
    and "\<And>d. chosen = Some d \<Longrightarrow> c_rate d \<noteq> None"
  shows "\<exists>r. pick_fallback env now cs chosen = Some r \<and> picked env now cs chosen r"
  using assms
proof (induction cs arbitrary: chosen)
  case Nil
  then show ?case by (auto simp: picked_def cost_le_refl split: option.splits)
next
  case (Cons c cs)
  note known = Cons.prems(1) [OF list.set_intros(1)]
  have rest: "\<And>e. e \<in> set cs \<Longrightarrow> fallback_eligible env now e \<Longrightarrow> c_rate e \<noteq> None" using Cons.prems(1) by simp
  show ?case
  proof (cases "fallback_eligible env now c")
    case False
    have "\<exists>r. pick_fallback env now cs chosen = Some r \<and> picked env now cs chosen r"
      by (rule Cons.IH [OF rest Cons.prems(2)])
    then show ?thesis using False picked_skip [OF False] by auto
  next
    case True
    show ?thesis
    proof (cases chosen)
      case None
      have "\<exists>r. pick_fallback env now cs (Some c) = Some r \<and> picked env now cs (Some c) r"
        by (rule Cons.IH [OF rest]) (use known [OF True] in auto)
      then show ?thesis using True None picked_first [OF True] by auto
    next
      case (Some d)
      obtain b where b: "cost_fallback_less c d = Some b" "b \<Longrightarrow> cost_le c d" "\<not> b \<Longrightarrow> cost_le d c"
        by (rule cost_fallback_less_known [OF known [OF True] Cons.prems(2) [OF Some]]) blast
      let ?e = "if b then c else d"
      have "\<exists>r. pick_fallback env now cs (Some ?e) = Some r \<and> picked env now cs (Some ?e) r"
        by (rule Cons.IH [OF rest]) (use known [OF True] Cons.prems(2) [OF Some] in \<open>auto split: if_splits\<close>)
      then obtain r where r: "pick_fallback env now cs (Some ?e) = Some r" "picked env now cs (Some ?e) r" by blast
      have "picked env now (c # cs) (Some d) r"
        by (rule picked_replace [OF r(2) _ _ _ True]) (use b cost_le_refl in auto)
      then show ?thesis using True Some b(1) r(1) by simp
    qed
  qed
qed

subsection \<open>Opening the groups\<close>

text \<open>Rates are known wherever the phase compares them.\<close>

definition priced :: "round \<Rightarrow> bool" where
  "priced cs \<longleftrightarrow>
     (\<forall>c \<in> set cs. cost_wall_reached (c_cost_tier c) \<longrightarrow> c_rate c \<noteq> None) \<and>
     (\<forall>c \<in> set cs. \<forall>d \<in> set cs. c_state c = ''cost_blocked'' \<longrightarrow> c_id d = c_id c \<longrightarrow> c_rate d \<noteq> None)"

definition closed_priced :: "round \<Rightarrow> bool" where
  "closed_priced cs \<longleftrightarrow> (\<forall>c \<in> set cs. c_state c = ''cost_blocked'' \<longrightarrow> c_rate c \<noteq> None)"

lemma priced_closed: "priced cs \<Longrightarrow> closed_priced cs"
  by (auto simp: priced_def closed_priced_def)

lemma open_fallback_simps [simp]:
  "c_account (open_fallback g c) = c_account c" "c_rate (open_fallback g c) = c_rate c"
  "c_state (open_fallback g c) = ''survivor''" "c_schedulable (open_fallback g c)"
  "\<not> fallback_eligible env now (open_fallback g c)" "open_fallback h (open_fallback g c) = open_fallback h c"
  by (simp_all add: open_fallback_def fallback_eligible_def)

lemma keeps_account_open [simp]: "keeps_account (open_fallback g)"
  by (simp add: keeps_account_def)

lemma closed_priced_open: "closed_priced cs \<Longrightarrow> closed_priced (update_account a (open_fallback g) cs)"
  by (auto simp: closed_priced_def update_account_def)

text \<open>What the loop over the groups leaves of a membership: as it was, or opened for a group that was
  not available, as a member of the account of that group's cheapest eligible membership.\<close>

definition opened_for :: "go_env \<Rightarrow> gotime \<Rightarrow> string list \<Rightarrow> round \<Rightarrow> round \<Rightarrow> nat \<Rightarrow> string \<Rightarrow> bool" where
  "opened_for env now available cs ds i g \<longleftrightarrow>
     g \<notin> set available \<and> ds ! i = open_fallback g (cs ! i) \<and>
     (\<exists>j < length cs. c_id (cs ! j) = c_id (cs ! i) \<and> c_group (cs ! j) = g \<and> fallback_eligible env now (cs ! j) \<and>
        (\<forall>k < length cs. c_group (cs ! k) = g \<longrightarrow> fallback_eligible env now (ds ! k) \<longrightarrow> cost_le (cs ! j) (cs ! k)))"

definition opens ::
  "go_env \<Rightarrow> gotime \<Rightarrow> round \<times> string list \<Rightarrow> round \<times> string list \<Rightarrow> bool" where
  "opens env now st st' \<longleftrightarrow>
     (let (cs, available) = st; (ds, available') = st' in
      length ds = length cs \<and> set available \<subseteq> set available' \<and>
      (\<forall>i < length cs. c_account (ds ! i) = c_account (cs ! i)) \<and>
      (\<forall>i < length cs. fallback_eligible env now (ds ! i) \<longrightarrow> ds ! i = cs ! i) \<and>
      (\<forall>i < length cs. c_schedulable (cs ! i) \<longrightarrow> c_schedulable (ds ! i)) \<and>
      (\<forall>i < length cs. ds ! i \<noteq> cs ! i \<longrightarrow> c_group (cs ! i) \<in> set available') \<and>
      (\<forall>g \<in> set available' - set available. \<exists>i < length ds. c_group (ds ! i) = g \<and> c_schedulable (ds ! i)) \<and>
      (\<forall>i < length cs. ds ! i = cs ! i \<or> (\<exists>g. opened_for env now available cs ds i g)))"

lemma opens_refl: "opens env now (cs, av) (cs, av)"
  by (simp add: opens_def)

lemma opens_step:
  assumes "g \<notin> set av" "pick_fallback env now (group_members g cs) None = Some (Some b)"
    and "closed_priced cs"
  shows "opens env now (cs, av)
    (update_account (c_id b) (open_fallback g) cs, map c_group (account_members (c_id b) cs) @ av)"
proof -
  let ?ds = "update_account (c_id b) (open_fallback g) cs"
  have eligible_rate: "c_rate c \<noteq> None" if "c \<in> set cs" "fallback_eligible env now c" for c
    using assms(3) that unfolding closed_priced_def fallback_eligible_def by simp
  obtain r where r: "pick_fallback env now (group_members g cs) None = Some r"
      "picked env now (group_members g cs) None r"
    using pick_fallback_picked [of "group_members g cs" env now None] eligible_rate by auto
  then have p: "b \<in> set cs" "c_group b = g" "fallback_eligible env now b"
      "\<And>d. d \<in> set cs \<Longrightarrow> c_group d = g \<Longrightarrow> fallback_eligible env now d \<Longrightarrow> cost_le b d"
    using assms(2) by (auto simp: picked_def list_all_iff)
  obtain j where j: "j < length cs" "cs ! j = b" using p(1) by (metis in_set_conv_nth)
  have nth: "?ds ! i = (if c_id (cs ! i) = c_id b then open_fallback g (cs ! i) else cs ! i)" if "i < length cs" for i
    by (rule nth_update_account [OF that])
  have groups: "\<exists>i < length ?ds. c_group (?ds ! i) = h \<and> c_schedulable (?ds ! i)"
    if h: "h \<in> c_group ` set (account_members (c_id b) cs)" for h
  proof -
    obtain c where "c \<in> set cs" "c_id c = c_id b" "c_group c = h" using h by auto
    then obtain i where "i < length cs" "c_id (cs ! i) = c_id b" "c_group (cs ! i) = h" by (metis in_set_conv_nth)
    then show ?thesis using nth [of i] by auto
  qed
  have "opened_for env now av cs ?ds i g" if "i < length cs" "c_id (cs ! i) = c_id b" for i
    unfolding opened_for_def
  proof (intro conjI exI [of _ j])
    show "\<forall>k < length cs. c_group (cs ! k) = g \<longrightarrow> fallback_eligible env now (?ds ! k) \<longrightarrow> cost_le (cs ! j) (cs ! k)"
      using nth p(4) j(2) by (metis nth_mem open_fallback_simps(5))
  qed (use assms(1) nth [of i] that j p in auto)
  then have "?ds ! i = cs ! i \<or> (\<exists>g. opened_for env now av cs ?ds i g)" if "i < length cs" for i
    using nth [OF that] that by (cases "c_id (cs ! i) = c_id b") auto
  moreover have "c_group (cs ! i) \<in> c_group ` set (account_members (c_id b) cs)"
    if "i < length cs" "c_id (cs ! i) = c_id b" for i
    using that by auto
  then have "?ds ! i \<noteq> cs ! i \<longrightarrow> c_group (cs ! i) \<in> set (map c_group (account_members (c_id b) cs) @ av)"
    if "i < length cs" for i
    using nth [OF that] that by (cases "c_id (cs ! i) = c_id b") auto
  ultimately show ?thesis using groups nth unfolding opens_def by auto
qed

lemma opened_for_trans:
  assumes "opens env now (cs, av) (ds, av')" "opens env now (ds, av') (es, av'')"
    and "i < length cs" "opened_for env now av cs ds i g" "es ! i = ds ! i"
  shows "opened_for env now av cs es i g"
proof -
  have "fallback_eligible env now (es ! k) \<Longrightarrow> fallback_eligible env now (ds ! k)" if "k < length cs" for k
    using assms(1,2) that unfolding opens_def by auto
  then show ?thesis using assms(4,5) unfolding opened_for_def by metis
qed

lemma opened_for_later:
  assumes "opens env now (cs, av) (ds, av')" "opens env now (ds, av') (es, av'')"
    and "i < length cs" "opened_for env now av' ds es i g"
  shows "opened_for env now av cs es i g"
proof -
  have len: "length ds = length cs" and sub: "set av \<subseteq> set av'"
    and acc: "\<And>k. k < length cs \<Longrightarrow> c_account (ds ! k) = c_account (cs ! k)"
    and el: "\<And>k. k < length cs \<Longrightarrow> fallback_eligible env now (ds ! k) \<Longrightarrow> ds ! k = cs ! k"
    and el2: "\<And>k. k < length cs \<Longrightarrow> fallback_eligible env now (es ! k) \<Longrightarrow> es ! k = ds ! k"
    and here0: "ds ! i = cs ! i \<or> (\<exists>g. opened_for env now av cs ds i g)"
    using assms(1-3) by (simp_all add: opens_def)
  have here: "ds ! i = cs ! i \<or> (\<exists>g. ds ! i = open_fallback g (cs ! i))"
    using here0 unfolding opened_for_def by blast
  obtain j where j: "j < length ds" "c_id (ds ! j) = c_id (ds ! i)" "c_group (ds ! j) = g"
      "fallback_eligible env now (ds ! j)"
      "\<forall>k < length ds. c_group (ds ! k) = g \<longrightarrow> fallback_eligible env now (es ! k) \<longrightarrow> cost_le (ds ! j) (ds ! k)"
    using assms(4) unfolding opened_for_def by blast
  have "es ! i = open_fallback g (cs ! i)" using assms(4) here unfolding opened_for_def by auto
  moreover have "g \<notin> set av" using assms(4) sub unfolding opened_for_def by auto
  moreover have "cost_le (cs ! j) (cs ! k)"
    if "k < length cs" "c_group (cs ! k) = g" "fallback_eligible env now (es ! k)" for k
    using j that el [of j] el [of k] el2 [of k] len acc [of k] by auto
  ultimately show ?thesis using j(1-4) el [of j] len acc [OF assms(3)] unfolding opened_for_def by (metis acc)
qed

lemma opens_trans:
  assumes "opens env now (cs, av) (ds, av')" "opens env now (ds, av') (es, av'')"
  shows "opens env now (cs, av) (es, av'')"
proof -
  have last: "es ! i = cs ! i \<or> (\<exists>g. opened_for env now av cs es i g)" if i: "i < length cs" for i
  proof -
    have "ds ! i = cs ! i \<or> (\<exists>g. opened_for env now av cs ds i g)"
      "es ! i = ds ! i \<or> (\<exists>g. opened_for env now av' ds es i g)"
      using assms i by (simp_all add: opens_def)
    then show ?thesis using opened_for_trans [OF assms i] opened_for_later [OF assms i] by metis
  qed
  have groups: "\<exists>i < length es. c_group (es ! i) = g \<and> c_schedulable (es ! i)"
    if g: "g \<in> set av''" "g \<notin> set av" for g
  proof (cases "g \<in> set av'")
    case True
    then have "\<exists>i < length ds. c_group (ds ! i) = g \<and> c_schedulable (ds ! i)"
      using assms(1) g unfolding opens_def Let_def prod.case by blast
    then obtain i where i: "i < length ds" "c_group (ds ! i) = g" "c_schedulable (ds ! i)" by blast
    have "length es = length ds" "c_account (es ! i) = c_account (ds ! i)" "c_schedulable (es ! i)"
      using assms(2) i by (simp_all add: opens_def)
    then show ?thesis using i by auto
  next
    case False
    then show ?thesis using assms(2) g unfolding opens_def Let_def prod.case by blast
  qed
  have changed: "c_group (cs ! i) \<in> set av''" if i: "i < length cs" "es ! i \<noteq> cs ! i" for i
  proof -
    have "ds ! i \<noteq> cs ! i \<Longrightarrow> c_group (cs ! i) \<in> set av'" "set av' \<subseteq> set av''"
      "es ! i \<noteq> ds ! i \<Longrightarrow> c_group (ds ! i) \<in> set av''"
      using assms i(1) by (simp_all add: opens_def)
    then show ?thesis using i(2) by (cases "ds ! i = cs ! i") auto
  qed
  show ?thesis using assms last groups changed unfolding opens_def by auto
qed

lemma open_groups_result:
  assumes "closed_priced cs"
  shows "\<exists>ds av'. open_groups env now gs (cs, av) = Some (ds, av') \<and> opens env now (cs, av) (ds, av') \<and>
    (\<forall>g \<in> set gs. g \<in> set av' \<or> (\<forall>i < length cs. c_group (cs ! i) = g \<longrightarrow> \<not> fallback_eligible env now (ds ! i)))"
  using assms
proof (induction gs arbitrary: cs av)
  case Nil
  then show ?case using opens_refl by auto
next
  case (Cons g gs)
  show ?case
  proof (cases "g \<in> set av")
    case True
    obtain ds av' where IH: "open_groups env now gs (cs, av) = Some (ds, av')" "opens env now (cs, av) (ds, av')"
        "\<forall>g \<in> set gs. g \<in> set av' \<or> (\<forall>i < length cs. c_group (cs ! i) = g \<longrightarrow> \<not> fallback_eligible env now (ds ! i))"
      using Cons.IH [OF Cons.prems, of av] by blast
    have "g \<in> set av'" using IH(2) True unfolding opens_def by auto
    then show ?thesis using IH True by auto
  next
    case new: False
    have "c_rate c \<noteq> None" if "c \<in> set (group_members g cs)" "fallback_eligible env now c" for c
      using Cons.prems that unfolding closed_priced_def fallback_eligible_def by simp
    then obtain r where r: "pick_fallback env now (group_members g cs) None = Some r"
        "picked env now (group_members g cs) None r"
      using pick_fallback_picked [of "group_members g cs" env now None] by auto
    show ?thesis
    proof (cases r)
      case None
      obtain ds av' where IH: "open_groups env now gs (cs, av) = Some (ds, av')" "opens env now (cs, av) (ds, av')"
          "\<forall>g \<in> set gs. g \<in> set av' \<or> (\<forall>i < length cs. c_group (cs ! i) = g \<longrightarrow> \<not> fallback_eligible env now (ds ! i))"
        using Cons.IH [OF Cons.prems, of av] by blast
      have "\<not> fallback_eligible env now (ds ! i)" if "i < length cs" "c_group (cs ! i) = g" for i
      proof
        assume e: "fallback_eligible env now (ds ! i)"
        then have "fallback_eligible env now (cs ! i)" using IH(2) that(1) unfolding opens_def by auto
        then show False using r(2) None that by (simp add: picked_def list_all_iff)
      qed
      then show ?thesis using IH new r(1) None by auto
    next
      case (Some b)
      note first = opens_step [OF new r(1) [unfolded Some] Cons.prems]
      let ?cs = "update_account (c_id b) (open_fallback g) cs"
      let ?av = "map c_group (account_members (c_id b) cs) @ av"
      obtain ds av' where IH: "open_groups env now gs (?cs, ?av) = Some (ds, av')" "opens env now (?cs, ?av) (ds, av')"
          "\<forall>g \<in> set gs. g \<in> set av' \<or> (\<forall>i < length ?cs. c_group (?cs ! i) = g \<longrightarrow> \<not> fallback_eligible env now (ds ! i))"
        using Cons.IH [OF closed_priced_open [OF Cons.prems], of "c_id b" g ?av] by blast
      have "b \<in> set cs" "c_group b = g" using r(2) Some by (auto simp: picked_def)
      then have "g \<in> set ?av" by force
      then have "g \<in> set av'" using IH(2) unfolding opens_def by auto
      moreover have "c_group (?cs ! i) = c_group (cs ! i)" if "i < length cs" for i
        using that by (simp add: nth_update_account)
      ultimately show ?thesis
        using IH opens_trans [OF first IH(2)] new r(1) Some by (intro exI [of _ ds] exI [of _ av']) auto
    qed
  qed
qed

subsection \<open>The walls of all accounts\<close>

lemma wall_account_update:
  obtains f where "keeps_account f" "wall_account env now config a cs = update_account a f cs"
    "\<forall>c. c_rate (f c) = c_rate c \<and> c_cost_tier (f c) = c_cost_tier c"
    "\<forall>c \<in> set cs. c_id c = a \<longrightarrow> c_state (f c) = ''cost_blocked'' \<longrightarrow>
      (\<exists>p \<in> set cs. c_id p = a \<and> c_state p = ''cost_blocked'') \<or>
      list_all (\<lambda>d. cost_wall_reached (c_cost_tier d)) (account_members a cs)"
proof (cases "primary_membership (account_members a cs)")
  case None
  then have "account_members a cs = []" by (simp add: primary_membership_None)
  then have "wall_account env now config a cs = update_account a (\<lambda>c. c) cs"
    using None by (simp add: wall_account_def update_account_def)
  then show ?thesis by (rule that [rotated]) (auto simp: keeps_account_def)
next
  case (Some p)
  have p: "p \<in> set cs" "c_id p = a" using primary_membership_mem [OF Some] by auto
  let ?q = "apply_account_cost_wall env now config (account_members a cs) p"
  have "wall_account env now config a cs = update_account a (share_primary ?q) cs"
    using Some by (simp add: wall_account_def)
  moreover have "(\<exists>p \<in> set cs. c_id p = a \<and> c_state p = ''cost_blocked'') \<or>
        list_all (\<lambda>d. cost_wall_reached (c_cost_tier d)) (account_members a cs)"
    if "c_state (share_primary ?q c) = ''cost_blocked''" for c
  proof -
    have "c_state ?q = ''cost_blocked''" using that by (simp add: share_primary_def)
    then show ?thesis
      using p by (auto simp: apply_account_cost_wall_def all_above_def Let_def split: if_splits)
  qed
  ultimately show ?thesis
    by (intro that [of "share_primary ?q"]) (auto simp: keeps_account_def share_primary_def)
qed

lemma wall_account_keeps:
  assumes "priced cs"
  shows "priced (wall_account env now config a cs) \<and> map c_account (wall_account env now config a cs) = map c_account cs"
proof -
  obtain f where f: "keeps_account f" "wall_account env now config a cs = update_account a f cs"
    "\<forall>c. c_rate (f c) = c_rate c \<and> c_cost_tier (f c) = c_cost_tier c"
    "\<forall>c \<in> set cs. c_id c = a \<longrightarrow> c_state (f c) = ''cost_blocked'' \<longrightarrow>
      (\<exists>p \<in> set cs. c_id p = a \<and> c_state p = ''cost_blocked'') \<or>
      list_all (\<lambda>d. cost_wall_reached (c_cost_tier d)) (account_members a cs)"
    by (rule wall_account_update [of env now config a cs])
  let ?g = "\<lambda>c. if c_id c = a then f c else c"
  have same: "c_rate (?g c) = c_rate c" "c_cost_tier (?g c) = c_cost_tier c" "c_id (?g c) = c_id c" for c
    using f(3) keeps_accountD [OF f(1)] by auto
  have "c_rate d \<noteq> None"
    if m: "c \<in> set cs" "d \<in> set cs" "c_state (?g c) = ''cost_blocked''" "c_id d = c_id c" for c d
  proof (cases "c_id c = a")
    case True
    then consider p where "p \<in> set cs" "c_id p = a" "c_state p = ''cost_blocked''"
      | "list_all (\<lambda>d. cost_wall_reached (c_cost_tier d)) (account_members a cs)"
      using f(4) m(1,3) True by auto
    then show ?thesis
      by cases (use assms m True in \<open>auto simp: priced_def list_all_iff\<close>)
  next
    case False
    then show ?thesis using assms m unfolding priced_def by auto
  qed
  then have "priced (map ?g cs)"
    using assms unfolding priced_def set_map ball_simps(9) same by blast
  then show ?thesis using accounts_update_account [OF f(1)] f(2) by (simp add: update_account_def)
qed

lemma wall_accounts_keep:
  "priced cs \<Longrightarrow> priced (wall_accounts env now config accounts_order cs) \<and>
   map c_account (wall_accounts env now config accounts_order cs) = map c_account cs"
  unfolding wall_accounts_def
  by (rule fold_invariant [where P = "\<lambda>ds. priced ds \<and> map c_account ds = map c_account cs"])
    (use wall_account_keeps in auto)

text \<open>The phase as a whole: the accounts are walled, then the groups opened.\<close>

lemma cost_wall_phase:
  fixes env now accounts_order
  assumes "priced cs" "ec_cost_wall_enabled config" "ec_cost_wall_fallback_enabled config"
  defines "ws \<equiv> wall_accounts env now config accounts_order cs"
  shows "\<exists>ds av'. apply_cost_wall_fallbacks env now config inventory accounts_order cs = Some ds \<and>
    opens env now (ws, available_groups env now inventory ws) (ds, av') \<and>
    (\<forall>g \<in> c_group ` set cs. g \<in> set av' \<or>
       (\<forall>i < length ws. c_group (ws ! i) = g \<longrightarrow> \<not> fallback_eligible env now (ds ! i)))"
proof -
  have ws: "priced ws" "map c_account ws = map c_account cs"
    using wall_accounts_keep [OF assms(1)] unfolding ws_def by auto
  have "map c_group ws = map c_group cs" using arg_cong [OF ws(2), of "map acc_group_name"] by (simp add: comp_def)
  then have names: "set (group_names ws) = c_group ` set cs" by (simp add: group_names_def flip: set_map)
  obtain ds av' where "open_groups env now (group_names ws) (ws, available_groups env now inventory ws) = Some (ds, av')"
      "opens env now (ws, available_groups env now inventory ws) (ds, av')"
      "\<forall>g \<in> set (group_names ws). g \<in> set av' \<or>
        (\<forall>i < length ws. c_group (ws ! i) = g \<longrightarrow> \<not> fallback_eligible env now (ds ! i))"
    using open_groups_result [OF priced_closed [OF ws(1)], of env now "group_names ws"] by blast
  then show ?thesis using assms(2,3) names unfolding apply_cost_wall_fallbacks_def ws_def
    by (intro exI [of _ ds] exI [of _ av']) (simp add: Let_def)
qed

text \<open>Two accounts of one group whose rates reach its wall, the second cheaper than the first.\<close>

definition sample_walled :: round where
  "sample_walled =
     (let c = (\<lambda>i r. plain_candidate (plain_account i ''g'')
            \<lparr>c_rate := Some r, c_cost_wall := Some 1, c_cost_tier := ''above''\<rparr>)
      in [c ''1'' 3, c ''2'' 2])"

definition sample_walled_config :: engine_config where
  "sample_walled_config = plain_config\<lparr>ec_cost_wall_enabled := True, ec_cost_wall_fallback_enabled := True\<rparr>"

lemma sample_walled_priced: "priced sample_walled"
  by (simp add: sample_walled_def priced_def plain_candidate_def plain_account_def cost_wall_reached_def)

lemma sample_walled_config_simps [simp]:
  "ec_cost_wall_enabled sample_walled_config" "ec_cost_wall_fallback_enabled sample_walled_config"
  by (simp_all add: sample_walled_config_def)

lemma sample_walled_outcome:
  "map_option (map (\<lambda>c. (c_state c, c_schedulable c)))
     (apply_cost_wall_fallbacks plain_env 0 sample_walled_config [] [''1'', ''2''] sample_walled) =
   Some [(''cost_blocked'', False), (''survivor'', True)]"
  by code_simp



text \<open>C22: a walled membership runs only as the fallback it was chosen for. Whatever the opening of the
  groups changes is opened as a member of an account that a group without any available account
  needs, and no closed membership of that group was a cheaper, or as cheap and healthier, choice.\<close>

theorem cost_wall_fallback_sound:
  assumes "priced cs" and "ec_cost_wall_enabled config" and "ec_cost_wall_fallback_enabled config"
    and "ws = wall_accounts env now config accounts_order cs"
    and "apply_cost_wall_fallbacks env now config inventory accounts_order cs = Some ds"
    and "i < length ws" and "ds ! i \<noteq> ws ! i"
  shows "\<exists>g. opened_for env now (available_groups env now inventory ws) ws ds i g"
  using cost_wall_phase [OF assms(1-3), where env = env and now = now and accounts_order = accounts_order and inventory = inventory] assms(4-7)
  unfolding opens_def by auto

theorem cost_wall_fallback_sound_witness:
  "\<exists>ws ds. ws = wall_accounts plain_env 0 sample_walled_config [''1'', ''2''] sample_walled \<and>
     apply_cost_wall_fallbacks plain_env 0 sample_walled_config [] [''1'', ''2''] sample_walled = Some ds \<and>
     (\<exists>g. opened_for plain_env 0 (available_groups plain_env 0 [] ws) ws ds 1 g)"
proof -
  let ?ws = "wall_accounts plain_env 0 sample_walled_config [''1'', ''2''] sample_walled"
  obtain ds where ds: "apply_cost_wall_fallbacks plain_env 0 sample_walled_config [] [''1'', ''2''] sample_walled = Some ds"
      "map (\<lambda>c. (c_state c, c_schedulable c)) ds = [(''cost_blocked'', False), (''survivor'', True)]"
    using sample_walled_outcome by auto
  have ws: "map c_state ?ws = [''cost_blocked'', ''cost_blocked'']" by code_simp
  have "c_state (?ws ! 1) = ''cost_blocked''" "length ?ws = 2"
    using arg_cong [OF ws, of "\<lambda>l. l ! 1"] arg_cong [OF ws, of length] by auto
  moreover have "length ds = 2" using arg_cong [OF ds(2), of length] by simp
  then have "c_state (ds ! 1) = ''survivor''" using arg_cong [OF ds(2), of "\<lambda>l. l ! 1"] by simp
  ultimately have "1 < length ?ws" "ds ! 1 \<noteq> ?ws ! 1" by auto
  then have "\<exists>g. opened_for plain_env 0 (available_groups plain_env 0 [] ?ws) ?ws ds 1 g"
    by (intro cost_wall_fallback_sound [OF sample_walled_priced _ _ refl ds(1)]) simp_all
  then show ?thesis using ds(1) by blast
qed

subsection \<open>The plan for manually controlled accounts\<close>

text \<open>How the rate of an account stands to the wall of one of its memberships, both being known.\<close>

definition rate_reaches :: "rat option \<Rightarrow> routing_account \<Rightarrow> bool" where
  "rate_reaches rate m \<longleftrightarrow> (\<exists>w t r. effective_cost_wall m = Inr (Some (w, t)) \<and> rate = Some r \<and> w \<le> r)"

definition rate_below :: "rat option \<Rightarrow> routing_account \<Rightarrow> bool" where
  "rate_below rate m \<longleftrightarrow> (\<exists>w t r. effective_cost_wall m = Inr (Some (w, t)) \<and> rate = Some r \<and> r < w)"

lemma scan_members_sound:
  assumes "scan_members rate ms (b, k, gs, ns) = Inr (b', k', gs', ns')"
  shows "(b' \<longrightarrow> b \<and> (k' \<longrightarrow> list_all (rate_reaches rate) ms)) \<and> (b \<and> \<not> b' \<longrightarrow> list_ex (rate_below rate) ms) \<and>
    (k' \<longrightarrow> k \<and> list_all (\<lambda>m. acc_group_id m \<noteq> None) ms)"
  using assms
proof (induction ms arbitrary: b k gs ns)
  case Nil
  then show ?case by simp
next
  case (Cons m ms)
  show ?case
  proof (cases "acc_group_id m")
    case None
    then show ?thesis using Cons.prems Cons.IH by fastforce
  next
    case (Some gid)
    show ?thesis
    proof (cases b)
      case False
      then show ?thesis using Cons.prems Some Cons.IH by fastforce
    next
      case True
      obtain wall where wall: "effective_cost_wall m = Inr wall"
        using Cons.prems Some True by (auto simp: Let_def split: sum.splits)
      show ?thesis
      proof (cases "wall = None \<or> rate = None")
        case True
        then have "scan_members rate ms (b, False, gs @ [gid], ns @ [acc_group_name m]) = Inr (b', k', gs', ns')"
          using Cons.prems Some \<open>b\<close> wall by (auto simp: Let_def split: option.splits)
        from Cons.IH [OF this] show ?thesis by auto
      next
        case False
        then obtain w t r where v: "wall = Some (w, t)" "rate = Some r" by auto
        then have "scan_members rate ms (\<not> r < w, k, gs @ [gid], ns @ [acc_group_name m]) = Inr (b', k', gs', ns')"
          using Cons.prems Some \<open>b\<close> wall by (simp add: Let_def)
        from Cons.IH [OF this] show ?thesis
          using v wall Some \<open>b\<close> by (auto simp: rate_reaches_def rate_below_def)
      qed
    qed
  qed
qed

definition manual_members :: "string \<Rightarrow> routing_account list \<Rightarrow> routing_account list" where
  "manual_members i accounts = filter (\<lambda>a. acc_manual_priority a \<noteq> None \<and> acc_id a = i) accounts"

definition manual_change_justified ::
  "go_env \<Rightarrow> gotime \<Rightarrow> engine_config \<Rightarrow> routing_account list \<Rightarrow> manual_change \<Rightarrow> bool" where
  "manual_change_justified env now config accounts ch \<longleftrightarrow>
     (let a = mc_account ch; members = manual_members (acc_id a) accounts; rate = nonneg_rat (acc_multiplier a) in
      a \<in> set members \<and> acc_schedulable a = Some (\<not> mc_schedulable ch) \<and> \<not> manual_account_skipped config a \<and>
      list_all (\<lambda>m. acc_group_id m \<noteq> None) members \<and>
      (if mc_schedulable ch
       then mc_state ch = [] \<and> acc_effective_state a = ''cost_blocked'' \<and> cost_wall_recovery_allowed env a now \<and>
         \<not> catalog_binding_invalid (acc_catalog_binding_state a) \<and>
         (\<not> account_cost_wall_enabled config (acc_id a) \<or> list_ex (rate_below rate) members)
       else mc_state ch = ''cost_blocked'' \<and> account_cost_wall_enabled config (acc_id a) \<and>
         list_all (rate_reaches rate) members))"

lemma plan_manual_account_sound:
  assumes "plan_manual_account env now config (manual_members i accounts) = Inr (Some ch)"
  shows "acc_id (mc_account ch) = i \<and> manual_change_justified env now config accounts ch"
proof -
  obtain a rest where ms: "manual_members i accounts = a # rest"
    using assms by (cases "manual_members i accounts") (auto simp: plan_manual_account_def)
  then have "a \<in> set (manual_members i accounts)" by simp
  then have i: "acc_id a = i" by (simp add: manual_members_def)
  let ?rate = "nonneg_rat (acc_multiplier a)"
  have skip: "\<not> manual_account_skipped config a" using assms ms by (auto simp: plan_manual_account_def)
  obtain b k gs ns where scan: "scan_members ?rate (a # rest) (account_cost_wall_enabled config i, True, [], []) = Inr (b, k, gs, ns)"
    using assms ms skip i by (auto simp: plan_manual_account_def split: sum.splits)
  have ch: "k" "\<not> b \<longrightarrow> acc_effective_state a = ''cost_blocked'' \<and> cost_wall_recovery_allowed env a now \<and>
      \<not> catalog_binding_invalid (acc_catalog_binding_state a)" "acc_schedulable a \<noteq> Some (\<not> b)"
      "ch = \<lparr>mc_account = a, mc_group_ids = sort gs, mc_group_names = ns, mc_schedulable = \<not> b,
        mc_state = (if \<not> b then [] else ''cost_blocked'')\<rparr>"
    using assms ms skip i scan by (auto simp: plan_manual_account_def Let_def split: if_splits)
  have "acc_schedulable a = Some b" using ch(3) skip by (cases "acc_schedulable a") (auto simp: manual_account_skipped_def)
  then show ?thesis
    using scan_members_sound [OF scan] ch skip i ms unfolding manual_change_justified_def by (auto simp: Let_def)
qed

lemma plan_manual_accounts_sound:
  assumes "plan_manual_accounts env now config accounts ids = Inr changes" "distinct ids"
  shows "list_all (manual_change_justified env now config accounts) changes \<and>
    distinct (map (\<lambda>ch. acc_id (mc_account ch)) changes) \<and> set (map (\<lambda>ch. acc_id (mc_account ch)) changes) \<subseteq> set ids"
  using assms
proof (induction ids arbitrary: changes)
  case Nil
  then show ?case by simp
next
  case (Cons i ids)
  obtain change where change: "plan_manual_account env now config (manual_members i accounts) = Inr change"
    using Cons.prems(1) by (auto simp: manual_members_def split: sum.splits)
  obtain rest where rest: "plan_manual_accounts env now config accounts ids = Inr rest"
      "changes = (case change of None \<Rightarrow> rest | Some c \<Rightarrow> c # rest)"
    using Cons.prems(1) change
    by (cases "plan_manual_accounts env now config accounts ids") (auto simp: manual_members_def)
  note IH = Cons.IH [OF rest(1)]
  show ?case
  proof (cases change)
    case None
    then show ?thesis using IH rest(2) Cons.prems(2) by auto
  next
    case (Some ch)
    then show ?thesis
      using IH rest(2) Cons.prems(2) plan_manual_account_sound [OF change [unfolded Some]] by auto
  qed
qed

text \<open>A manually controlled account whose price reaches the wall of its only group.\<close>

definition sample_manual :: "routing_account list" where
  "sample_manual =
     [(plain_account ''1'' ''g'')\<lparr>acc_manual_priority := Some 1, acc_multiplier := Some ''2'',
        acc_group_cost_wall := Some ''1''\<rparr>]"

text \<open>C23: the manual cost wall only moves the switches it has a reason to move, once for each account.
  It closes an account only while the wall applies to it and every one of its memberships has a known wall
  its known price reaches. It opens one only when the wall itself had closed it, nothing upstream blocks it,
  its binding is valid, and either a membership's known wall is above its known price, or the wall no longer
  applies to it at all (disabled, or ignored for the account; then no price is asked for). Paused, disabled
  and fused accounts are left alone.\<close>

theorem manual_cost_wall_justified:
  assumes "plan_manual_cost_wall env now config accounts = Inr changes"
  shows "list_all (manual_change_justified env now config accounts) changes \<and>
    distinct (map (\<lambda>ch. acc_id (mc_account ch)) changes)"
  using plan_manual_accounts_sound [OF assms [unfolded plan_manual_cost_wall_def]] by simp

theorem manual_cost_wall_justified_witness:
  "\<exists>changes. plan_manual_cost_wall plain_env 0 sample_walled_config sample_manual = Inr changes \<and> changes \<noteq> [] \<and>
    list_all (manual_change_justified plain_env 0 sample_walled_config sample_manual) changes \<and>
    distinct (map (\<lambda>ch. acc_id (mc_account ch)) changes)"
proof -
  let ?a = "hd sample_manual"
  have "\<not> manual_account_skipped sample_walled_config ?a" by code_simp
  moreover have "nonneg_rat (acc_group_cost_wall ?a) = Some 1" "acc_profit_enabled ?a = None" by code_simp+
  then have "\<exists>t. effective_cost_wall ?a = Inr (Some (1, t))"
    by (simp add: effective_cost_wall_def nonnegative_decimal_def)
  then obtain t where "effective_cost_wall ?a = Inr (Some (1, t))" by blast
  moreover have "nonneg_rat (acc_multiplier ?a) = Some 2" by code_simp
  moreover have "account_cost_wall_enabled sample_walled_config ''1''" by code_simp
  ultimately have "map_sum (\<lambda>_. ()) (map mc_schedulable)
      (plan_manual_cost_wall plain_env 0 sample_walled_config sample_manual) = Inr [False]"
    by (simp add: plan_manual_cost_wall_def plan_manual_account_def sample_manual_def plain_account_def)
  then obtain changes where "plan_manual_cost_wall plain_env 0 sample_walled_config sample_manual = Inr changes"
      "map mc_schedulable changes = [False]"
    by (cases "plan_manual_cost_wall plain_env 0 sample_walled_config sample_manual") auto
  then show ?thesis using manual_cost_wall_justified by (intro exI [of _ changes]) auto
qed

end
