(* ===== verification/Routing_State.thy ===== *)
theory Routing_State
  imports Evidence Fuse_Budget Cost_Wall
begin

text \<open>
  The state a round gives each account (routing/service.go): the first judgement of a membership
  (\<open>applyInitialState\<close>), the animation verdict, and the alignment of an account's memberships to its
  primary one.

  The code compares candidates by pointer; the memberships of an account lie in different groups, so
  here a membership of an account is the primary one when it lies in the primary one's group. The
  routing decisions of the last round are a map from the code's two kinds of keys.
\<close>

subsection \<open>Confirming evidence\<close>

definition routing_evidence_confirmation :: "candidate \<Rightarrow> engine_config \<Rightarrow> bool \<times> bool" where
  "routing_evidence_confirmation c config =
     (let recent = int (recent_transient_failures (c_health c) (ec_http_window config));
          retried = int (retry_recovered_occurrences (c_rows c) (ec_http_window config));
          threshold = (if ec_transient_failures config < 1 then 2 else ec_transient_failures config);
          confirmed = int (h_failure_streak (c_health c)) \<ge> threshold;
          confirmed = (if ec_http_failures config > 0
            then confirmed \<or> recent \<ge> ec_http_failures config \<or> retried \<ge> ec_http_failures config else confirmed);
          slow = ec_latency_occurrences config > 0 \<and>
            int (slow_occurrences (c_rows c) (ec_latency_window config) (ec_latency_ttfb_ms config))
              \<ge> ec_latency_occurrences config;
          rate_limited = h_latest_event (c_health c) = Event_Rate_Limited;
          pending = (recent > 0 \<or> retried > 0) \<and> \<not> confirmed;
          confirmed = confirmed \<or> slow \<or> rate_limited \<or> h_fatal (c_health c)
      in (confirmed, pending \<and> \<not> confirmed))"

definition neutral_only :: "candidate \<Rightarrow> bool" where
  "neutral_only c \<longleftrightarrow> h_sample_count (c_health c) = 0 \<and> h_neutral_count (c_health c) > 0"

definition score_field :: "gomap \<Rightarrow> string \<Rightarrow> rat option" where
  "score_field payload key =
     (case map_of payload key of
        None \<Rightarrow> None
      | Some raw \<Rightarrow> map_option (\<lambda>v. min 100 (max 0 v)) (strict_number raw))"

definition previous_routing_health :: "candidate \<Rightarrow> engine_config \<Rightarrow> previous_decision \<Rightarrow> rat" where
  "previous_routing_health c config previous =
     (case score_field (pd_payload previous) ''routing_health_score'' of
        Some v \<Rightarrow> v
      | None \<Rightarrow>
          (case score_field (pd_payload previous) ''health_score'' of
             Some v \<Rightarrow> v
           | None \<Rightarrow>
               if equal_fold (trim_space (pd_state previous)) ''healthy'' \<or>
                  equal_fold (trim_space (acc_effective_state (c_account c))) ''healthy''
               then 100 else ec_degrade_threshold config))"

definition confirmed_routing_health ::
  "candidate \<Rightarrow> engine_config \<Rightarrow> previous_decision \<Rightarrow> bool \<Rightarrow> bool \<Rightarrow> rat" where
  "confirmed_routing_health c config previous confirmed pending =
     (if confirmed \<or> (\<not> pending \<and> \<not> neutral_only c) then h_health_score (c_health c)
      else
        let baseline = previous_routing_health c config previous in
        if pending then
          (let observed = min 100 (max 0 (h_health_score (c_health c))) in
           min baseline (fdiv (fadd 100 (max (ec_gate_floor config) observed)) 2))
        else baseline)"

definition apply_pending_health_reason :: "bool \<Rightarrow> candidate \<Rightarrow> candidate" where
  "apply_pending_health_reason pending c =
     (if \<not> pending then c else c\<lparr>c_evidence_pending := True, c_reason := c_reason c @ [M_Pending]\<rparr>)"

fun preserved_value :: "string list \<Rightarrow> string" where
  "preserved_value [] = ''unknown''"
| "preserved_value (v # vs) =
     (let n = to_lower (trim_space v) in
      if n \<in> {''healthy'', ''unknown'', ''survivor''} then n else preserved_value vs)"

definition preserved_routing_state :: "string list \<Rightarrow> string" where
  "preserved_routing_state vs = (if degraded_routing_state vs then ''degraded'' else preserved_value vs)"

definition degraded_recovery_allowed :: "candidate \<Rightarrow> engine_config \<Rightarrow> gotime \<Rightarrow> bool" where
  "degraded_recovery_allowed c config now = ar_ready (recovery_status c config now False)"

definition managed_account_can_receive_traffic :: "go_env \<Rightarrow> candidate \<Rightarrow> gotime \<Rightarrow> bool" where
  "managed_account_can_receive_traffic env c now \<longleftrightarrow>
     acc_schedulable (c_account c) \<noteq> None \<and> c_state c \<in> {''healthy'', ''degraded'', ''unknown'', ''survivor''} \<and>
     cost_wall_recovery_allowed env (c_account c) now"

subsection \<open>The first judgement of a membership\<close>

definition shut_as :: "string \<Rightarrow> reason \<Rightarrow> candidate \<Rightarrow> candidate" where
  "shut_as s r c = c\<lparr>c_state := s, c_schedulable := False, c_reason := r\<rparr>"

definition pending_fuse :: "string \<Rightarrow> reason \<Rightarrow> candidate \<Rightarrow> candidate" where
  "pending_fuse kind r c = (shut_as ''fuse_pending'' r c)\<lparr>c_fuse_kind := kind\<rparr>"

definition degraded_for :: "reason \<Rightarrow> candidate \<Rightarrow> candidate" where
  "degraded_for r c = c\<lparr>c_state := ''degraded'', c_reason := r\<rparr>"

text \<open>The cases decided by the scope, by an operator or by what is missing.\<close>

definition administrative_state :: "engine_config \<Rightarrow> candidate \<Rightarrow> candidate option" where
  "administrative_state config c =
     (let a = c_account c; name = to_lower (trim_space (acc_id a)); (allowed, reason) = eligible_scope a config in
      if \<not> allowed then Some (shut_as ''excluded'' reason c)
      else if acc_paused a then Some (shut_as ''paused'' [M_Manual_Pause] c)
      else if name \<in> set (ec_paused_accounts config) then Some (shut_as ''paused'' [M_Policy_Pause] c)
      else if account_disabled a then Some (shut_as ''disabled'' [M_Account_Disabled] c)
      else if catalog_binding_invalid (acc_catalog_binding_state a)
      then Some (shut_as ''binding_invalid''
             [case acc_catalog_binding_reason a of Some t \<Rightarrow> M_Text t | None \<Rightarrow> M_Binding_Invalid] c)
      else if acc_schedulable a = None then Some (shut_as ''unknown'' [M_Schedulable_Unknown] c)
      else if name \<in> set (ec_manual_fused_accounts config) then Some (shut_as ''fused'' [M_Manual_Fuse] c)
      else if c_rate c = None
      then Some (pending_fuse ''soft'' [case c_rate_reason c of Some r \<Rightarrow> r | None \<Rightarrow> M_Rate_Unavailable] c)
      else None)"

definition fuse_deadline :: "go_env \<Rightarrow> engine_config \<Rightarrow> previous_decision \<Rightarrow> gotime" where
  "fuse_deadline env config previous =
     (let until = previous_fused_until env previous; since = previous_state_since env previous in
      if until = zero_time \<and> since \<noteq> zero_time then since + ec_fused_cooldown config else until)"

definition fused_state :: "go_env \<Rightarrow> engine_config \<Rightarrow> previous_decision \<Rightarrow> gotime \<Rightarrow> candidate \<Rightarrow> candidate" where
  "fused_state env config previous now c =
     (let c = c\<lparr>c_fused_until := fuse_deadline env config previous\<rparr>;
          recovery = recovery_status c config now True
      in if ar_ready recovery
         then c\<lparr>c_state := ''healthy'', c_schedulable := True, c_reason := [M_Recovered], c_fused_until := zero_time\<rparr>
         else shut_as ''fused'' (recovery_reason recovery) c)"

definition breaker_state :: "go_env \<Rightarrow> engine_config \<Rightarrow> gotime \<Rightarrow> candidate \<Rightarrow> candidate option" where
  "breaker_state env config now c =
     (let h = c_health c; unlimited = \<not> candidate_rate_limited env c now in
      if \<not> ec_breaker_enabled config then None
      else if ec_hard_fatal config \<and> h_fatal h then Some (pending_fuse ''hard'' [M_Fatal] c)
      else if unlimited \<and> latest_status_in env (c_rows c) (ec_instant_codes config)
      then Some (pending_fuse ''soft'' [M_Instant_Code] c)
      else if unlimited \<and> int (recent_http_failures h (ec_http_window config)) \<ge> ec_http_failures config \<and>
              h_health_score h < ec_http_score_below config
      then Some (if ec_http_degrade_only config then degraded_for [M_Http_Degrade] c
                 else pending_fuse ''soft'' [M_Http_Fuse] c)
      else if ec_latency_occurrences config > 0 \<and> unlimited \<and>
              int (slow_occurrences (c_rows c) (ec_latency_window config) (ec_latency_ttfb_ms config))
                \<ge> ec_latency_occurrences config
      then Some (if ec_latency_degrade_only config then degraded_for [M_Latency_Degrade] c
                 else pending_fuse ''soft'' [M_Latency_Fuse] c)
      else if ec_http_failures config > 0 \<and>
              int (retry_recovered_occurrences (c_rows c) (ec_http_window config)) \<ge> ec_http_failures config
      then Some (degraded_for [M_Retry_Recovered] c)
      else None)"

definition observed_state ::
  "engine_config \<Rightarrow> previous_decision \<Rightarrow> gotime \<Rightarrow> bool \<Rightarrow> bool \<Rightarrow> candidate \<Rightarrow> candidate" where
  "observed_state config previous now previous_pending pending c =
     (let effective = acc_effective_state (c_account c); h = c_health c in
      if neutral_only c
      then apply_pending_health_reason previous_pending
             (c\<lparr>c_state := preserved_routing_state [effective, pd_state previous], c_reason := [M_Client_Error_Only]\<rparr>)
      else if h_sample_count h = 0 then c\<lparr>c_state := ''unknown'', c_reason := [M_No_Samples]\<rparr>
      else if degraded_routing_state [effective, pd_state previous] \<and> \<not> degraded_recovery_allowed c config now
      then apply_pending_health_reason pending
             (degraded_for (recovery_reason (recovery_status c config now False)) c)
      else if ec_degrade_enabled config \<and> h_sample_count h > 0 \<and> h_health_score h < ec_degrade_threshold config
      then apply_pending_health_reason pending (degraded_for [M_Below_Degrade (ec_degrade_threshold config)] c)
      else if pending then apply_pending_health_reason True (c\<lparr>c_reason := []\<rparr>)
      else c)"

definition judged_state ::
  "go_env \<Rightarrow> engine_config \<Rightarrow> previous_decision \<Rightarrow> gotime \<Rightarrow> bool \<Rightarrow> bool \<Rightarrow> candidate \<Rightarrow> candidate" where
  "judged_state env config previous now previous_pending pending c =
     (case administrative_state config c of
        Some d \<Rightarrow> d
      | None \<Rightarrow>
          if fused_routing_state (acc_effective_state (c_account c)) then fused_state env config previous now c
          else (case breaker_state env config now c of
                  Some d \<Rightarrow> d
                | None \<Rightarrow> observed_state config previous now previous_pending pending c))"

definition apply_initial_state ::
  "go_env \<Rightarrow> engine_config \<Rightarrow> previous_decision \<Rightarrow> gotime \<Rightarrow> candidate \<Rightarrow> candidate" where
  "apply_initial_state env config previous now c =
     (let a = c_account c;
          c = c\<lparr>c_schedulable := remote_schedulable a\<rparr>;
          c = (if equal_fold (trim_space (acc_effective_state a)) ''binding_invalid'' \<and>
                  equal_fold (trim_space (acc_catalog_binding_state a)) ''active''
               then c\<lparr>c_state := ''healthy'', c_schedulable := True, c_reason := [M_Binding_Restored]\<rparr> else c);
          c = c\<lparr>c_evidence_pending := False\<rparr>;
          (confirmed, pending) = routing_evidence_confirmation c config;
          previous_pending = map_of (pd_payload previous) ''evidence_pending'' = Some (GBool True);
          (confirmed, pending) =
            (if pending \<and> degraded_routing_state [acc_effective_state a, pd_state previous] \<and> \<not> previous_pending
             then (True, False) else (confirmed, pending));
          c = c\<lparr>c_routing_health := confirmed_routing_health c config previous confirmed pending\<rparr>;
          c = judged_state env config previous now previous_pending pending c
      in if (ec_manage_all_accounts config \<or> previously_concurrency_limited a) \<and>
            managed_account_can_receive_traffic env c now
         then c\<lparr>c_schedulable := True\<rparr> else c)"

definition apply_animation_failure_state :: "engine_config \<Rightarrow> candidate \<Rightarrow> candidate" where
  "apply_animation_failure_state config c =
     (if c_animation_verdict c \<noteq> ''error'' \<or> c_animation_failure_kind c \<noteq> ''upstream'' \<or>
         c_state c \<in> {''excluded'', ''paused'', ''disabled'', ''fused''} then c
      else if ec_animation_failure_action config = ''degrade'' then degraded_for [M_Animation_Degrade] c
      else if ec_animation_failure_action config = ''fuse'' then pending_fuse ''soft'' [M_Animation_Fuse] c
      else c)"

subsection \<open>Aligning the memberships of an account\<close>

type_synonym decisions = "string \<rightharpoonup> previous_decision"

definition routing_key :: "string \<Rightarrow> string \<Rightarrow> string" where
  "routing_key account_id group_name = account_id @ CHR 0x00 # group_name"

definition find_previous :: "decisions \<Rightarrow> string \<Rightarrow> string \<Rightarrow> previous_decision option" where
  "find_previous decisions account_id group_name =
     (case decisions (routing_key account_id group_name) of
        Some d \<Rightarrow> Some d | None \<Rightarrow> decisions account_id)"

text \<open>The zero value of Go's struct, where no decision is found.\<close>

definition no_previous :: previous_decision where
  "no_previous =
     \<lparr>pd_account_id = [], pd_group_name = [], pd_priority = None, pd_schedulable = None, pd_state = [],
      pd_updated_at = [], pd_last_apply_at = zero_time, pd_last_weight_write_at = zero_time,
      pd_last_scaling_write_at = zero_time, pd_payload = []\<rparr>"

definition prior_decision :: "decisions \<Rightarrow> candidate \<Rightarrow> previous_decision" where
  "prior_decision decisions c =
     (case find_previous decisions (c_id c) (c_group c) of Some d \<Rightarrow> d | None \<Rightarrow> no_previous)"

definition inherit_evidence :: "candidate \<Rightarrow> candidate \<Rightarrow> candidate" where
  "inherit_evidence p c =
     c\<lparr>c_health := c_health p, c_rows := c_rows p, c_recovery_hold_span := c_recovery_hold_span p,
       c_rate := c_rate p, c_rate_text := c_rate_text p, c_rate_known := c_rate_known p,
       c_rate_reason := c_rate_reason p, c_cost_tier := fst (cost_tier (c_rate p) (c_cost_wall c)),
       c_cost_tier_rank := snd (cost_tier (c_rate p) (c_cost_wall c))\<rparr>"

definition inherit_state :: "candidate \<Rightarrow> candidate \<Rightarrow> candidate" where
  "inherit_state p c =
     c\<lparr>c_state := c_state p, c_reason := c_reason p, c_schedulable := c_schedulable p,
       c_fuse_kind := c_fuse_kind p, c_routing_health := c_routing_health p,
       c_evidence_pending := c_evidence_pending p, c_fused_until := c_fused_until p\<rparr>"

definition reset_primary :: "candidate \<Rightarrow> candidate" where
  "reset_primary p =
     p\<lparr>c_state := ''healthy'', c_reason := [M_Computed], c_schedulable := remote_schedulable (c_account p),
       c_fuse_kind := [], c_fused_until := zero_time\<rparr>"

definition align_account ::
  "go_env \<Rightarrow> gotime \<Rightarrow> configs \<Rightarrow> decisions \<Rightarrow> string \<Rightarrow> round \<Rightarrow> round" where
  "align_account env now configs decisions a cs =
     (case primary_membership (account_members a cs) of
        None \<Rightarrow> cs
      | Some p \<Rightarrow>
          (let config = configs (c_group p);
               cs = update_account a (\<lambda>c. if c_group c = c_group p then c else inherit_evidence p c) cs;
               q = apply_initial_state env config (prior_decision decisions p) now (reset_primary p);
               q = apply_account_cost_wall env now config (account_members a cs) q
           in update_account a
                (\<lambda>c. if c_group c = c_group p then q\<lparr>c_account := c_account c\<rparr> else inherit_state q c) cs))"

definition align_accounts ::
  "go_env \<Rightarrow> gotime \<Rightarrow> configs \<Rightarrow> decisions \<Rightarrow> string list \<Rightarrow> round \<Rightarrow> round" where
  "align_accounts env now configs decisions accounts_order cs =
     fold (align_account env now configs decisions) accounts_order cs"

subsection \<open>What a judgement leaves untouched\<close>

definition closed_state :: "string \<Rightarrow> bool" where
  "closed_state st \<longleftrightarrow>
     st \<in> {''excluded'', ''paused'', ''disabled'', ''binding_invalid'', ''fused'', ''fuse_pending''}"

lemma shut_as_simps [simp]:
  "c_state (shut_as st r c) = st" "c_schedulable (shut_as st r c) = False" "c_account (shut_as st r c) = c_account c"
  "c_routing_health (shut_as st r c) = c_routing_health c" "c_health (shut_as st r c) = c_health c"
  "c_evidence_pending (shut_as st r c) = c_evidence_pending c" "c_rate (shut_as st r c) = c_rate c"
  "c_cost_tier (shut_as st r c) = c_cost_tier c" "c_rows (shut_as st r c) = c_rows c"
  by (simp_all add: shut_as_def)

lemma pending_fuse_simps [simp]:
  "c_state (pending_fuse k r c) = ''fuse_pending''" "c_schedulable (pending_fuse k r c) = False"
  "c_account (pending_fuse k r c) = c_account c" "c_routing_health (pending_fuse k r c) = c_routing_health c"
  "c_health (pending_fuse k r c) = c_health c" "c_evidence_pending (pending_fuse k r c) = c_evidence_pending c"
  "c_rate (pending_fuse k r c) = c_rate c" "c_cost_tier (pending_fuse k r c) = c_cost_tier c"
  "c_rows (pending_fuse k r c) = c_rows c"
  by (simp_all add: pending_fuse_def)

lemma degraded_for_simps [simp]:
  "c_state (degraded_for r c) = ''degraded''" "c_schedulable (degraded_for r c) = c_schedulable c"
  "c_account (degraded_for r c) = c_account c" "c_routing_health (degraded_for r c) = c_routing_health c"
  "c_health (degraded_for r c) = c_health c" "c_evidence_pending (degraded_for r c) = c_evidence_pending c"
  "c_rate (degraded_for r c) = c_rate c" "c_cost_tier (degraded_for r c) = c_cost_tier c"
  "c_rows (degraded_for r c) = c_rows c"
  by (simp_all add: degraded_for_def)

lemma apply_pending_simps [simp]:
  "c_state (apply_pending_health_reason b c) = c_state c"
  "c_schedulable (apply_pending_health_reason b c) = c_schedulable c"
  "c_account (apply_pending_health_reason b c) = c_account c"
  "c_routing_health (apply_pending_health_reason b c) = c_routing_health c"
  "c_health (apply_pending_health_reason b c) = c_health c"
  "c_rate (apply_pending_health_reason b c) = c_rate c"
  "c_cost_tier (apply_pending_health_reason b c) = c_cost_tier c"
  "c_rows (apply_pending_health_reason b c) = c_rows c"
  "c_evidence_pending (apply_pending_health_reason b c) = (b \<or> c_evidence_pending c)"
  by (simp_all add: apply_pending_health_reason_def)

text \<open>The evidence, the prices and the account of a candidate.\<close>

definition evidence_of :: "candidate \<Rightarrow> routing_account \<times> health \<times> routing_sample list \<times> rat option \<times> rat option \<times> string" where
  "evidence_of c = (c_account c, c_health c, c_rows c, c_rate c, c_cost_wall c, c_cost_tier c)"

lemma evidence_of_simps [simp]:
  "evidence_of (shut_as st r c) = evidence_of c" "evidence_of (pending_fuse k r c) = evidence_of c"
  "evidence_of (degraded_for r c) = evidence_of c" "evidence_of (apply_pending_health_reason b c) = evidence_of c"
  by (simp_all add: evidence_of_def shut_as_def pending_fuse_def degraded_for_def apply_pending_health_reason_def)

lemma administrative_state_keeps:
  "administrative_state config c = Some d \<Longrightarrow> evidence_of d = evidence_of c \<and> c_routing_health d = c_routing_health c \<and>
     c_evidence_pending d = c_evidence_pending c"
  by (auto simp: administrative_state_def Let_def split: prod.splits if_splits)

lemma fused_state_keeps:
  "evidence_of (fused_state env config previous now c) = evidence_of c \<and>
   c_routing_health (fused_state env config previous now c) = c_routing_health c \<and>
   c_evidence_pending (fused_state env config previous now c) = c_evidence_pending c"
  by (simp add: fused_state_def Let_def evidence_of_def shut_as_def)

lemma breaker_state_keeps:
  "breaker_state env config now c = Some d \<Longrightarrow> evidence_of d = evidence_of c \<and> c_routing_health d = c_routing_health c \<and>
     c_evidence_pending d = c_evidence_pending c"
  by (auto simp: breaker_state_def Let_def split: if_splits)

lemma observed_state_keeps:
  "evidence_of (observed_state config previous now pp pending c) = evidence_of c \<and>
   c_routing_health (observed_state config previous now pp pending c) = c_routing_health c"
  by (simp add: observed_state_def Let_def evidence_of_def apply_pending_health_reason_def degraded_for_def)

lemma judged_state_keeps:
  "evidence_of (judged_state env config previous now pp pending c) = evidence_of c \<and>
   c_routing_health (judged_state env config previous now pp pending c) = c_routing_health c"
  using administrative_state_keeps [of config c] breaker_state_keeps [of env config now c] fused_state_keeps
    observed_state_keeps
  by (simp add: judged_state_def split: option.splits)

text \<open>The candidate a judgement starts from, once its routing health is known.\<close>

definition judged_from :: "engine_config \<Rightarrow> previous_decision \<Rightarrow> candidate \<Rightarrow> candidate \<Rightarrow> bool \<Rightarrow> bool" where
  "judged_from config previous c d pending \<longleftrightarrow>
     evidence_of d = evidence_of c \<and> c_evidence_pending d = False \<and> c_recovery_hold_span d = c_recovery_hold_span c \<and>
     (c_state d = c_state c \<or> c_state d = ''healthy'') \<and>
     (\<exists>confirmed. c_routing_health d = confirmed_routing_health c config previous confirmed pending \<and>
        (pending \<longrightarrow> \<not> confirmed))"

lemma confirmed_routing_health_cong:
  "evidence_of d = evidence_of c \<Longrightarrow>
   confirmed_routing_health d config previous confirmed pending = confirmed_routing_health c config previous confirmed pending"
proof -
  assume "evidence_of d = evidence_of c"
  then have eqs: "c_account d = c_account c" "c_health d = c_health c" by (simp_all add: evidence_of_def)
  show ?thesis unfolding confirmed_routing_health_def neutral_only_def previous_routing_health_def eqs ..
qed

lemma apply_initial_state_cases:
  obtains d pending where "judged_from config previous c d pending"
    "apply_initial_state env config previous now c =
       (let e = judged_state env config previous now
                  (map_of (pd_payload previous) ''evidence_pending'' = Some (GBool True)) pending d
        in if (ec_manage_all_accounts config \<or> previously_concurrency_limited (c_account c)) \<and>
              managed_account_can_receive_traffic env e now
           then e\<lparr>c_schedulable := True\<rparr> else e)"
proof -
  let ?a = "c_account c"
  let ?c1 = "c\<lparr>c_schedulable := remote_schedulable ?a\<rparr>"
  let ?c2 = "(if equal_fold (trim_space (acc_effective_state ?a)) ''binding_invalid'' \<and>
                  equal_fold (trim_space (acc_catalog_binding_state ?a)) ''active''
               then ?c1\<lparr>c_state := ''healthy'', c_schedulable := True, c_reason := [M_Binding_Restored]\<rparr> else ?c1)"
  let ?c3 = "?c2\<lparr>c_evidence_pending := False\<rparr>"
  obtain confirmed0 pending0 where conf: "routing_evidence_confirmation ?c3 config = (confirmed0, pending0)"
    by (metis surj_pair)
  let ?pp = "map_of (pd_payload previous) ''evidence_pending'' = Some (GBool True)"
  obtain confirmed pending where cp:
    "(if pending0 \<and> degraded_routing_state [acc_effective_state ?a, pd_state previous] \<and> \<not> ?pp
      then (True, False) else (confirmed0, pending0)) = (confirmed, pending)" by (metis surj_pair)
  have "pending0 \<longrightarrow> \<not> confirmed0"
    using conf unfolding routing_evidence_confirmation_def Let_def by auto
  then have pend: "pending \<longrightarrow> \<not> confirmed" using cp by (auto split: if_splits)
  let ?d = "?c3\<lparr>c_routing_health := confirmed_routing_health ?c3 config previous confirmed pending\<rparr>"
  have ev: "evidence_of ?c3 = evidence_of c" by (simp add: evidence_of_def)
  have "judged_from config previous c ?d pending"
    using ev pend confirmed_routing_health_cong [OF ev] unfolding judged_from_def by (auto simp: evidence_of_def)
  then show ?thesis
  proof (rule that)
    show "apply_initial_state env config previous now c =
       (let e = judged_state env config previous now ?pp pending ?d
        in if (ec_manage_all_accounts config \<or> previously_concurrency_limited ?a) \<and>
              managed_account_can_receive_traffic env e now
           then e\<lparr>c_schedulable := True\<rparr> else e)"
      unfolding apply_initial_state_def Let_def conf prod.case cp ..
  qed
qed

subsection \<open>Closed states\<close>

lemma preserved_value_range: "preserved_value vs \<in> {''healthy'', ''unknown'', ''survivor''}"
  by (induction vs rule: preserved_value.induct) (auto simp: Let_def)

lemma preserved_routing_state_range:
  "preserved_routing_state vs \<in> {''degraded'', ''healthy'', ''unknown'', ''survivor''}"
  using preserved_value_range [of vs] by (auto simp: preserved_routing_state_def)

lemma observed_state_range:
  "c_state (observed_state config previous now pp pending c) \<in>
     {''degraded'', ''healthy'', ''unknown'', ''survivor'', c_state c}"
  using preserved_routing_state_range [of "[acc_effective_state (c_account c), pd_state previous]"]
  by (auto simp: observed_state_def Let_def)

lemma breaker_state_range:
  "breaker_state env config now c = Some d \<Longrightarrow>
   c_state d = ''degraded'' \<or> (c_state d = ''fuse_pending'' \<and> \<not> c_schedulable d)"
  by (auto simp: breaker_state_def Let_def split: if_splits)

lemma administrative_state_range:
  "administrative_state config c = Some d \<Longrightarrow>
   \<not> c_schedulable d \<and>
   c_state d \<in> {''excluded'', ''paused'', ''disabled'', ''binding_invalid'', ''unknown'', ''fused'', ''fuse_pending''}"
  by (auto simp: administrative_state_def Let_def split: prod.splits if_splits)

lemma administrative_state_unknown:
  "administrative_state config c = None \<Longrightarrow> acc_schedulable (c_account c) \<noteq> None \<and> c_rate c \<noteq> None"
  by (auto simp: administrative_state_def Let_def split: prod.splits if_splits)

lemma fused_state_range:
  "c_state (fused_state env config previous now c) = ''healthy'' \<or>
   (c_state (fused_state env config previous now c) = ''fused'' \<and> \<not> c_schedulable (fused_state env config previous now c))"
  by (simp add: fused_state_def Let_def)

lemma judged_state_closed:
  assumes "\<not> closed_state (c_state c)" "closed_state (c_state (judged_state env config previous now pp pending c))"
  shows "\<not> c_schedulable (judged_state env config previous now pp pending c)"
proof (cases "administrative_state config c")
  case (Some d)
  then show ?thesis using administrative_state_range [OF Some] by (simp add: judged_state_def)
next
  case None
  note none = None
  show ?thesis
  proof (cases "fused_routing_state (acc_effective_state (c_account c))")
    case True
    then show ?thesis using assms(2) fused_state_range [of env config previous now c] None
      by (auto simp: judged_state_def closed_state_def)
  next
    case False
    show ?thesis
    proof (cases "breaker_state env config now c")
      case (Some d)
      then show ?thesis using assms(2) breaker_state_range [OF Some] None False
        by (auto simp: judged_state_def closed_state_def)
    next
      case None
      then show ?thesis using assms False none observed_state_range [of config previous now pp pending c]
        by (auto simp: judged_state_def closed_state_def)
    qed
  qed
qed

lemma initial_state_closed:
  assumes "\<not> closed_state (c_state c)"
  shows "(closed_state (c_state (apply_initial_state env config previous now c)) \<or> acc_schedulable (c_account c) = None
     \<longrightarrow> \<not> c_schedulable (apply_initial_state env config previous now c))"
proof -
  obtain d pending where d: "judged_from config previous c d pending"
    "apply_initial_state env config previous now c =
       (let e = judged_state env config previous now
                  (map_of (pd_payload previous) ''evidence_pending'' = Some (GBool True)) pending d
        in if (ec_manage_all_accounts config \<or> previously_concurrency_limited (c_account c)) \<and>
              managed_account_can_receive_traffic env e now
           then e\<lparr>c_schedulable := True\<rparr> else e)"
    by (rule apply_initial_state_cases [of config previous c env now])
  let ?e = "judged_state env config previous now
      (map_of (pd_payload previous) ''evidence_pending'' = Some (GBool True)) pending d"
  have acc: "c_account d = c_account c" using d(1) by (simp add: judged_from_def evidence_of_def)
  have acc_e: "c_account ?e = c_account c"
    using judged_state_keeps [of env config previous now _ pending d] acc by (simp add: evidence_of_def)
  have "\<not> closed_state (c_state d)"
    using d(1) assms by (auto simp: judged_from_def closed_state_def)
  then have closed: "closed_state (c_state ?e) \<Longrightarrow> \<not> c_schedulable ?e" by (rule judged_state_closed)
  have none: "\<not> c_schedulable ?e" if unknown: "acc_schedulable (c_account c) = None"
  proof -
    have "administrative_state config d \<noteq> None"
      using administrative_state_unknown [of config d] unknown acc by auto
    then obtain f where f: "administrative_state config d = Some f" by blast
    show ?thesis using administrative_state_range [OF f] f by (simp add: judged_state_def)
  qed
  have traffic: "managed_account_can_receive_traffic env ?e now \<Longrightarrow>
      \<not> closed_state (c_state ?e) \<and> acc_schedulable (c_account c) \<noteq> None"
    using acc_e by (auto simp: managed_account_can_receive_traffic_def closed_state_def)
  show ?thesis using closed none traffic unfolding d(2) Let_def by (auto split: if_splits)
qed

text \<open>C26: the first judgement never leaves a closed account open. An account that ends excluded, paused,
  disabled, with an invalid binding, fused or with a pending fuse takes no traffic, whatever the policy
  of managing all accounts says; nor does one whose remote switch is unknown.\<close>

theorem closed_states_receive_nothing:
  assumes "\<not> closed_state (c_state c)"
  shows "(closed_state (c_state (apply_initial_state env config previous now c)) \<or> acc_schedulable (c_account c) = None
     \<longrightarrow> \<not> c_schedulable (apply_initial_state env config previous now c))"
  by (rule initial_state_closed [OF assms])

definition sample_paused :: candidate where
  "sample_paused = plain_candidate ((plain_account ''1'' ''g'')\<lparr>acc_paused := True\<rparr>)"

theorem closed_states_receive_nothing_witness:
  "closed_state (c_state (apply_initial_state plain_env plain_config no_previous 0 sample_paused)) \<and>
   \<not> c_schedulable (apply_initial_state plain_env plain_config no_previous 0 sample_paused)"
proof -
  have "c_state (apply_initial_state plain_env plain_config no_previous 0 sample_paused) = ''paused''" by code_simp
  moreover have "\<not> closed_state (c_state sample_paused)" by code_simp
  ultimately show ?thesis
    using closed_states_receive_nothing [of sample_paused plain_env plain_config no_previous 0]
    by (simp add: closed_state_def)
qed

subsection \<open>Leaving the fused state\<close>

lemma score_routing_health_fatal:
  shows "h_fatal (score_routing_health env config current history) =
    h_fatal (score_routing_rows env (config\<lparr>sc_long_window := max (sc_long_window config) (length current)\<rparr>) current)"
  by (simp add: score_routing_health_def Let_def)

lemma health_of_fatal_head:
  assumes "\<not> cl_neutral k" "cl_fatal k" "length ks = length xs"
  shows "h_fatal (health_of config (x # xs) (k # ks))"
  using assms by (simp add: health_of_def Let_def)

lemma classify_row_fatal: "cl_fatal (classify_row env config row) \<Longrightarrow> \<not> cl_neutral (classify_row env config row)"
  using classify_well_classified [of config "ge_json env" "row_sample env row"]
  by (auto simp: classify_row_def well_classified_def flags_def flags_of_def)

lemma classify_cong_window:
  "classify json (config\<lparr>sc_long_window := w\<rparr>) sample = classify json config sample"
  by (cases config) (simp only: classify_def quota_failure_def credential_failure_def scoring_config.simps)

lemma fatal_head_fatal:
  assumes "cl_fatal (classify_row env config p)"
  shows "h_fatal (score_routing_health env config (p # hs) history)"
proof -
  let ?config = "config\<lparr>sc_long_window := max (sc_long_window config) (length (p # hs))\<rparr>"
  let ?k = "classify_row env config p"
  have "score_routing_rows env ?config (p # hs) =
      health_of ?config (map (row_sample env) (p # hs)) (map (classify (ge_json env) ?config) (map (row_sample env) (p # hs)))"
    by (simp add: score_routing_rows_def health_score_with_def)
  also have "classify (ge_json env) ?config = classify (ge_json env) config"
    by (rule ext) (simp only: classify_cong_window)
  finally have "h_fatal (score_routing_rows env ?config (p # hs))"
    using health_of_fatal_head [of ?k "map (classify (ge_json env) config) (map (row_sample env) hs)"
        "map (row_sample env) hs" ?config "row_sample env p"] assms classify_row_fatal [OF assms]
    by (simp add: classify_row_def)
  then show ?thesis by (simp add: score_routing_health_def Let_def)
qed

lemma cooldown_over: "\<lceil>max 0 (rat_of_int (time_sub a now) / 1000000000)\<rceil> = 0 \<longleftrightarrow> a \<le> now"
proof -
  have "\<lceil>max 0 (rat_of_int d / 1000000000)\<rceil> = 0 \<longleftrightarrow> d \<le> 0" for d :: int
  proof -
    have "\<lceil>max 0 (rat_of_int d / 1000000000)\<rceil> = 0 \<longleftrightarrow> rat_of_int d / 1000000000 \<le> 0"
      by (auto simp: ceiling_eq_iff max_def)
    then show ?thesis by (simp add: divide_le_0_iff)
  qed
  moreover have "time_sub a now \<le> 0 \<longleftrightarrow> a \<le> now" by (auto simp: time_sub_def int64_bounds)
  ultimately show ?thesis by simp
qed

definition recovered :: "engine_config \<Rightarrow> gotime \<Rightarrow> gotime \<Rightarrow> candidate \<Rightarrow> bool" where
  "recovered config now deadline c \<longleftrightarrow>
     ec_recovery_enabled config \<and> h_health_score (c_health c) \<ge> ec_recovery_target config \<and>
     int (h_recovery_pass_streak (c_health c)) \<ge> ec_recovery_successes config \<and>
     (case c_recovery_hold_span c of Some d \<Rightarrow> d
      | None \<Rightarrow> recovery_span (c_rows c) (h_recovery_pass_streak (c_health c)) now) \<ge> ec_recovery_hold config \<and>
     \<not> h_fatal (c_health c) \<and> deadline \<le> now"

lemma fused_state_recovers:
  assumes "c_schedulable (fused_state env config previous now c)"
  shows "recovered config now (fuse_deadline env config previous) c"
proof -
  have "ar_ready (recovery_status (c\<lparr>c_fused_until := fuse_deadline env config previous\<rparr>) config now True)"
    using assms by (simp add: fused_state_def Let_def split: if_splits)
  then show ?thesis unfolding recovery_status_def recovered_def Let_def by (simp add: cooldown_over cong: option.case_cong)
qed

lemma initial_fused_schedulable:
  assumes "fused_routing_state (acc_effective_state (c_account c))"
    and "c_schedulable (apply_initial_state env config previous now c)"
  shows "\<exists>d pending. judged_from config previous c d pending \<and> c_schedulable (fused_state env config previous now d)"
proof -
  obtain d pending where d: "judged_from config previous c d pending"
    "apply_initial_state env config previous now c =
       (let e = judged_state env config previous now
                  (map_of (pd_payload previous) ''evidence_pending'' = Some (GBool True)) pending d
        in if (ec_manage_all_accounts config \<or> previously_concurrency_limited (c_account c)) \<and>
              managed_account_can_receive_traffic env e now
           then e\<lparr>c_schedulable := True\<rparr> else e)"
    by (rule apply_initial_state_cases [of config previous c env now])
  let ?e = "judged_state env config previous now
      (map_of (pd_payload previous) ''evidence_pending'' = Some (GBool True)) pending d"
  have acc: "c_account d = c_account c" using d(1) by (simp add: judged_from_def evidence_of_def)
  have e: "c_schedulable ?e \<or> managed_account_can_receive_traffic env ?e now"
    using assms(2) unfolding d(2) Let_def by (auto split: if_splits)
  have "administrative_state config d = None"
  proof (rule ccontr)
    assume "administrative_state config d \<noteq> None"
    then obtain f where f: "administrative_state config d = Some f" by blast
    then have ef: "?e = f" by (simp add: judged_state_def)
    have traffic: "managed_account_can_receive_traffic env f now" using e administrative_state_range [OF f] ef by simp
    then have "c_state f = ''unknown''" using administrative_state_range [OF f]
      by (auto simp: managed_account_can_receive_traffic_def)
    then have "acc_schedulable (c_account d) = None"
      using f by (auto simp: administrative_state_def Let_def split: prod.splits if_splits)
    moreover have "c_account f = c_account d" using administrative_state_keeps [OF f] by (simp add: evidence_of_def)
    ultimately show False using traffic by (simp add: managed_account_can_receive_traffic_def)
  qed
  then have ef: "?e = fused_state env config previous now d" using assms(1) acc by (simp add: judged_state_def)
  have "c_schedulable (fused_state env config previous now d)"
  proof (rule ccontr)
    assume n: "\<not> c_schedulable (fused_state env config previous now d)"
    then have "c_state (fused_state env config previous now d) = ''fused''"
      by (simp add: fused_state_def Let_def split: if_splits)
    then show False using e n ef by (simp add: managed_account_can_receive_traffic_def)
  qed
  then show ?thesis using d(1) by blast
qed

text \<open>C27: a fused account takes traffic again only when it has earned it: recovery is enabled, the score,
  the number of successes in a row and the time they span reach the policy, no credential failure is
  in sight, the cooldown has passed, and every row of the evidence was observed after the fuse.\<close>

theorem fused_recovers_on_post_fuse_evidence:
  assumes "fused_routing_state (acc_effective_state (c_account c))"
    and "evidence = evaluate_routing_health env map_order (c_account c) samples previous config now"
    and "c_health c = he_health evidence" and "c_rows c = he_rows evidence"
    and "c_schedulable (apply_initial_state env config previous now c)"
  shows "recovered config now (fuse_deadline env config previous) c \<and>
    list_all (observed_after (previous_state_since env previous)) (c_rows c)"
proof -
  obtain d pending where d: "judged_from config previous c d pending" "c_schedulable (fused_state env config previous now d)"
    using initial_fused_schedulable [OF assms(1,5)] by blast
  have "recovered config now (fuse_deadline env config previous) d" by (rule fused_state_recovers [OF d(2)])
  moreover have "c_health d = c_health c" "c_rows d = c_rows c" "c_recovery_hold_span d = c_recovery_hold_span c"
    using d(1) by (simp_all add: judged_from_def evidence_of_def)
  ultimately have rec: "recovered config now (fuse_deadline env config previous) c"
    by (simp add: recovered_def cong: option.case_cong)
  let ?rows = "fst (evidence_rows env (c_account c) samples previous config now)"
  have rows: "c_rows c = ?rows"
    unfolding assms(4,2) evaluate_routing_health_def Let_def by (simp split: prod.split)
  have "h_fatal (c_health c) = h_fatal (score_routing_health env (ec_sample_classification config) ?rows ?rows)"
    unfolding assms(3,2) evaluate_routing_health_def Let_def using assms(1) by (simp split: prod.split)
  then have "\<not> h_fatal (score_routing_health env (ec_sample_classification config) ?rows ?rows)"
    using rec by (simp add: recovered_def)
  then have "\<nexists>p hs. ?rows = p # hs \<and> cl_fatal (classify_row env (ec_sample_classification config) p)"
    using fatal_head_fatal by metis
  then have "list_all (observed_after (previous_state_since env previous)) ?rows"
    using evidence_rows_post_fuse [OF assms(1)] by metis
  then show ?thesis using rec rows by simp
qed

definition sample_recovery_config :: engine_config where
  "sample_recovery_config = plain_config\<lparr>ec_probe_max_age := 1000, ec_recovery_successes := 1\<rparr>"

definition sample_fused_account :: routing_account where
  "sample_fused_account = (plain_account ''1'' ''g'')\<lparr>acc_effective_state := ''fused''\<rparr>"

definition sample_recovery_evidence :: routing_health_evidence where
  "sample_recovery_evidence =
     evaluate_routing_health plain_env (\<lambda>l. l) sample_fused_account [sample_rows ! 1] no_previous sample_recovery_config 100"

definition sample_recovering :: candidate where
  "sample_recovering = (plain_candidate sample_fused_account)
     \<lparr>c_health := he_health sample_recovery_evidence, c_rows := he_rows sample_recovery_evidence\<rparr>"

theorem fused_recovers_on_post_fuse_evidence_witness:
  "recovered sample_recovery_config 100 (fuse_deadline plain_env sample_recovery_config no_previous) sample_recovering \<and>
    list_all (observed_after (previous_state_since plain_env no_previous)) (c_rows sample_recovering)"
proof (rule fused_recovers_on_post_fuse_evidence)
  show "fused_routing_state (acc_effective_state (c_account sample_recovering))" by code_simp
  show "sample_recovery_evidence = evaluate_routing_health plain_env (\<lambda>l. l) (c_account sample_recovering)
      [sample_rows ! 1] no_previous sample_recovery_config 100"
    by (simp add: sample_recovery_evidence_def sample_recovering_def)
  show "c_schedulable (apply_initial_state plain_env sample_recovery_config no_previous 100 sample_recovering)"
    by code_simp
qed (simp_all add: sample_recovering_def)

subsection \<open>Evidence that waits for confirmation\<close>

lemma judged_pending:
  assumes "c_evidence_pending (judged_state env config previous now pp pending d)" "\<not> c_evidence_pending d"
  shows "pending \<or> (pp \<and> neutral_only d)"
proof (cases "administrative_state config d")
  case (Some f)
  then show ?thesis using assms administrative_state_keeps [OF Some] by (simp add: judged_state_def)
next
  case None
  note none = None
  show ?thesis
  proof (cases "fused_routing_state (acc_effective_state (c_account d))")
    case True
    then show ?thesis using assms none fused_state_keeps [of env config previous now d] by (simp add: judged_state_def)
  next
    case False
    show ?thesis
    proof (cases "breaker_state env config now d")
      case (Some f)
      then show ?thesis using assms none False breaker_state_keeps [OF Some] by (simp add: judged_state_def)
    next
      case None
      then have "c_evidence_pending (observed_state config previous now pp pending d)"
        using assms(1) none False by (simp add: judged_state_def)
      then show ?thesis using assms(2) by (auto simp: observed_state_def Let_def split: if_splits)
    qed
  qed
qed

lemma score_field_range: "score_field payload key = Some v \<Longrightarrow> 0 \<le> v \<and> v \<le> 100"
  by (auto simp: score_field_def split: option.splits)

lemma previous_routing_health_range:
  "0 \<le> ec_degrade_threshold config \<Longrightarrow> ec_degrade_threshold config \<le> 100 \<Longrightarrow>
   0 \<le> previous_routing_health c config previous \<and> previous_routing_health c config previous \<le> 100"
  using score_field_range by (auto simp: previous_routing_health_def split: option.splits)

lemma pending_penalty_range:
  assumes "0 \<le> x" "x \<le> 100"
  shows "0 \<le> fdiv (fadd 100 x) 2 \<and> fdiv (fadd 100 x) 2 \<le> 100"
proof -
  have "0 \<le> fadd 100 x" "fadd 100 x \<le> 200"
    using fl_nonneg [of "100 + x"] fl_le_int [of "100 + x" 200] assms by (simp_all add: fadd_def)
  then show ?thesis
    using fl_nonneg [of "fadd 100 x / 2"] fl_le_int [of "fadd 100 x / 2" 100] by (simp add: fdiv_def)
qed

text \<open>C28: a failure that still awaits confirmation can only lower the routing health. The health a
  judgement works with stays within 0 and 100, and while evidence is pending it does not exceed the
  health of the last decision.\<close>

theorem pending_evidence_only_lowers:
  assumes "0 \<le> h_health_score (c_health c)" and "h_health_score (c_health c) \<le> 100"
    and "h_sample_count (c_health c) = 0 \<longrightarrow> h_health_score (c_health c) = 0"
    and "0 \<le> ec_gate_floor config" and "ec_gate_floor config \<le> 100"
    and "0 \<le> ec_degrade_threshold config" and "ec_degrade_threshold config \<le> 100"
    and "d = apply_initial_state env config previous now c"
  shows "0 \<le> c_routing_health d \<and> c_routing_health d \<le> 100 \<and>
    (c_evidence_pending d \<longrightarrow> c_routing_health d \<le> previous_routing_health c config previous)"
proof -
  obtain e pending where e: "judged_from config previous c e pending"
    "apply_initial_state env config previous now c =
       (let f = judged_state env config previous now
                  (map_of (pd_payload previous) ''evidence_pending'' = Some (GBool True)) pending e
        in if (ec_manage_all_accounts config \<or> previously_concurrency_limited (c_account c)) \<and>
              managed_account_can_receive_traffic env f now
           then f\<lparr>c_schedulable := True\<rparr> else f)"
    by (rule apply_initial_state_cases [of config previous c env now])
  let ?f = "judged_state env config previous now
      (map_of (pd_payload previous) ''evidence_pending'' = Some (GBool True)) pending e"
  let ?base = "previous_routing_health c config previous"
  let ?penalty = "fdiv (fadd 100 (max (ec_gate_floor config) (min 100 (max 0 (h_health_score (c_health c)))))) 2"
  obtain confirmed where conf: "c_routing_health e = confirmed_routing_health c config previous confirmed pending"
      "pending \<longrightarrow> \<not> confirmed"
    using e(1) unfolding judged_from_def by blast
  have d: "c_routing_health d = c_routing_health e" "c_evidence_pending d = c_evidence_pending ?f"
    using judged_state_keeps [of env config previous now _ pending e] unfolding assms(8) e(2) Let_def by simp_all
  have base: "0 \<le> ?base" "?base \<le> 100" using previous_routing_health_range [OF assms(6,7)] by auto
  have penalty: "0 \<le> ?penalty" using pending_penalty_range assms(4,5) by simp
  have score: "c_routing_health e = h_health_score (c_health c) \<or> c_routing_health e = ?base \<or> c_routing_health e = min ?base ?penalty"
    unfolding conf(1) confirmed_routing_health_def Let_def by simp
  then have range: "0 \<le> c_routing_health e" "c_routing_health e \<le> 100" using base penalty assms(1,2) by auto
  have "c_routing_health e \<le> ?base" if "c_evidence_pending ?f"
  proof -
    have "pending \<or> neutral_only e" using judged_pending [OF that] e(1) by (auto simp: judged_from_def)
    moreover have "neutral_only e = neutral_only c" using e(1) by (simp add: judged_from_def evidence_of_def neutral_only_def)
    ultimately consider "pending" | "neutral_only c" by blast
    then show ?thesis
    proof cases
      case 1
      then show ?thesis using conf by (simp add: confirmed_routing_health_def Let_def)
    next
      case 2
      then have "h_health_score (c_health c) = 0" using assms(3) by (simp add: neutral_only_def)
      then show ?thesis using score base by auto
    qed
  qed
  then show ?thesis using d range by simp
qed

definition sample_pending_config :: engine_config where
  "sample_pending_config = plain_config\<lparr>ec_http_window := 5\<rparr>"

definition sample_pending :: candidate where
  "sample_pending = (plain_candidate (plain_account ''1'' ''g''))
     \<lparr>c_health := empty_health\<lparr>h_sample_count := 1, h_health_score := 50, h_events := [Event_Unknown]\<rparr>\<rparr>"

theorem pending_evidence_only_lowers_witness:
  "c_evidence_pending (apply_initial_state plain_env sample_pending_config no_previous 0 sample_pending) \<and>
   c_routing_health (apply_initial_state plain_env sample_pending_config no_previous 0 sample_pending)
     \<le> previous_routing_health sample_pending sample_pending_config no_previous"
proof -
  have pending: "c_evidence_pending (apply_initial_state plain_env sample_pending_config no_previous 0 sample_pending)"
    by code_simp
  have "0 \<le> c_routing_health (apply_initial_state plain_env sample_pending_config no_previous 0 sample_pending) \<and>
    c_routing_health (apply_initial_state plain_env sample_pending_config no_previous 0 sample_pending) \<le> 100 \<and>
    (c_evidence_pending (apply_initial_state plain_env sample_pending_config no_previous 0 sample_pending) \<longrightarrow>
      c_routing_health (apply_initial_state plain_env sample_pending_config no_previous 0 sample_pending)
        \<le> previous_routing_health sample_pending sample_pending_config no_previous)"
    by (rule pending_evidence_only_lowers [OF _ _ _ _ _ _ _ refl])
      (simp_all add: sample_pending_def sample_pending_config_def plain_candidate_def plain_config_def empty_health_def)
  then show ?thesis using pending by blast
qed

subsection \<open>One verdict for all memberships\<close>

definition shared :: "candidate \<Rightarrow> string \<times> reason \<times> bool \<times> string \<times> rat \<times> bool \<times> gotime \<times> health \<times> rat option" where
  "shared c = (c_state c, c_reason c, c_schedulable c, c_fuse_kind c, c_routing_health c, c_evidence_pending c,
     c_fused_until c, c_health c, c_rate c)"

definition well_tiered :: "candidate \<Rightarrow> bool" where
  "well_tiered c \<longleftrightarrow> c_cost_tier c = fst (cost_tier (c_rate c) (c_cost_wall c))"

lemma well_tiered_reached: "well_tiered c \<Longrightarrow> cost_wall_reached (c_cost_tier c) \<Longrightarrow> c_rate c \<noteq> None"
  by (auto simp: well_tiered_def cost_wall_reached_def cost_tier_def split: option.splits)

definition aligned_members ::
  "go_env \<Rightarrow> gotime \<Rightarrow> configs \<Rightarrow> decisions \<Rightarrow> candidate list \<Rightarrow> candidate list" where
  "aligned_members env now configs decisions ms =
     (case primary_membership ms of
        None \<Rightarrow> ms
      | Some p \<Rightarrow>
          (let config = configs (c_group p);
               ms = map (\<lambda>c. if c_group c = c_group p then c else inherit_evidence p c) ms;
               q = apply_initial_state env config (prior_decision decisions p) now (reset_primary p);
               q = apply_account_cost_wall env now config ms q
           in map (\<lambda>c. if c_group c = c_group p then q\<lparr>c_account := c_account c\<rparr> else inherit_state q c) ms))"

lemma align_account_members:
  "account_members a (align_account env now configs decisions a cs) =
     aligned_members env now configs decisions (account_members a cs)"
  "b \<noteq> a \<Longrightarrow> account_members b (align_account env now configs decisions a cs) = account_members b cs"
  "map c_account (align_account env now configs decisions a cs) = map c_account cs"
proof -
  have k1: "keeps_account (\<lambda>c. if c_group c = c_group p then c else inherit_evidence p c)" for p
    by (simp add: keeps_account_def inherit_evidence_def)
  have k2: "keeps_account (\<lambda>c. if c_group c = c_group p then q\<lparr>c_account := c_account c\<rparr> else inherit_state q c)" for p q
    by (simp add: keeps_account_def inherit_state_def)
  show "account_members a (align_account env now configs decisions a cs) =
     aligned_members env now configs decisions (account_members a cs)"
    by (simp add: align_account_def aligned_members_def Let_def account_members_self [OF k1] account_members_self [OF k2]
        split: option.split)
  show "b \<noteq> a \<Longrightarrow> account_members b (align_account env now configs decisions a cs) = account_members b cs"
    by (simp add: align_account_def Let_def account_members_other [OF k1] account_members_other [OF k2] split: option.split)
  show "map c_account (align_account env now configs decisions a cs) = map c_account cs"
    by (simp add: align_account_def Let_def accounts_update_account [OF k1] accounts_update_account [OF k2] split: option.split)
qed

lemma initial_evidence: "evidence_of (apply_initial_state env config previous now c) = evidence_of c"
proof -
  obtain d pending where d: "judged_from config previous c d pending"
    "apply_initial_state env config previous now c =
       (let e = judged_state env config previous now
                  (map_of (pd_payload previous) ''evidence_pending'' = Some (GBool True)) pending d
        in if (ec_manage_all_accounts config \<or> previously_concurrency_limited (c_account c)) \<and>
              managed_account_can_receive_traffic env e now
           then e\<lparr>c_schedulable := True\<rparr> else e)"
    by (rule apply_initial_state_cases [of config previous c env now])
  have "evidence_of (e\<lparr>c_schedulable := b\<rparr>) = evidence_of e" for e b by (simp add: evidence_of_def)
  then show ?thesis
    using d(1) judged_state_keeps [of env config previous now _ pending d] unfolding d(2) Let_def judged_from_def by simp
qed

definition judgement_states :: "string list" where
  "judgement_states =
     [''excluded'', ''paused'', ''disabled'', ''binding_invalid'', ''unknown'', ''fused'', ''fuse_pending'', ''degraded'',
      ''healthy'', ''survivor'']"

lemma judged_state_range:
  assumes "c_state d \<in> set judgement_states"
  shows "c_state (judged_state env config previous now pp pending d) \<in> set judgement_states"
proof (cases "administrative_state config d")
  case (Some f)
  then show ?thesis using administrative_state_range [OF Some] by (auto simp: judged_state_def judgement_states_def)
next
  case None
  note none = None
  show ?thesis
  proof (cases "fused_routing_state (acc_effective_state (c_account d))")
    case True
    then show ?thesis using none fused_state_range [of env config previous now d]
      by (auto simp: judged_state_def judgement_states_def)
  next
    case False
    show ?thesis
    proof (cases "breaker_state env config now d")
      case (Some f)
      then show ?thesis using none False breaker_state_range [OF Some]
        by (auto simp: judged_state_def judgement_states_def)
    next
      case None
      then have "judged_state env config previous now pp pending d = observed_state config previous now pp pending d"
        using none False by (simp add: judged_state_def)
      then show ?thesis using observed_state_range [of config previous now pp pending d] assms
        by (auto simp: judgement_states_def)
    qed
  qed
qed

lemma initial_state_range:
  assumes "c_state c \<in> set judgement_states"
  shows "c_state (apply_initial_state env config previous now c) \<in> set judgement_states"
proof -
  obtain d pending where d: "judged_from config previous c d pending"
    "apply_initial_state env config previous now c =
       (let e = judged_state env config previous now
                  (map_of (pd_payload previous) ''evidence_pending'' = Some (GBool True)) pending d
        in if (ec_manage_all_accounts config \<or> previously_concurrency_limited (c_account c)) \<and>
              managed_account_can_receive_traffic env e now
           then e\<lparr>c_schedulable := True\<rparr> else e)"
    by (rule apply_initial_state_cases [of config previous c env now])
  let ?pp = "map_of (pd_payload previous) ''evidence_pending'' = Some (GBool True)"
  let ?e = "judged_state env config previous now ?pp pending d"
  have "c_state d \<in> set judgement_states" using d(1) assms by (auto simp: judged_from_def judgement_states_def)
  then have "c_state ?e \<in> set judgement_states" by (rule judged_state_range)
  then show ?thesis unfolding d(2) Let_def by simp
qed

lemma account_wall_keeps:
  "evidence_of (apply_account_cost_wall env now config ms c) = evidence_of c"
  by (simp add: apply_account_cost_wall_def Let_def evidence_of_def)

lemma account_wall_state:
  "c_state (apply_account_cost_wall env now config ms c) = c_state c \<or>
   (c_state (apply_account_cost_wall env now config ms c) = ''cost_blocked'' \<and>
    \<not> c_schedulable (apply_account_cost_wall env now config ms c) \<and> all_above config c ms)"
  by (simp add: apply_account_cost_wall_def Let_def)

lemma account_wall_closed:
  "closed_state (c_state c) \<Longrightarrow> apply_account_cost_wall env now config ms c = c"
proof -
  assume "closed_state (c_state c)"
  then have "\<not> blockable_state (c_state c)" by (auto simp: closed_state_def blockable_state_def)
  then show ?thesis by (simp add: apply_account_cost_wall_def)
qed

definition settled_members :: "candidate list \<Rightarrow> bool" where
  "settled_members ms \<longleftrightarrow>
     (\<forall>c \<in> set ms. \<forall>d \<in> set ms. shared c = shared d) \<and>
     (\<forall>c \<in> set ms. well_tiered c \<and> (c_state c = ''cost_blocked'' \<longrightarrow> c_rate c \<noteq> None) \<and>
        (closed_state (c_state c) \<longrightarrow> \<not> c_schedulable c))"

lemma aligned_members_settled:
  assumes "list_all well_tiered ms"
  shows "settled_members (aligned_members env now configs decisions ms)"
proof (cases "primary_membership ms")
  case None
  then show ?thesis by (simp add: aligned_members_def settled_members_def primary_membership_None)
next
  case (Some p)
  let ?config = "configs (c_group p)"
  let ?ms = "map (\<lambda>c. if c_group c = c_group p then c else inherit_evidence p c) ms"
  let ?judged = "apply_initial_state env ?config (prior_decision decisions p) now (reset_primary p)"
  let ?q = "apply_account_cost_wall env now ?config ?ms ?judged"
  let ?f = "\<lambda>c. if c_group c = c_group p then ?q\<lparr>c_account := c_account c\<rparr> else inherit_state ?q c"
  have p: "p \<in> set ms" by (rule primary_membership_mem [OF Some])
  have result: "aligned_members env now configs decisions ms = map ?f ?ms"
    using Some by (simp add: aligned_members_def Let_def)
  have "evidence_of ?q = evidence_of (reset_primary p)" using account_wall_keeps initial_evidence by simp
  then have q: "c_health ?q = c_health p" "c_rate ?q = c_rate p" "c_cost_wall ?q = c_cost_wall p"
      "c_cost_tier ?q = c_cost_tier p"
    by (simp_all add: evidence_of_def reset_primary_def)
  have tier: "well_tiered c" if "c \<in> set ?ms" for c
    using that assms by (auto simp: list_all_iff well_tiered_def inherit_evidence_def)
  have rate: "c_group c \<noteq> c_group p \<Longrightarrow> c_rate c = c_rate p \<and> c_health c = c_health p" if "c \<in> set ?ms" for c
    using that by (auto simp: inherit_evidence_def)
  have same: "shared (?f c) = shared ?q" if "c \<in> set ?ms" for c
    using rate [OF that] q by (simp add: shared_def inherit_state_def)
  have tiered: "well_tiered (?f c)" if "c \<in> set ?ms" for c
    using tier [OF that] tier p assms q
    by (auto simp: list_all_iff well_tiered_def inherit_state_def)
  have "c_state (reset_primary p) \<in> set judgement_states" by (simp add: reset_primary_def judgement_states_def)
  from initial_state_range [OF this, of env ?config "prior_decision decisions p" now]
  have q0: "c_state ?judged \<noteq> ''cost_blocked''" by (auto simp: judgement_states_def)
  have "p \<in> set ?ms" using p by (auto simp: image_iff intro!: bexI [of _ p])
  have blocked: "c_rate ?q \<noteq> None" if b: "c_state ?q = ''cost_blocked''"
  proof -
    have "all_above ?config ?judged ?ms" using account_wall_state [of env now ?config ?ms ?judged] b q0 by argo
    then have "cost_wall_reached (c_cost_tier p)" using \<open>p \<in> set ?ms\<close> unfolding all_above_def list_all_iff by blast
    then show ?thesis using well_tiered_reached [of p] p assms q(2) by (simp add: list_all_iff)
  qed
  have closed: "\<not> c_schedulable ?q" if "closed_state (c_state ?q)"
  proof -
    have same: "c_state ?q = c_state ?judged"
      using account_wall_state [of env now ?config ?ms ?judged] that by (auto simp: closed_state_def)
    then have "?q = ?judged" using that account_wall_closed [of ?judged] by simp
    moreover have "\<not> closed_state (c_state (reset_primary p))" by (simp add: reset_primary_def closed_state_def)
    ultimately show ?thesis using initial_state_closed that by metis
  qed
  show ?thesis
    unfolding settled_members_def result
  proof (intro conjI ballI impI)
    fix c assume c: "c \<in> set (map ?f ?ms)"
    then obtain b where b: "b \<in> set ?ms" "c = ?f b" unfolding set_map [of ?f] by blast
    have sh: "shared c = shared ?q" using same [OF b(1)] b(2) by simp
    show "well_tiered c" using tiered [OF b(1)] b(2) by simp
    show "c_rate c \<noteq> None" if "c_state c = ''cost_blocked''" using blocked that sh by (simp add: shared_def)
    show "\<not> c_schedulable c" if "closed_state (c_state c)" using closed that sh by (simp add: shared_def)
    fix d assume "d \<in> set (map ?f ?ms)"
    then obtain e where e: "e \<in> set ?ms" "d = ?f e" unfolding set_map [of ?f] by blast
    show "shared c = shared d" using sh same [OF e(1)] e(2) by simp
  qed
qed

end
