(* ===== verification/Routing_Round.thy ===== *)
theory Routing_Round
  imports Routing_State
begin

text \<open>
  The states of a round from the first judgements to the cost wall, composed as \<open>Calculate\<close> composes
  them (routing/service.go): the accounts are aligned to their primary memberships, the animation
  verdicts applied, the pending fuses resolved and the cost walls drawn. Each phase ranges over Go maps
  in an order of its own.
\<close>

record round_orders =
  ro_align :: "string list"
  ro_fuse_groups :: "string list"
  ro_fuse_accounts :: "string list"
  ro_wall :: "string list"

definition apply_animation_verdicts :: "configs \<Rightarrow> round \<Rightarrow> round" where
  "apply_animation_verdicts configs cs = map (\<lambda>c. apply_animation_failure_state (configs (c_group c)) c) cs"

definition decide_states ::
  "go_env \<Rightarrow> gotime \<Rightarrow> configs \<Rightarrow> decisions \<Rightarrow> engine_config \<Rightarrow> routing_account list \<Rightarrow> round_orders \<Rightarrow>
   round \<Rightarrow> round option" where
  "decide_states env now configs decisions config inventory orders cs =
     (let cs = align_accounts env now configs decisions (ro_align orders) cs;
          cs = apply_animation_verdicts configs cs;
          cs = apply_fuse_budgets env now configs (ro_fuse_groups orders) (ro_fuse_accounts orders) cs
      in apply_cost_wall_fallbacks env now config inventory (ro_wall orders) cs)"

subsection \<open>Steps over all accounts\<close>

lemma fold_accounts_members:
  assumes "\<And>a b cs. b \<noteq> a \<Longrightarrow> account_members b (step a cs) = account_members b cs"
    and "\<And>a cs. account_members a (step a cs) = A (account_members a cs)"
    and "distinct order"
  shows "account_members a (fold step order cs) =
    (if a \<in> set order then A (account_members a cs) else account_members a cs)"
  using assms(3)
proof (induction order arbitrary: cs)
  case Nil
  then show ?case by simp
next
  case (Cons b order)
  then show ?case using assms(1,2) by (cases "a = b") auto
qed

lemma fold_accounts_same:
  assumes "\<And>a cs. map c_account (step a cs) = map c_account cs"
  shows "map c_account (fold step order cs) = map c_account cs"
  by (rule fold_invariant [where P = "\<lambda>ds. map c_account ds = map c_account cs"]) (simp_all add: assms)

lemma same_accounts_same_ids: "map c_account ds = map c_account cs \<Longrightarrow> c_id ` set ds = c_id ` set cs"
proof -
  assume "map c_account ds = map c_account cs"
  then have "c_account ` set ds = c_account ` set cs" by (simp flip: set_map)
  then have "acc_id ` c_account ` set ds = acc_id ` c_account ` set cs" by (rule arg_cong)
  then show ?thesis by (simp only: image_image)
qed

text \<open>What every phase after the alignment keeps.\<close>

definition closed_shut :: "round \<Rightarrow> bool" where
  "closed_shut cs \<longleftrightarrow> (\<forall>c \<in> set cs. closed_state (c_state c) \<longrightarrow> \<not> c_schedulable c)"

definition sound_round :: "round \<Rightarrow> bool" where
  "sound_round cs \<longleftrightarrow> priced cs \<and> closed_shut cs"

lemma sound_update:
  assumes "sound_round cs" "keeps_account f"
    and "\<And>c. c_rate (f c) = c_rate c" "\<And>c. c_cost_tier (f c) = c_cost_tier c"
    and "\<And>c. c_state (f c) = ''cost_blocked'' \<Longrightarrow> c_state c = ''cost_blocked''"
    and "\<And>c. closed_state (c_state (f c)) \<Longrightarrow> c_schedulable (f c) \<Longrightarrow> closed_state (c_state c) \<and> c_schedulable c"
  shows "sound_round (update_account a f cs)"
proof -
  let ?g = "\<lambda>c. if c_id c = a then f c else c"
  have same: "c_rate (?g c) = c_rate c" "c_cost_tier (?g c) = c_cost_tier c" "c_id (?g c) = c_id c" for c
    using assms(3,4) keeps_accountD [OF assms(2)] by simp_all
  have state: "c_state (?g c) = ''cost_blocked'' \<Longrightarrow> c_state c = ''cost_blocked''" for c
    using assms(5) [of c] by (cases "c_id c = a") simp_all
  have shut: "closed_state (c_state (?g c)) \<Longrightarrow> c_schedulable (?g c) \<Longrightarrow> closed_state (c_state c) \<and> c_schedulable c" for c
    using assms(6) [of c] by (cases "c_id c = a") simp_all
  have "priced (map ?g cs)"
    using assms(1) unfolding sound_round_def priced_def set_map ball_simps(9) same by (metis state)
  moreover have "closed_shut (map ?g cs)"
    using assms(1) shut unfolding sound_round_def closed_shut_def set_map ball_simps(9) by metis
  ultimately show ?thesis by (simp add: sound_round_def update_account_def)
qed

lemma closed_state_simps [simp]:
  "closed_state ''fused''" "\<not> closed_state ''degraded''" "\<not> closed_state ''healthy''" "\<not> closed_state ''unknown''"
  "\<not> closed_state ''survivor''" "\<not> closed_state ''cost_blocked''" "closed_state ''fuse_pending''"
  by (simp_all add: closed_state_def)

lemma fallback_state_open [simp]:
  "\<not> closed_state (fallback_state config c)" "fallback_state config c \<noteq> ''cost_blocked''"
  using fallback_state_range [of config c] by auto

lemma sound_fuse_request:
  assumes "sound_round cs" "resolve_request env now configs r (cs, used) = (ds, used')"
  shows "sound_round ds"
proof (cases rule: resolve_request_cases [OF assms(2)])
  case (1 t)
  show ?thesis unfolding 1(2)
    by (rule sound_update [OF assms(1) members_keep_account(1)]) (auto simp: fused_member_def split: if_splits)
next
  case (2 g)
  show ?thesis unfolding 2(2)
    by (rule sound_update [OF assms(1) members_keep_account(2)]) (auto simp: fallback_member_def split: if_splits)
next
  case (3 g)
  show ?thesis unfolding 3(2)
    by (rule sound_update [OF assms(1) members_keep_account(3)]) (auto simp: survivor_member_def split: if_splits)
next
  case (4 t)
  show ?thesis unfolding 4(2)
    by (rule sound_update [OF assms(1) members_keep_account(1)]) (auto simp: fused_member_def split: if_splits)
qed

lemma sound_fuse_budgets:
  assumes "sound_round cs"
  shows "sound_round (apply_fuse_budgets env now configs groups_order accounts_order cs)"
proof -
  have "sound_round (fst (fold (resolve_request env now configs) rs st))" if "sound_round (fst st)" for rs st
    by (rule fold_invariant [where P = "\<lambda>st. sound_round (fst st)", OF that])
      (metis prod.collapse sound_fuse_request)
  then show ?thesis using assms by (simp add: apply_fuse_budgets_def)
qed

lemma fuse_budgets_accounts:
  "map c_account (apply_fuse_budgets env now configs groups_order accounts_order cs) = map c_account cs"
proof -
  let ?rs = "ordered_requests accounts_order (collect_requests groups_order cs)"
  obtain ds used where "fold (resolve_request env now configs) ?rs (cs, \<lambda>_. 0) = (ds, used)" by (metis surj_pair)
  from resolve_requests_frame [OF this] this show ?thesis by (simp add: apply_fuse_budgets_def)
qed

subsection \<open>The animation verdicts\<close>

lemma animation_keeps:
  "evidence_of (apply_animation_failure_state config c) = evidence_of c"
  "c_state (apply_animation_failure_state config c) = ''fused'' \<longleftrightarrow> c_state c = ''fused''"
  "c_state (apply_animation_failure_state config c) = ''cost_blocked'' \<Longrightarrow> c_state c = ''cost_blocked''"
  "closed_state (c_state (apply_animation_failure_state config c)) \<Longrightarrow>
     c_schedulable (apply_animation_failure_state config c) \<Longrightarrow> closed_state (c_state c) \<and> c_schedulable c"
  by (auto simp: apply_animation_failure_state_def split: if_splits)

definition settled_round :: "round \<Rightarrow> bool" where
  "settled_round cs \<longleftrightarrow> (\<forall>a. settled_members (account_members a cs))"

lemma animation_verdicts_sound:
  assumes "settled_round cs"
  shows "sound_round (apply_animation_verdicts configs cs) \<and> fuse_aligned (apply_animation_verdicts configs cs) \<and>
    map c_account (apply_animation_verdicts configs cs) = map c_account cs"
proof -
  let ?g = "\<lambda>c. apply_animation_failure_state (configs (c_group c)) c"
  have ev: "c_account (?g c) = c_account c" "c_rate (?g c) = c_rate c" "c_cost_tier (?g c) = c_cost_tier c" for c
    using animation_keeps(1) [of "configs (c_group c)" c] by (simp_all add: evidence_of_def)
  have member: "well_tiered c \<and> (c_state c = ''cost_blocked'' \<longrightarrow> c_rate c \<noteq> None) \<and>
      (closed_state (c_state c) \<longrightarrow> \<not> c_schedulable c)" if "c \<in> set cs" for c
    using assms that unfolding settled_round_def settled_members_def by auto
  have pair: "c_state c = c_state d \<and> c_rate c = c_rate d" if "c \<in> set cs" "d \<in> set cs" "c_id c = c_id d" for c d
  proof -
    have "c \<in> set (account_members (c_id d) cs)" "d \<in> set (account_members (c_id d) cs)" using that by auto
    then have "shared c = shared d" using assms unfolding settled_round_def settled_members_def by blast
    then show ?thesis by (simp add: shared_def)
  qed
  have "priced (map ?g cs)"
    unfolding priced_def set_map ball_simps(9) ev
    using member pair animation_keeps(3) well_tiered_reached by metis
  moreover have "closed_shut (map ?g cs)"
    unfolding closed_shut_def set_map ball_simps(9) using member animation_keeps(4) by blast
  moreover have "fuse_aligned (map ?g cs)"
    unfolding fuse_aligned_def set_map ball_simps(9) ev
  proof (intro ballI impI)
    fix c d assume cd: "c \<in> set cs" "d \<in> set cs" "c_id c = c_id d" "c_state (?g c) = ''fuse_pending''"
    show "c_state (?g d) \<noteq> ''fused''"
    proof
      assume "c_state (?g d) = ''fused''"
      then have "c_state c = ''fused''" using animation_keeps(2) pair [OF cd(1-3)] by simp
      then have "c_state (?g c) = ''fused''" using animation_keeps(2) by simp
      then show False using cd(4) by simp
    qed
  qed
  ultimately show ?thesis using ev(1) by (simp add: apply_animation_verdicts_def sound_round_def)
qed

subsection \<open>The walls leave one verdict per account\<close>

definition verdict :: "candidate \<Rightarrow> string \<times> bool \<times> reason" where
  "verdict c = (c_state c, c_schedulable c, c_reason c)"

definition one_verdict :: "round \<Rightarrow> bool" where
  "one_verdict cs \<longleftrightarrow> (\<forall>c \<in> set cs. \<forall>d \<in> set cs. c_id c = c_id d \<longrightarrow> verdict c = verdict d)"

definition walled_members :: "go_env \<Rightarrow> gotime \<Rightarrow> engine_config \<Rightarrow> candidate list \<Rightarrow> candidate list" where
  "walled_members env now config ms =
     (case primary_membership ms of
        None \<Rightarrow> ms
      | Some p \<Rightarrow> map (share_primary (apply_account_cost_wall env now config ms p)) ms)"

lemma keeps_account_share [simp]: "keeps_account (share_primary q)"
  by (simp add: keeps_account_def share_primary_def)

lemma wall_account_members:
  "account_members a (wall_account env now config a cs) = walled_members env now config (account_members a cs)"
  "b \<noteq> a \<Longrightarrow> account_members b (wall_account env now config a cs) = account_members b cs"
  by (simp_all add: wall_account_def walled_members_def account_members_self account_members_other split: option.split)

lemma wall_account_accounts: "map c_account (wall_account env now config a cs) = map c_account cs"
  by (simp add: wall_account_def accounts_update_account split: option.split)

text \<open>A round without pending fuses, in which closed accounts are shut.\<close>

definition resolved :: "candidate list \<Rightarrow> bool" where
  "resolved cs \<longleftrightarrow>
     (\<forall>c \<in> set cs. c_state c \<noteq> ''fuse_pending'' \<and> (closed_state (c_state c) \<longrightarrow> \<not> c_schedulable c))"

lemma walled_members_verdict:
  "c \<in> set (walled_members env now config ms) \<Longrightarrow> d \<in> set (walled_members env now config ms) \<Longrightarrow> verdict c = verdict d"
  by (auto simp: walled_members_def verdict_def share_primary_def primary_membership_None split: option.splits)

lemma walled_members_resolved:
  assumes "resolved ms"
  shows "resolved (walled_members env now config ms)"
proof (cases "primary_membership ms")
  case None
  then show ?thesis using assms by (simp add: walled_members_def)
next
  case (Some p)
  let ?q = "apply_account_cost_wall env now config ms p"
  have p: "c_state p \<noteq> ''fuse_pending''" "closed_state (c_state p) \<longrightarrow> \<not> c_schedulable p"
    using assms primary_membership_mem [OF Some] unfolding resolved_def by auto
  have q: "c_state ?q \<noteq> ''fuse_pending''" "closed_state (c_state ?q) \<longrightarrow> \<not> c_schedulable ?q"
  proof -
    consider "c_state ?q = c_state p" | "c_state ?q = ''cost_blocked''"
      using account_wall_state [of env now config ms p] by blast
    then have "c_state ?q \<noteq> ''fuse_pending'' \<and> (closed_state (c_state ?q) \<longrightarrow> \<not> c_schedulable ?q)"
    proof cases
      case 1
      show ?thesis
      proof (cases "closed_state (c_state p)")
        case True
        then have "?q = p" by (rule account_wall_closed)
        then show ?thesis using p by simp
      next
        case False
        then show ?thesis using 1 p(1) by simp
      qed
    next
      case 2
      then show ?thesis by simp
    qed
    then show "c_state ?q \<noteq> ''fuse_pending''" "closed_state (c_state ?q) \<longrightarrow> \<not> c_schedulable ?q" by blast+
  qed
  have "walled_members env now config ms = map (share_primary ?q) ms" using Some by (simp add: walled_members_def)
  moreover have "resolved (map (share_primary ?q) ms)"
    unfolding resolved_def set_map ball_simps(9) using q by (simp add: share_primary_def)
  ultimately show ?thesis by simp
qed

lemma members_all:
  "resolved cs \<longleftrightarrow> (\<forall>a \<in> c_id ` set cs. resolved (account_members a cs))"
  by (auto simp: resolved_def)

lemma wall_accounts_outcome:
  assumes "distinct accounts_order" "c_id ` set cs \<subseteq> set accounts_order" "resolved cs"
  shows "one_verdict (wall_accounts env now config accounts_order cs) \<and>
    resolved (wall_accounts env now config accounts_order cs)"
proof -
  let ?ds = "wall_accounts env now config accounts_order cs"
  have members: "account_members a ?ds =
      (if a \<in> set accounts_order then walled_members env now config (account_members a cs) else account_members a cs)" for a
    unfolding wall_accounts_def
    by (rule fold_accounts_members [OF wall_account_members(2) wall_account_members(1) assms(1)])
  have "map c_account ?ds = map c_account cs"
    unfolding wall_accounts_def
    by (rule fold_accounts_same) (rule wall_account_accounts)
  then have ids: "c_id ` set ?ds = c_id ` set cs" by (rule same_accounts_same_ids)
  have walled: "account_members a ?ds = walled_members env now config (account_members a cs)" if "a \<in> c_id ` set ?ds" for a
    using members [of a] that ids assms(2) by auto
  have "one_verdict ?ds"
    unfolding one_verdict_def
  proof (intro ballI impI)
    fix c d assume cd: "c \<in> set ?ds" "d \<in> set ?ds" "c_id c = c_id d"
    have mem: "c_id d \<in> c_id ` set ?ds" using cd(2) by blast
    have "c \<in> set (account_members (c_id d) ?ds)" "d \<in> set (account_members (c_id d) ?ds)" using cd by auto
    then show "verdict c = verdict d" unfolding walled [OF mem] by (rule walled_members_verdict)
  qed
  moreover have "resolved (account_members a ?ds)" if "a \<in> c_id ` set ?ds" for a
    using walled [OF that] walled_members_resolved [of "account_members a cs"] assms(3) by (simp add: resolved_def)
  then have "resolved ?ds" by (subst members_all) blast
  ultimately show ?thesis by blast
qed

lemma reopened_member_simps [simp]:
  "verdict (open_fallback g c) = (''survivor'', True, [M_Cost_Fallback g])" "c_id (open_fallback g c) = c_id c"
  "c_state (open_fallback g c) = ''survivor''" "c_account (open_fallback g c) = c_account c"
  by (simp_all add: verdict_def open_fallback_def)

lemma one_verdict_open_fallback:
  assumes "one_verdict cs"
  shows "one_verdict (update_account a (open_fallback g) cs)"
  unfolding one_verdict_def update_account_def set_map ball_simps(9)
proof (intro ballI impI)
  fix c d
  assume cd: "c \<in> set cs" "d \<in> set cs"
    "c_id (if c_id c = a then open_fallback g c else c) = c_id (if c_id d = a then open_fallback g d else d)"
  then have ids: "c_id c = c_id d" by (simp split: if_splits)
  then have "verdict c = verdict d" using assms cd(1,2) unfolding one_verdict_def by blast
  then show "verdict (if c_id c = a then open_fallback g c else c) = verdict (if c_id d = a then open_fallback g d else d)"
    using ids by simp
qed

lemma resolved_open_fallback:
  assumes "resolved cs"
  shows "resolved (update_account a (open_fallback g) cs)"
  unfolding resolved_def update_account_def set_map ball_simps(9)
proof
  fix c assume "c \<in> set cs"
  then show "c_state (if c_id c = a then open_fallback g c else c) \<noteq> ''fuse_pending'' \<and>
      (closed_state (c_state (if c_id c = a then open_fallback g c else c)) \<longrightarrow>
        \<not> c_schedulable (if c_id c = a then open_fallback g c else c))"
    using assms by (cases "c_id c = a") (simp_all add: resolved_def)
qed

lemma open_groups_outcome:
  assumes "open_groups env now gs (cs, av) = Some (ds, av')" "one_verdict cs" "resolved cs"
  shows "one_verdict ds \<and> resolved ds \<and> map c_account ds = map c_account cs"
  using assms
proof (induction gs arbitrary: cs av)
  case Nil
  then show ?case by simp
next
  case (Cons g gs)
  show ?case
  proof (cases "g \<in> set av \<or> pick_fallback env now (group_members g cs) None = Some None")
    case True
    then have "open_groups env now gs (cs, av) = Some (ds, av')" using Cons.prems(1) by (auto split: if_splits)
    then show ?thesis using Cons.IH Cons.prems(2,3) by blast
  next
    case False
    then obtain b where b: "open_groups env now gs (update_account (c_id b) (open_fallback g) cs,
        map c_group (account_members (c_id b) cs) @ av) = Some (ds, av')"
      using Cons.prems(1) by (auto split: option.splits)
    have "one_verdict (update_account (c_id b) (open_fallback g) cs)"
      by (rule one_verdict_open_fallback [OF Cons.prems(2)])
    moreover have "resolved (update_account (c_id b) (open_fallback g) cs)"
      by (rule resolved_open_fallback [OF Cons.prems(3)])
    moreover have "map c_account (update_account (c_id b) (open_fallback g) cs) = map c_account cs"
      by (simp add: accounts_update_account)
    ultimately show ?thesis using Cons.IH [OF b] by metis
  qed
qed

subsection \<open>The round\<close>

lemma align_accounts_settled:
  assumes "distinct order" "c_id ` set cs \<subseteq> set order" "list_all well_tiered cs"
  shows "settled_round (align_accounts env now configs decisions order cs) \<and>
    map c_account (align_accounts env now configs decisions order cs) = map c_account cs"
proof -
  let ?ds = "align_accounts env now configs decisions order cs"
  have members: "account_members a ?ds = (if a \<in> set order then aligned_members env now configs decisions (account_members a cs)
      else account_members a cs)" for a
    unfolding align_accounts_def
    by (rule fold_accounts_members [OF align_account_members(2) align_account_members(1) assms(1)])
  have "settled_members (account_members a ?ds)" for a
  proof (cases "a \<in> set order")
    case True
    have "list_all well_tiered (account_members a cs)" using assms(3) by (simp add: list_all_iff)
    then show ?thesis using members [of a] True aligned_members_settled by simp
  next
    case False
    then have "account_members a cs = []" using assms(2) by (auto simp: account_members_def filter_empty_conv)
    then show ?thesis using members [of a] False by (simp add: settled_members_def)
  qed
  then show ?thesis
    unfolding settled_round_def align_accounts_def
    using fold_accounts_same [of "align_account env now configs decisions" order cs] align_account_members(3) by auto
qed

text \<open>What a round starts from: each account and group comes up once in every pass, no group has an empty
  name, and every cost tier is the one of the rate and the wall.\<close>

definition round_input :: "round_orders \<Rightarrow> round \<Rightarrow> bool" where
  "round_input orders cs \<longleftrightarrow>
     distinct (ro_align orders) \<and> distinct (ro_fuse_accounts orders) \<and> distinct (ro_wall orders) \<and>
     c_id ` set cs \<subseteq> set (ro_align orders) \<and> c_id ` set cs \<subseteq> set (ro_fuse_accounts orders) \<and>
     c_id ` set cs \<subseteq> set (ro_wall orders) \<and> c_group ` set cs \<subseteq> set (ro_fuse_groups orders) \<and>
     [] \<notin> c_group ` set cs \<and> list_all well_tiered cs"

definition round_outcome :: "round \<Rightarrow> bool" where
  "round_outcome ds \<longleftrightarrow> one_verdict ds \<and> resolved ds"

text \<open>C29: a round decides every account once and for all. Whatever the orders in which the passes range
  over their maps, the composed phases answer (no rate is compared that is not known), keep the
  memberships, leave no fuse pending, give all memberships of an account one state, one switch and one
  reason, and leave no excluded, paused, disabled, unbound or fused account schedulable.\<close>

theorem round_verdicts_consistent:
  assumes "round_input orders cs"
  shows "\<exists>ds. decide_states env now configs decisions config inventory orders cs = Some ds \<and>
    map c_account ds = map c_account cs \<and> round_outcome ds"
proof -
  let ?c1 = "align_accounts env now configs decisions (ro_align orders) cs"
  let ?c2 = "apply_animation_verdicts configs ?c1"
  let ?c3 = "apply_fuse_budgets env now configs (ro_fuse_groups orders) (ro_fuse_accounts orders) ?c2"
  let ?c4 = "wall_accounts env now config (ro_wall orders) ?c3"
  have c1: "settled_round ?c1" "map c_account ?c1 = map c_account cs"
    using align_accounts_settled [of "ro_align orders" cs env now configs decisions] assms by (auto simp: round_input_def)
  have c2: "sound_round ?c2" "fuse_aligned ?c2" "map c_account ?c2 = map c_account cs"
    using animation_verdicts_sound [OF c1(1), of configs] c1(2) by auto
  have ids: "c_id ` set ?c2 = c_id ` set cs" and gs: "c_group ` set ?c2 = c_group ` set cs"
    using same_accounts_same_ids [OF c2(3)] same_accounts_same_groups [OF c2(3)] by auto
  have c3: "sound_round ?c3" "map c_account ?c3 = map c_account cs"
    using sound_fuse_budgets [OF c2(1)] fuse_budgets_accounts c2(3) by auto
  have "list_all (\<lambda>c. c_state c \<noteq> ''fuse_pending'') ?c3"
    by (rule no_pending_left) (use assms c2(2) ids gs in \<open>auto simp: round_input_def\<close>)
  then have c3_resolved: "resolved ?c3" using c3(1) by (simp add: resolved_def list_all_iff sound_round_def closed_shut_def)
  have "c_id ` set ?c3 \<subseteq> set (ro_wall orders)" "distinct (ro_wall orders)"
    using same_accounts_same_ids [OF c3(2)] assms by (auto simp: round_input_def)
  then have c4: "one_verdict ?c4" "resolved ?c4"
    using wall_accounts_outcome [OF _ _ c3_resolved, of "ro_wall orders" env now config] by auto
  have priced: "priced ?c3" using c3(1) by (simp add: sound_round_def)
  then have c4': "priced ?c4" "map c_account ?c4 = map c_account cs"
    using wall_accounts_keep [OF priced, of env now config "ro_wall orders"] c3(2) by auto
  show ?thesis
  proof (cases "ec_cost_wall_enabled config \<and> ec_cost_wall_fallback_enabled config")
    case True
    obtain ds av where ds: "open_groups env now (group_names ?c4) (?c4, available_groups env now inventory ?c4) = Some (ds, av)"
      using open_groups_result [OF priced_closed [OF c4'(1)], of env now "group_names ?c4"] by blast
    then have "decide_states env now configs decisions config inventory orders cs = Some ds"
      using True by (simp add: decide_states_def apply_cost_wall_fallbacks_def Let_def)
    then show ?thesis using open_groups_outcome [OF ds c4] c4'(2) by (auto simp: round_outcome_def)
  next
    case False
    then have "decide_states env now configs decisions config inventory orders cs = Some ?c4"
      by (simp add: decide_states_def apply_cost_wall_fallbacks_def Let_def)
    then show ?thesis using c4 c4'(2) by (auto simp: round_outcome_def)
  qed
qed

definition sample_orders :: round_orders where
  "sample_orders = \<lparr>ro_align = [''1'', ''2''], ro_fuse_groups = [''g''], ro_fuse_accounts = [''2'', ''1''], ro_wall = [''1'', ''2'']\<rparr>"

theorem round_verdicts_consistent_witness:
  "\<exists>ds. decide_states plain_env 0 (\<lambda>_. plain_config) Map.empty sample_walled_config [] sample_orders sample_walled = Some ds \<and>
    map c_account ds = map c_account sample_walled \<and> round_outcome ds"
proof (rule round_verdicts_consistent)
  show "round_input sample_orders sample_walled"
    by (simp add: round_input_def sample_orders_def sample_walled_def well_tiered_def plain_candidate_def plain_account_def cost_tier_def)
qed

end
