(* ===== verification/Cleanup.thy ===== *)
theory Cleanup
  imports Evidence
begin

text \<open>
  The automatic disposal of accounts at the end of a round: the cleanup policy (routing/service.go,
  \<open>applyCleanupPolicy\<close>), the disposal of persistently abnormal accounts (routing/abnormal_cleanup.go)
  and the deletion of accounts whose upstream binding is gone (routing/binding_cleanup.go).

  The phases go over the accounts in the order of \<open>sortedTargetIDsFromCandidates\<close>, the argument
  \<open>ids\<close>; what is shown of them holds for every order. The texts of the events are left out, their
  kinds are kept.
\<close>

subsection \<open>Events and writes\<close>

datatype cleanup_note =
    Note_Recovered
  | Note_Below_Threshold nat
  | Note_Protected
  | Note_Observing
  | Note_Round_Limit
  | Note_Last_In_Group
  | Note_Queued string nat
  | Note_Abnormal_Queued string
  | Note_Binding_Queued

record runtime_event =
  re_type :: string
  re_status :: string
  re_note :: cleanup_note
  re_account_id :: string
  re_account_name :: string
  re_groups :: "string list"

record state_write =
  sw_persistent_abnormal :: bool
  sw_account_id :: string
  sw_eligible_since :: "gotime option"

definition cleanup_runtime_event ::
  "string \<Rightarrow> string \<Rightarrow> string \<Rightarrow> cleanup_note \<Rightarrow> candidate list \<Rightarrow> runtime_event" where
  "cleanup_runtime_event event_type status account_id note items =
     \<lparr>re_type = event_type, re_status = status, re_note = note, re_account_id = account_id,
      re_account_name = (case items of [] \<Rightarrow> account_id | c # _ \<Rightarrow> acc_name (c_account c)),
      re_groups = sort (remdups (map c_group items))\<rparr>"

text \<open>The state of a phase: the candidates, what is to be written and reported, and who was selected.\<close>

record cleanup_run =
  cr_round :: round
  cr_writes :: "state_write list"
  cr_events :: "runtime_event list"
  cr_selected :: "string list"
  cr_done :: int

definition report :: "string \<Rightarrow> string \<Rightarrow> cleanup_note \<Rightarrow> cleanup_run \<Rightarrow> cleanup_run" where
  "report event_type a note st =
     st\<lparr>cr_events := cr_events st @
          [cleanup_runtime_event event_type ''succeeded'' a note (account_members a (cr_round st))]\<rparr>"

definition record_since :: "bool \<Rightarrow> string \<Rightarrow> gotime option \<Rightarrow> cleanup_run \<Rightarrow> cleanup_run" where
  "record_since persistent a since st =
     st\<lparr>cr_writes := cr_writes st @
          [\<lparr>sw_persistent_abnormal = persistent, sw_account_id = a, sw_eligible_since = since\<rparr>]\<rparr>"

definition queue_account :: "string \<Rightarrow> (candidate \<Rightarrow> candidate) \<Rightarrow> cleanup_run \<Rightarrow> cleanup_run" where
  "queue_account a f st =
     st\<lparr>cr_round := update_account a f (cr_round st), cr_selected := a # cr_selected st, cr_done := cr_done st + 1\<rparr>"

subsection \<open>The groups\<close>

definition cleanup_members :: "round \<Rightarrow> string \<Rightarrow> string list" where
  "cleanup_members cs g = remdups (map c_id (filter (\<lambda>c. c_group c = g \<and> c_state c \<noteq> ''excluded'') cs))"

definition cleanup_would_empty_group ::
  "string \<Rightarrow> candidate list \<Rightarrow> (string \<Rightarrow> string list) \<Rightarrow> string list \<Rightarrow> bool" where
  "cleanup_would_empty_group a items members selected =
     list_ex (\<lambda>c. length (filter (\<lambda>m. m \<noteq> a \<and> m \<notin> set selected) (members (c_group c))) = 0) items"

subsection \<open>The cleanup policy\<close>

definition cleanup_row_hit :: "go_env \<Rightarrow> engine_config \<Rightarrow> routing_sample \<Rightarrow> bool" where
  "cleanup_row_hit env config row =
     (let status = routing_sample_status env row; cl = classify_row env (ec_sample_classification config) row in
      if cl_neutral cl \<or> cl_rate_limited cl \<or> \<not> cl_failure cl then False
      else if ec_cleanup_only_auth config \<and> cl_event cl \<noteq> Event_Credential_Bad then False
      else if ec_cleanup_status_codes config \<noteq> []
      then (case status of None \<Rightarrow> False | Some s \<Rightarrow> s \<in> set (ec_cleanup_status_codes config))
      else cl_event cl = Event_Credential_Bad)"

definition cleanup_account_hits :: "go_env \<Rightarrow> engine_config \<Rightarrow> candidate list \<Rightarrow> nat" where
  "cleanup_account_hits env config items =
     fold (\<lambda>c best. max best (length (filter (cleanup_row_hit env config) (take (ec_cleanup_window config) (c_rows c)))))
       items 0"

definition cleanup_account_protected :: "candidate list \<Rightarrow> string \<Rightarrow> bool" where
  "cleanup_account_protected items action =
     (items = [] \<or>
      list_ex (\<lambda>c. c_state c = ''survivor'' \<or> c_state c = ''excluded'' \<or>
                  (action = ''pause'' \<and> c_state c = ''paused'') \<or> (action = ''disable'' \<and> c_state c = ''disabled'')) items)"

definition cleanup_recovered :: "engine_config \<Rightarrow> gotime \<Rightarrow> candidate list \<Rightarrow> bool" where
  "cleanup_recovered config now items =
     list_ex (\<lambda>c. c_state c = ''healthy'' \<and> ar_ready (recovery_status c config now False)) items"

text \<open>The account meets the conditions: observation, the limit of the round and the last of a group.\<close>

definition dispose_account ::
  "engine_config \<Rightarrow> gotime \<Rightarrow> (string \<Rightarrow> string list) \<Rightarrow> string \<Rightarrow> gotime option \<Rightarrow> nat \<Rightarrow> cleanup_run \<Rightarrow> cleanup_run" where
  "dispose_account config now members a state hits st =
     (let items = account_members a (cr_round st);
          since = (case state of Some t \<Rightarrow> t | None \<Rightarrow> now);
          st = (if state = None then record_since False a (Some now) st else st)
      in if time_sub now since < ec_cleanup_observation config then report ''cleanup_skipped'' a Note_Observing st
         else if cr_done st \<ge> ec_cleanup_max_per_round config then report ''cleanup_deferred'' a Note_Round_Limit st
         else if ec_cleanup_keep_last config \<and> cleanup_would_empty_group a items members (cr_selected st)
         then report ''cleanup_skipped'' a Note_Last_In_Group st
         else report ''cleanup_queued'' a (Note_Queued (ec_cleanup_action config) hits)
                (queue_account a (\<lambda>c. c\<lparr>c_cleanup_action := Some (ec_cleanup_action config)\<rparr>) st))"

definition cleanup_account ::
  "go_env \<Rightarrow> engine_config \<Rightarrow> (string \<rightharpoonup> gotime) \<Rightarrow> gotime \<Rightarrow> (string \<Rightarrow> string list) \<Rightarrow> string \<Rightarrow>
   cleanup_run \<Rightarrow> cleanup_run" where
  "cleanup_account env config states now members a st =
     (let items = account_members a (cr_round st);
          withdraw = (\<lambda>st. if states a \<noteq> None then record_since False a None st else st);
          hits = cleanup_account_hits env config items;
          guarded = cleanup_account_protected items (ec_cleanup_action config)
      in if \<not> ec_cleanup_enabled config \<or> ec_cleanup_action config = ''none'' then withdraw st
         else if list_ex (\<lambda>c. candidate_rate_limited env c now) items then withdraw st
         else if cleanup_recovered config now items
         then (if states a \<noteq> None then report ''cleanup_skipped'' a Note_Recovered (withdraw st) else st)
         else if int hits < ec_cleanup_occurrences config \<or> guarded
         then (if hits > 0
               then report ''cleanup_skipped'' a (if guarded then Note_Protected else Note_Below_Threshold hits) (withdraw st)
               else withdraw st)
         else dispose_account config now members a (states a) hits st)"

definition start_cleanup :: "round \<Rightarrow> string list \<Rightarrow> cleanup_run" where
  "start_cleanup cs selected =
     \<lparr>cr_round = cs, cr_writes = [], cr_events = [], cr_selected = selected, cr_done = 0\<rparr>"

definition apply_cleanup_policy ::
  "go_env \<Rightarrow> engine_config \<Rightarrow> (string \<rightharpoonup> gotime) \<Rightarrow> gotime \<Rightarrow> string list \<Rightarrow> round \<Rightarrow> cleanup_run" where
  "apply_cleanup_policy env config states now ids cs =
     fold (cleanup_account env config states now (cleanup_members cs)) ids (start_cleanup cs [])"

subsection \<open>Persistently abnormal accounts\<close>

text \<open>A row of the evidence that ends the failure streak an account was observed with.\<close>

definition streak_broken :: "go_env \<Rightarrow> engine_config \<Rightarrow> gotime \<Rightarrow> routing_sample \<Rightarrow> bool" where
  "streak_broken env config since row =
     (case rs_observed_at row of
        None \<Rightarrow> False
      | Some at' \<Rightarrow>
          (let cl = classify_row env (ec_sample_classification config) row in
           \<not> at' < since \<and> (\<not> cl_failure cl \<or> cl_neutral cl \<or> cl_rate_limited cl)))"

definition abnormal_member :: "go_env \<Rightarrow> engine_config \<Rightarrow> gotime \<Rightarrow> gotime \<Rightarrow> candidate \<Rightarrow> bool" where
  "abnormal_member env config since now c =
     (if c_id c \<in> set (ec_manual_fused_accounts config) then False
      else if acc_paused (c_account c) \<or> acc_manual_priority (c_account c) \<noteq> None then False
      else if (c_state c \<noteq> ''fused'' \<and> c_state c \<noteq> ''degraded'') \<or> c_evidence_pending c \<or>
              candidate_rate_limited env c now \<or> c_rows c = [] then False
      else if since \<noteq> zero_time \<and> list_ex (streak_broken env config since) (c_rows c) then False
      else
        (let row = hd (c_rows c);
             max_age = (if normalized_source (rs_source row) = ''active-probe'' then ec_probe_max_age config
                        else ec_traffic_max_age config);
             cl = classify_row env (ec_sample_classification config) row
         in case rs_observed_at row of
              None \<Rightarrow> False
            | Some observed \<Rightarrow>
                \<not> (observed > now \<or> time_sub now observed > max_age) \<and>
                \<not> (cl_neutral cl \<or> cl_rate_limited cl \<or> \<not> cl_failure cl)))"

definition persistent_abnormal :: "go_env \<Rightarrow> candidate list \<Rightarrow> engine_config \<Rightarrow> gotime \<Rightarrow> gotime \<Rightarrow> bool" where
  "persistent_abnormal env items config since now =
     (items \<noteq> [] \<and> list_all (abnormal_member env config since now) items)"

definition dispose_abnormal ::
  "engine_config \<Rightarrow> gotime \<Rightarrow> (string \<Rightarrow> string list) \<Rightarrow> string \<Rightarrow> gotime option \<Rightarrow> cleanup_run \<Rightarrow> cleanup_run" where
  "dispose_abnormal config now members a state st =
     (let settings = ec_abnormal_cleanup config;
          items = account_members a (cr_round st);
          restart = (case state of None \<Rightarrow> True | Some t \<Rightarrow> t > now);
          since = (if restart then now else the state);
          st = (if restart then record_since True a (Some now) st else st)
      in if time_sub now since < ac_duration settings then st
         else if a \<in> set (cr_selected st) then st
         else if cr_done st \<ge> ac_max_per_round settings then report ''cleanup_deferred'' a Note_Round_Limit st
         else if ac_keep_last settings \<and> cleanup_would_empty_group a items members (cr_selected st)
         then report ''cleanup_skipped'' a Note_Last_In_Group st
         else report ''cleanup_queued'' a (Note_Abnormal_Queued (ac_action settings))
                (queue_account a
                   (\<lambda>c. c\<lparr>c_cleanup_action := Some (ac_action settings), c_cleanup_reason := [M_Persistent_Abnormal]\<rparr>) st))"

definition abnormal_account ::
  "go_env \<Rightarrow> engine_config \<Rightarrow> (string \<rightharpoonup> gotime) \<Rightarrow> gotime \<Rightarrow> (string \<Rightarrow> string list) \<Rightarrow> string \<Rightarrow>
   cleanup_run \<Rightarrow> cleanup_run" where
  "abnormal_account env config states now members a st =
     (let items = account_members a (cr_round st);
          since = (case states a of Some t \<Rightarrow> t | None \<Rightarrow> zero_time)
      in if \<not> ac_enabled (ec_abnormal_cleanup config) \<or> \<not> persistent_abnormal env items config since now
         then (if states a \<noteq> None then record_since True a None st else st)
         else dispose_abnormal config now members a (states a) st)"

definition queued_ids :: "round \<Rightarrow> string list" where
  "queued_ids cs = map c_id (filter (\<lambda>c. c_state c \<noteq> ''excluded'' \<and> c_cleanup_action c \<noteq> None) cs)"

definition apply_abnormal_cleanup ::
  "go_env \<Rightarrow> engine_config \<Rightarrow> (string \<rightharpoonup> gotime) \<Rightarrow> gotime \<Rightarrow> string list \<Rightarrow> round \<Rightarrow> cleanup_run" where
  "apply_abnormal_cleanup env config states now ids cs =
     fold (abnormal_account env config states now (cleanup_members cs)) ids (start_cleanup cs (queued_ids cs))"

subsection \<open>Accounts without a binding\<close>

definition missing_binding_member :: "engine_config \<Rightarrow> candidate \<Rightarrow> bool" where
  "missing_binding_member config c =
     (if c_id c \<in> set (ec_manual_fused_accounts config) then False
      else \<not> (acc_paused (c_account c) \<or> acc_manual_priority (c_account c) \<noteq> None \<or> acc_upstream_excluded (c_account c) \<or>
              c_state c \<noteq> ''binding_invalid'' \<or> acc_missing_binding_fingerprint (c_account c) = [] \<or>
              c_cleanup_action c \<noteq> None))"

definition missing_binding_cleanup_eligible :: "candidate list \<Rightarrow> engine_config \<Rightarrow> bool" where
  "missing_binding_cleanup_eligible items config = (items \<noteq> [] \<and> list_all (missing_binding_member config) items)"

definition binding_account :: "engine_config \<Rightarrow> string \<Rightarrow> cleanup_run \<Rightarrow> cleanup_run" where
  "binding_account config a st =
     (if \<not> missing_binding_cleanup_eligible (account_members a (cr_round st)) config then st
      else if cr_done st \<ge> bc_max_per_round (ec_binding_cleanup config)
      then report ''cleanup_deferred'' a Note_Round_Limit st
      else report ''cleanup_queued'' a Note_Binding_Queued
             (queue_account a
                (\<lambda>c. c\<lparr>c_cleanup_action := Some ''delete'', c_cleanup_reason := [M_Missing_Binding]\<rparr>) st))"

definition apply_binding_cleanup :: "engine_config \<Rightarrow> string list \<Rightarrow> round \<Rightarrow> cleanup_run" where
  "apply_binding_cleanup config ids cs =
     (if \<not> bc_enabled (ec_binding_cleanup config) then start_cleanup cs []
      else fold (binding_account config) ids (start_cleanup cs []))"

subsection \<open>The three phases\<close>

text \<open>A record of an account that is no longer managed is withdrawn (\<open>Calculate\<close>).\<close>

definition withdrawn_records :: "routing_account list \<Rightarrow> (string \<rightharpoonup> gotime) \<Rightarrow> round \<Rightarrow> state_write list" where
  "withdrawn_records accounts states cs =
     map (\<lambda>a. \<lparr>sw_persistent_abnormal = True, sw_account_id = a, sw_eligible_since = None\<rparr>)
       (rev (remdups (rev (map acc_id (filter (\<lambda>a. states (acc_id a) \<noteq> None \<and> account_members (acc_id a) cs = []) accounts)))))"

definition cleanup_phases ::
  "go_env \<Rightarrow> engine_config \<Rightarrow> (string \<rightharpoonup> gotime) \<Rightarrow> (string \<rightharpoonup> gotime) \<Rightarrow> gotime \<Rightarrow> string list \<Rightarrow>
   routing_account list \<Rightarrow> round \<Rightarrow> round \<times> state_write list \<times> runtime_event list" where
  "cleanup_phases env config states abnormal now ids accounts cs =
     (let policy = apply_cleanup_policy env config states now ids cs;
          persistent = apply_abnormal_cleanup env config abnormal now ids (cr_round policy);
          binding = apply_binding_cleanup config ids (cr_round persistent)
      in (cr_round binding,
          cr_writes policy @ cr_writes persistent @ withdrawn_records accounts abnormal (cr_round persistent),
          cr_events policy @ cr_events persistent @ cr_events binding))"

subsection \<open>What a phase does to one account\<close>

definition unchanged :: "cleanup_run \<Rightarrow> cleanup_run \<Rightarrow> bool" where
  "unchanged st st' \<longleftrightarrow> cr_round st' = cr_round st \<and> cr_selected st' = cr_selected st \<and> cr_done st' = cr_done st"

definition queued :: "string \<Rightarrow> (candidate \<Rightarrow> candidate) \<Rightarrow> cleanup_run \<Rightarrow> cleanup_run \<Rightarrow> bool" where
  "queued a f st st' \<longleftrightarrow>
     cr_round st' = update_account a f (cr_round st) \<and> cr_selected st' = a # cr_selected st \<and> cr_done st' = cr_done st + 1"

lemma unchanged_refl [simp]: "unchanged st st"
  by (simp add: unchanged_def)

lemma unchanged_report [simp]: "unchanged st (report t a n st') = unchanged st st'"
  by (simp add: unchanged_def report_def)

lemma unchanged_record [simp]: "unchanged st (record_since p a s st') = unchanged st st'"
  by (simp add: unchanged_def record_since_def)

lemma queued_report [simp]: "queued a f st (report t b n st') = queued a f st st'"
  by (simp add: queued_def report_def)

lemma record_since_keeps [simp]:
  "cr_round (record_since p a s st) = cr_round st" "cr_selected (record_since p a s st) = cr_selected st"
  "cr_done (record_since p a s st) = cr_done st"
  by (simp_all add: record_since_def)

lemma queued_queue_account [simp]:
  "queued a f st (queue_account a f st)" "queued a f st (queue_account a f (record_since p b s st))"
  by (simp_all add: queued_def queue_account_def)

text \<open>The accounts a disposal is in store for, and the candidates without what a disposal writes.\<close>

definition disposed :: "round \<Rightarrow> string set" where
  "disposed cs = c_id ` {c \<in> set cs. c_cleanup_action c \<noteq> None}"

definition undisposed :: "candidate \<Rightarrow> candidate" where
  "undisposed c = c\<lparr>c_cleanup_action := None, c_cleanup_reason := []\<rparr>"

definition marks :: "(candidate \<Rightarrow> candidate) \<Rightarrow> bool" where
  "marks f \<longleftrightarrow> (\<forall>c. undisposed (f c) = undisposed c \<and> c_cleanup_action (f c) \<noteq> None)"

lemma undisposed_simps [simp]:
  "c_account (undisposed c) = c_account c" "c_state (undisposed c) = c_state c" "c_rows (undisposed c) = c_rows c"
  "c_health (undisposed c) = c_health c" "c_evidence_pending (undisposed c) = c_evidence_pending c"
  "c_cleanup_action (undisposed c) = None"
  by (simp_all add: undisposed_def)

lemma marksD:
  assumes "marks f"
  shows "c_account (f c) = c_account c" "c_state (f c) = c_state c" "undisposed (f c) = undisposed c"
    "c_cleanup_action (f c) \<noteq> None"
proof -
  show u: "undisposed (f c) = undisposed c" "c_cleanup_action (f c) \<noteq> None" using assms by (auto simp: marks_def)
  show "c_account (f c) = c_account c" using arg_cong [OF u(1), of c_account] by simp
  show "c_state (f c) = c_state c" using arg_cong [OF u(1), of c_state] by simp
qed

lemma undisposed_update:
  assumes "marks f"
  shows "map undisposed (update_account a f cs) = map undisposed cs"
  using marksD(3) [OF assms] by (simp add: update_account_def)

lemma disposed_update:
  assumes "marks f"
  shows "disposed (update_account a f cs) \<subseteq> insert a (disposed cs)"
  using marksD(1) [OF assms] by (auto simp: disposed_def update_account_def)

lemma same_undisposed:
  assumes "map undisposed ds = map undisposed cs"
  shows "map undisposed (account_members a ds) = map undisposed (account_members a cs)"
    "cleanup_members ds = cleanup_members cs"
proof -
  have ids: "map undisposed (account_members a xs) = account_members a (map undisposed xs)" for xs
    by (simp add: account_members_def filter_map comp_def)
  show "map undisposed (account_members a ds) = map undisposed (account_members a cs)"
    unfolding ids assms ..
  have "cleanup_members xs = cleanup_members (map undisposed xs)" for xs
    by (simp add: cleanup_members_def filter_map comp_def fun_eq_iff)
  then show "cleanup_members ds = cleanup_members cs" using assms by metis
qed

definition members_left :: "(string \<Rightarrow> string list) \<Rightarrow> round \<Rightarrow> string list \<Rightarrow> bool" where
  "members_left members cs selected \<longleftrightarrow>
     (\<forall>c \<in> set cs. c_id c \<in> set selected \<longrightarrow> (\<exists>m \<in> set (members (c_group c)). m \<notin> set selected))"

definition members_known :: "(string \<Rightarrow> string list) \<Rightarrow> round \<Rightarrow> bool" where
  "members_known members cs \<longleftrightarrow> (\<forall>g. \<forall>m \<in> set (members g). \<exists>d \<in> set cs. c_id d = m \<and> c_group d = g)"

lemma members_left_queue:
  assumes "members_left members cs selected" "members_known members cs"
    and "\<not> cleanup_would_empty_group a (account_members a cs) members selected"
  shows "members_left members cs (a # selected)"
  unfolding members_left_def
proof (intro ballI impI)
  fix c assume c: "c \<in> set cs" "c_id c \<in> set (a # selected)"
  have other: "\<exists>m \<in> set (members (c_group d)). m \<notin> set (a # selected)" if "d \<in> set cs" "c_id d = a" for d
  proof -
    have "d \<in> set (account_members a cs)" using that by simp
    then have "filter (\<lambda>m. m \<noteq> a \<and> m \<notin> set selected) (members (c_group d)) \<noteq> []"
      using assms(3) unfolding cleanup_would_empty_group_def list_ex_iff length_0_conv by blast
    then show ?thesis by (auto simp: filter_empty_conv)
  qed
  show "\<exists>m \<in> set (members (c_group c)). m \<notin> set (a # selected)"
  proof (cases "c_id c = a")
    case True
    then show ?thesis using other c(1) by blast
  next
    case False
    then obtain m where m: "m \<in> set (members (c_group c))" "m \<notin> set selected"
      using c assms(1) unfolding members_left_def by auto
    show ?thesis
    proof (cases "m = a")
      case True
      then obtain d where "d \<in> set cs" "c_id d = a" "c_group d = c_group c"
        using assms(2) m(1) unfolding members_known_def by blast
      then show ?thesis using other [of d] by simp
    next
      case False
      then show ?thesis using m by auto
    qed
  qed
qed

lemma members_left_accounts:
  assumes "map c_account ds = map c_account cs"
  shows "members_left members ds selected = members_left members cs selected"
    "members_known members ds = members_known members cs"
proof -
  have set_eq: "c_account ` set ds = c_account ` set cs" using assms by (simp flip: set_map)
  have left: "members_left members xs selected \<longleftrightarrow>
      (\<forall>a \<in> c_account ` set xs. acc_id a \<in> set selected \<longrightarrow> (\<exists>m \<in> set (members (acc_group_name a)). m \<notin> set selected))" for xs
    by (simp add: members_left_def)
  show "members_left members ds selected = members_left members cs selected" unfolding left set_eq ..
  have known: "members_known members xs \<longleftrightarrow>
      (\<forall>g. \<forall>m \<in> set (members g). \<exists>a \<in> c_account ` set xs. acc_id a = m \<and> acc_group_name a = g)" for xs
    by (simp add: members_known_def)
  show "members_known members ds = members_known members cs" unfolding known set_eq ..
qed

lemma undisposed_accounts:
  assumes "map undisposed ds = map undisposed cs"
  shows "map c_account ds = map c_account cs"
proof -
  have "map c_account xs = map c_account (map undisposed xs)" for xs by simp
  then show ?thesis using assms by metis
qed

subsection \<open>Disposals\<close>

text \<open>
  The contract of a phase. Its step for one account either disposes of nothing, or queues the account
  below the limit of the round, for a reason, and, where the last of a group is kept, with another
  unselected member left in each of its groups.
\<close>

locale disposal =
  fixes step :: "string \<Rightarrow> cleanup_run \<Rightarrow> cleanup_run"
    and mark :: "candidate \<Rightarrow> candidate"
    and limit :: int
    and keep :: bool
    and members :: "string \<Rightarrow> string list"
    and due :: "string \<Rightarrow> round \<Rightarrow> bool"
  assumes step_cases:
      "unchanged st (step a st) \<or>
       (queued a mark st (step a st) \<and> cr_done st < limit \<and> due a (cr_round st) \<and>
        (keep \<longrightarrow> \<not> cleanup_would_empty_group a (account_members a (cr_round st)) members (cr_selected st)))"
    and marks: "marks mark"
    and due_back: "due a (update_account b mark cs) \<Longrightarrow> due a cs"
begin

lemma run_undisposed: "map undisposed (cr_round (fold step ids st)) = map undisposed (cr_round st)"
proof (induction ids arbitrary: st)
  case Nil
  then show ?case by simp
next
  case (Cons a ids)
  have "map undisposed (cr_round (step a st)) = map undisposed (cr_round st)"
    using step_cases [of st a] undisposed_update [OF marks] by (auto simp: unchanged_def queued_def)
  then show ?case using Cons.IH by simp
qed

lemma due_start: "due b (cr_round (step a st)) \<Longrightarrow> due b (cr_round st)"
  using step_cases [of st a] due_back by (auto simp: unchanged_def queued_def)

lemma run_cause:
  "disposed (cr_round (fold step ids st)) \<subseteq> disposed (cr_round st) \<union> {a. due a (cr_round st)}"
proof (induction ids arbitrary: st)
  case Nil
  then show ?case by simp
next
  case (Cons a ids)
  have "disposed (cr_round (step a st)) \<subseteq> disposed (cr_round st) \<union> {a. due a (cr_round st)}"
    using step_cases [of st a] disposed_update [OF marks, of a "cr_round st"] by (auto simp: unchanged_def queued_def)
  then show ?case using Cons.IH [of "step a st"] due_start [of _ a st] by fastforce
qed

lemma run_bound:
  "cr_done st \<le> max 0 limit \<Longrightarrow>
   \<exists>new. int (length new) + cr_done st \<le> max 0 limit \<and>
     disposed (cr_round (fold step ids st)) \<subseteq> disposed (cr_round st) \<union> set new"
proof (induction ids arbitrary: st)
  case Nil
  then show ?case by (intro exI [of _ "[]"]) simp
next
  case (Cons a ids)
  consider "unchanged st (step a st)" | "queued a mark st (step a st)" "cr_done st < limit"
    using step_cases [of st a] by blast
  then show ?case
  proof cases
    case 1
    then show ?thesis using Cons.IH [of "step a st"] Cons.prems by (simp add: unchanged_def)
  next
    case 2
    then have count: "cr_done (step a st) = cr_done st + 1" by (simp add: queued_def)
    have bound: "cr_done (step a st) \<le> max 0 limit" using count 2(2) by simp
    obtain new where new: "int (length new) + cr_done (step a st) \<le> max 0 limit"
      "disposed (cr_round (fold step ids (step a st))) \<subseteq> disposed (cr_round (step a st)) \<union> set new"
      using Cons.IH [OF bound] by blast
    have "disposed (cr_round (step a st)) \<subseteq> insert a (disposed (cr_round st))"
      using 2(1) disposed_update [OF marks] by (simp add: queued_def)
    then show ?thesis using new count by (intro exI [of _ "a # new"]) auto
  qed
qed

lemma step_keeps_last:
  assumes "keep" "members_known members (cr_round st)" "members_left members (cr_round st) (cr_selected st)"
    "disposed (cr_round st) \<subseteq> set (cr_selected st)"
  shows "members_known members (cr_round (step a st)) \<and> members_left members (cr_round (step a st)) (cr_selected (step a st)) \<and>
    disposed (cr_round (step a st)) \<subseteq> set (cr_selected (step a st))"
proof -
  consider "unchanged st (step a st)"
    | "queued a mark st (step a st)" "\<not> cleanup_would_empty_group a (account_members a (cr_round st)) members (cr_selected st)"
    using step_cases [of st a] assms(1) by blast
  then show ?thesis
  proof cases
    case 1
    then show ?thesis using assms by (simp add: unchanged_def)
  next
    case 2
    then have st': "cr_round (step a st) = update_account a mark (cr_round st)" "cr_selected (step a st) = a # cr_selected st"
      by (simp_all add: queued_def)
    have accounts: "map c_account (update_account a mark (cr_round st)) = map c_account (cr_round st)"
      by (rule undisposed_accounts) (rule undisposed_update [OF marks])
    have "disposed (update_account a mark (cr_round st)) \<subseteq> insert a (set (cr_selected st))"
      using disposed_update [OF marks, of a "cr_round st"] assms(4) by blast
    then show ?thesis
      unfolding st' members_left_accounts [OF accounts]
      using assms(2) members_left_queue [OF assms(3,2) 2(2)] by simp
  qed
qed

lemma run_keeps_last:
  assumes "keep" "members_known members (cr_round st)" "members_left members (cr_round st) (cr_selected st)"
    "disposed (cr_round st) \<subseteq> set (cr_selected st)"
  shows "members_left members (cr_round (fold step ids st)) (cr_selected (fold step ids st)) \<and>
    disposed (cr_round (fold step ids st)) \<subseteq> set (cr_selected (fold step ids st))"
proof -
  have "members_known members (cr_round (fold step ids st)) \<and>
      members_left members (cr_round (fold step ids st)) (cr_selected (fold step ids st)) \<and>
      disposed (cr_round (fold step ids st)) \<subseteq> set (cr_selected (fold step ids st))"
    by (rule fold_invariant [where P = "\<lambda>st. members_known members (cr_round st) \<and>
        members_left members (cr_round st) (cr_selected st) \<and> disposed (cr_round st) \<subseteq> set (cr_selected st)"])
      (use assms step_keeps_last in blast)+
  then show ?thesis by blast
qed

end

subsection \<open>The three phases are disposals\<close>

text \<open>
  What each phase requires of an account, read off the round it starts from: the policy (switched on, no
  rate limit, not recovered, enough failures, no protected state, observed long enough), the abnormality
  (switched on, every membership abnormal, for long enough) and the missing binding (switched on, no
  binding in any membership).
\<close>

definition policy_due ::
  "go_env \<Rightarrow> engine_config \<Rightarrow> (string \<rightharpoonup> gotime) \<Rightarrow> gotime \<Rightarrow> string \<Rightarrow> round \<Rightarrow> bool" where
  "policy_due env config states now a cs \<longleftrightarrow>
     (let items = account_members a cs in
      ec_cleanup_enabled config \<and> ec_cleanup_action config \<noteq> ''none'' \<and>
      \<not> list_ex (\<lambda>c. candidate_rate_limited env c now) items \<and>
      \<not> cleanup_recovered config now items \<and>
      int (cleanup_account_hits env config items) \<ge> ec_cleanup_occurrences config \<and>
      \<not> cleanup_account_protected items (ec_cleanup_action config) \<and>
      time_sub now (case states a of Some t \<Rightarrow> t | None \<Rightarrow> now) \<ge> ec_cleanup_observation config)"

definition abnormal_due ::
  "go_env \<Rightarrow> engine_config \<Rightarrow> (string \<rightharpoonup> gotime) \<Rightarrow> gotime \<Rightarrow> string \<Rightarrow> round \<Rightarrow> bool" where
  "abnormal_due env config states now a cs \<longleftrightarrow>
     ac_enabled (ec_abnormal_cleanup config) \<and>
     persistent_abnormal env (account_members a cs) config (case states a of Some t \<Rightarrow> t | None \<Rightarrow> zero_time) now \<and>
     time_sub now (case states a of None \<Rightarrow> now | Some t \<Rightarrow> if t > now then now else t)
       \<ge> ac_duration (ec_abnormal_cleanup config)"

definition binding_due :: "engine_config \<Rightarrow> string \<Rightarrow> round \<Rightarrow> bool" where
  "binding_due config a cs \<longleftrightarrow>
     bc_enabled (ec_binding_cleanup config) \<and> missing_binding_cleanup_eligible (account_members a cs) config"

text \<open>What the reasons look at is what a disposal leaves alone.\<close>

lemma candidate_rate_limited_undisposed [simp]:
  "candidate_rate_limited env (undisposed c) now = candidate_rate_limited env c now"
  by (simp add: candidate_rate_limited_def)

lemma hits_undisposed: "cleanup_account_hits env config (map undisposed items) = cleanup_account_hits env config items"
  by (simp add: cleanup_account_hits_def fold_map comp_def)

lemma protected_undisposed: "cleanup_account_protected (map undisposed items) action = cleanup_account_protected items action"
  by (auto simp: cleanup_account_protected_def list_ex_iff)

lemma recovery_status_undisposed [simp]:
  "recovery_status (undisposed c) config now b = recovery_status c config now b"
  by (simp add: recovery_status_def undisposed_def Let_def cong: option.case_cong)

lemma recovered_undisposed: "cleanup_recovered config now (map undisposed items) = cleanup_recovered config now items"
  by (auto simp: cleanup_recovered_def list_ex_iff)

lemma abnormal_member_undisposed [simp]:
  "abnormal_member env config since now (undisposed c) = abnormal_member env config since now c"
  by (simp add: abnormal_member_def)

lemma limited_undisposed:
  "list_ex (\<lambda>c. candidate_rate_limited env c now) (map undisposed items) = list_ex (\<lambda>c. candidate_rate_limited env c now) items"
  by (auto simp: list_ex_iff)

lemma policy_due_cong:
  assumes "map undisposed ds = map undisposed cs"
  shows "policy_due env config states now a ds = policy_due env config states now a cs"
proof -
  note items = same_undisposed(1) [OF assms, of a]
  have "list_ex (\<lambda>c. candidate_rate_limited env c now) (account_members a ds) =
      list_ex (\<lambda>c. candidate_rate_limited env c now) (account_members a cs)"
    by (metis items limited_undisposed)
  moreover have "cleanup_recovered config now (account_members a ds) = cleanup_recovered config now (account_members a cs)"
    by (metis items recovered_undisposed)
  moreover have "cleanup_account_hits env config (account_members a ds) = cleanup_account_hits env config (account_members a cs)"
    by (metis items hits_undisposed)
  moreover have "cleanup_account_protected (account_members a ds) act = cleanup_account_protected (account_members a cs) act" for act
    by (metis items protected_undisposed)
  ultimately show ?thesis unfolding policy_due_def Let_def by simp
qed

lemma abnormal_due_cong:
  assumes "map undisposed ds = map undisposed cs"
  shows "abnormal_due env config states now a ds = abnormal_due env config states now a cs"
proof -
  have "persistent_abnormal env items config since now = persistent_abnormal env (map undisposed items) config since now" for items since
    by (simp add: persistent_abnormal_def list_all_iff)
  then show ?thesis unfolding abnormal_due_def using same_undisposed(1) [OF assms, of a] by metis
qed

lemma marks_simps:
  "marks (\<lambda>c. c\<lparr>c_cleanup_action := Some x\<rparr>)" "marks (\<lambda>c. c\<lparr>c_cleanup_action := Some x, c_cleanup_reason := r\<rparr>)"
  by (simp_all add: marks_def undisposed_def)

lemma cleanup_account_step:
  "unchanged st (cleanup_account env config states now members a st) \<or>
   (queued a (\<lambda>c. c\<lparr>c_cleanup_action := Some (ec_cleanup_action config)\<rparr>) st (cleanup_account env config states now members a st) \<and>
    cr_done st < ec_cleanup_max_per_round config \<and> policy_due env config states now a (cr_round st) \<and>
    (ec_cleanup_keep_last config \<longrightarrow>
       \<not> cleanup_would_empty_group a (account_members a (cr_round st)) members (cr_selected st)))"
proof (cases "policy_due env config states now a (cr_round st)")
  case True
  then show ?thesis
    by (cases "states a") (simp_all add: policy_due_def cleanup_account_def dispose_account_def Let_def)
next
  case False
  then have "unchanged st (cleanup_account env config states now members a st)"
    by (cases "states a")
      (auto simp: policy_due_def cleanup_account_def dispose_account_def Let_def not_less not_le)
  then show ?thesis by blast
qed

lemma abnormal_account_step:
  "unchanged st (abnormal_account env config states now members a st) \<or>
   (queued a (\<lambda>c. c\<lparr>c_cleanup_action := Some (ac_action (ec_abnormal_cleanup config)), c_cleanup_reason := [M_Persistent_Abnormal]\<rparr>)
      st (abnormal_account env config states now members a st) \<and>
    cr_done st < ac_max_per_round (ec_abnormal_cleanup config) \<and> abnormal_due env config states now a (cr_round st) \<and>
    (ac_keep_last (ec_abnormal_cleanup config) \<longrightarrow>
       \<not> cleanup_would_empty_group a (account_members a (cr_round st)) members (cr_selected st)))"
  by (cases "states a") (simp_all add: abnormal_due_def abnormal_account_def dispose_abnormal_def Let_def)

lemma binding_account_step:
  "unchanged st (binding_account config a st) \<or>
   (queued a (\<lambda>c. c\<lparr>c_cleanup_action := Some ''delete'', c_cleanup_reason := [M_Missing_Binding]\<rparr>) st (binding_account config a st) \<and>
    cr_done st < bc_max_per_round (ec_binding_cleanup config) \<and>
    missing_binding_cleanup_eligible (account_members a (cr_round st)) config)"
  by (simp add: binding_account_def)

lemma eligible_back:
  assumes "missing_binding_cleanup_eligible (account_members a
     (update_account b (\<lambda>c. c\<lparr>c_cleanup_action := Some x, c_cleanup_reason := r\<rparr>) cs)) config"
  shows "missing_binding_cleanup_eligible (account_members a cs) config"
proof -
  let ?f = "\<lambda>c. c\<lparr>c_cleanup_action := Some x, c_cleanup_reason := r\<rparr>"
  have keeps: "keeps_account ?f" by (simp add: keeps_account_def)
  show ?thesis
  proof (cases "a = b")
    case True
    have no: "\<not> missing_binding_member config (?f c)" for c by (simp add: missing_binding_member_def)
    have "missing_binding_cleanup_eligible (map ?f (account_members b cs)) config"
      using assms True account_members_self [OF keeps, of b cs] by simp
    then have False using no by (cases "account_members b cs") (simp_all add: missing_binding_cleanup_eligible_def)
    then show ?thesis ..
  next
    case False
    then show ?thesis using assms account_members_other [OF keeps False, of cs] by simp
  qed
qed

interpretation policy: disposal "cleanup_account env config states now members"
    "\<lambda>c. c\<lparr>c_cleanup_action := Some (ec_cleanup_action config)\<rparr>" "ec_cleanup_max_per_round config"
    "ec_cleanup_keep_last config" members "policy_due env config states now"
  for env config states now members
proof
  show "policy_due env config states now a cs"
    if "policy_due env config states now a (update_account b (\<lambda>c. c\<lparr>c_cleanup_action := Some (ec_cleanup_action config)\<rparr>) cs)" for a b cs
    using that policy_due_cong [OF undisposed_update [OF marks_simps(1)]] by blast
qed (rule cleanup_account_step marks_simps(1))+

interpretation abnormal: disposal "abnormal_account env config states now members"
    "\<lambda>c. c\<lparr>c_cleanup_action := Some (ac_action (ec_abnormal_cleanup config)), c_cleanup_reason := [M_Persistent_Abnormal]\<rparr>"
    "ac_max_per_round (ec_abnormal_cleanup config)" "ac_keep_last (ec_abnormal_cleanup config)" members
    "abnormal_due env config states now"
  for env config states now members
proof
  show "abnormal_due env config states now a cs"
    if "abnormal_due env config states now a (update_account b
         (\<lambda>c. c\<lparr>c_cleanup_action := Some (ac_action (ec_abnormal_cleanup config)), c_cleanup_reason := [M_Persistent_Abnormal]\<rparr>) cs)" for a b cs
    using that abnormal_due_cong [OF undisposed_update [OF marks_simps(2)]] by blast
qed (rule abnormal_account_step marks_simps(2))+

interpretation binding: disposal "binding_account config"
    "\<lambda>c. c\<lparr>c_cleanup_action := Some ''delete'', c_cleanup_reason := [M_Missing_Binding]\<rparr>"
    "bc_max_per_round (ec_binding_cleanup config)" False "\<lambda>_. []"
    "\<lambda>a cs. missing_binding_cleanup_eligible (account_members a cs) config"
  for config
proof
  show "unchanged st (binding_account config a st) \<or>
     (queued a (\<lambda>c. c\<lparr>c_cleanup_action := Some ''delete'', c_cleanup_reason := [M_Missing_Binding]\<rparr>) st (binding_account config a st) \<and>
      cr_done st < bc_max_per_round (ec_binding_cleanup config) \<and>
      missing_binding_cleanup_eligible (account_members a (cr_round st)) config \<and>
      (False \<longrightarrow> \<not> cleanup_would_empty_group a (account_members a (cr_round st)) (\<lambda>_. []) (cr_selected st)))" for st a
    using binding_account_step [of st config a] by blast
qed (rule marks_simps(2) eligible_back; assumption?)+

subsection \<open>The phases together\<close>

lemma start_cleanup_simps [simp]:
  "cr_round (start_cleanup cs sel) = cs" "cr_selected (start_cleanup cs sel) = sel" "cr_done (start_cleanup cs sel) = 0"
  by (simp_all add: start_cleanup_def)

definition policy_round :: "go_env \<Rightarrow> engine_config \<Rightarrow> (string \<rightharpoonup> gotime) \<Rightarrow> gotime \<Rightarrow> string list \<Rightarrow> round \<Rightarrow> round" where
  "policy_round env config states now ids cs = cr_round (apply_cleanup_policy env config states now ids cs)"

definition abnormal_round ::
  "go_env \<Rightarrow> engine_config \<Rightarrow> (string \<rightharpoonup> gotime) \<Rightarrow> (string \<rightharpoonup> gotime) \<Rightarrow> gotime \<Rightarrow> string list \<Rightarrow> round \<Rightarrow> round" where
  "abnormal_round env config states abnormal now ids cs =
     cr_round (apply_abnormal_cleanup env config abnormal now ids (policy_round env config states now ids cs))"

lemma cleanup_phases_round:
  "fst (cleanup_phases env config states abnormal now ids accounts cs) =
   cr_round (apply_binding_cleanup config ids (abnormal_round env config states abnormal now ids cs))"
  by (simp add: cleanup_phases_def abnormal_round_def policy_round_def Let_def)

lemma binding_round:
  "map undisposed (cr_round (apply_binding_cleanup config ids cs)) = map undisposed cs"
  "disposed (cr_round (apply_binding_cleanup config ids cs)) \<subseteq> disposed cs \<union> {a. binding_due config a cs}"
  using binding.run_undisposed [of config ids "start_cleanup cs []"] binding.run_cause [of config ids "start_cleanup cs []"]
  by (auto simp: apply_binding_cleanup_def binding_due_def)

lemma policy_round_undisposed: "map undisposed (policy_round env config states now ids cs) = map undisposed cs"
  using policy.run_undisposed [of env config states now "cleanup_members cs" ids "start_cleanup cs []"]
  by (simp add: policy_round_def apply_cleanup_policy_def)

lemma abnormal_round_undisposed: "map undisposed (abnormal_round env config states abnormal now ids cs) = map undisposed cs"
  using abnormal.run_undisposed [of env config abnormal now _ ids "start_cleanup _ _"] policy_round_undisposed
  by (simp add: abnormal_round_def apply_abnormal_cleanup_def)

lemma policy_round_cause:
  "disposed (policy_round env config states now ids cs) \<subseteq> disposed cs \<union> {a. policy_due env config states now a cs}"
  using policy.run_cause [of env config states now "cleanup_members cs" ids "start_cleanup cs []"]
  by (simp add: policy_round_def apply_cleanup_policy_def)

lemma abnormal_round_cause:
  "disposed (abnormal_round env config states abnormal now ids cs) \<subseteq>
   disposed (policy_round env config states now ids cs) \<union> {a. abnormal_due env config abnormal now a cs}"
proof -
  let ?ps = "policy_round env config states now ids cs"
  have "abnormal_due env config abnormal now a ?ps = abnormal_due env config abnormal now a cs" for a
    by (rule abnormal_due_cong) (rule policy_round_undisposed)
  then show ?thesis
    using abnormal.run_cause [of env config abnormal now "cleanup_members ?ps" ids "start_cleanup ?ps (queued_ids ?ps)"]
    by (simp add: abnormal_round_def apply_abnormal_cleanup_def)
qed

lemma policy_due_open:
  assumes "policy_due env config states now (c_id c) cs" "c \<in> set cs"
  shows "c_state c \<noteq> ''excluded''"
proof
  assume "c_state c = ''excluded''"
  moreover have "c \<in> set (account_members (c_id c) cs)" using assms(2) by simp
  ultimately have "cleanup_account_protected (account_members (c_id c) cs) (ec_cleanup_action config)"
    by (auto simp: cleanup_account_protected_def list_ex_iff)
  then show False using assms(1) by (simp add: policy_due_def Let_def)
qed

lemma members_known_cleanup: "members_known (cleanup_members cs) cs"
  by (auto simp: members_known_def cleanup_members_def)

lemma members_left_mono:
  "members_left members cs selected \<Longrightarrow> set selected' \<subseteq> set selected \<Longrightarrow> members_left members cs selected'"
  unfolding members_left_def by blast

text \<open>What the first two phases leave behind.\<close>

lemma abnormal_round_keeps_last:
  assumes "disposed cs = {}" "ec_cleanup_keep_last config" "ac_keep_last (ec_abnormal_cleanup config)"
  obtains selected where
    "members_left (cleanup_members cs) (abnormal_round env config states abnormal now ids cs) selected"
    "disposed (abnormal_round env config states abnormal now ids cs) \<subseteq> set selected"
proof -
  let ?ps = "policy_round env config states now ids cs"
  let ?run = "apply_cleanup_policy env config states now ids cs"
  have left: "members_left (cleanup_members cs) ?ps (cr_selected ?run)" "disposed ?ps \<subseteq> set (cr_selected ?run)"
    using policy.run_keeps_last [of config "cleanup_members cs" "start_cleanup cs []" env states now ids] assms members_known_cleanup
    by (simp_all add: policy_round_def apply_cleanup_policy_def members_left_def)
  have opened: "c_state c \<noteq> ''excluded''" if "c \<in> set ?ps" "c_id c \<in> disposed ?ps" for c
  proof -
    have "policy_due env config states now (c_id c) cs" using that(2) policy_round_cause assms(1) by blast
    then have "policy_due env config states now (c_id c) ?ps" using policy_due_cong [OF policy_round_undisposed] by blast
    then show ?thesis using policy_due_open that(1) by blast
  qed
  have queued: "set (queued_ids ?ps) \<subseteq> disposed ?ps" "disposed ?ps \<subseteq> set (queued_ids ?ps)"
    using opened by (auto simp: queued_ids_def disposed_def)
  have members: "cleanup_members ?ps = cleanup_members cs" by (rule same_undisposed(2)) (rule policy_round_undisposed)
  have "members_left (cleanup_members cs) ?ps (queued_ids ?ps)"
    by (rule members_left_mono [OF left(1)]) (use queued left(2) in blast)
  moreover have "members_known (cleanup_members cs) ?ps" using members_known_cleanup [of ?ps] members by simp
  ultimately have "members_left (cleanup_members cs) (abnormal_round env config states abnormal now ids cs)
        (cr_selected (apply_abnormal_cleanup env config abnormal now ids ?ps)) \<and>
      disposed (abnormal_round env config states abnormal now ids cs)
        \<subseteq> set (cr_selected (apply_abnormal_cleanup env config abnormal now ids ?ps))"
    using abnormal.run_keeps_last [of config "cleanup_members cs" "start_cleanup ?ps (queued_ids ?ps)" env abnormal now ids]
      assms(3) queued(2)
    by (simp add: abnormal_round_def apply_abnormal_cleanup_def members)
  then show ?thesis using that by blast
qed

lemma disposed_empty: "disposed cs = {} \<longleftrightarrow> list_all (\<lambda>c. c_cleanup_action c = None) cs"
  by (auto simp: disposed_def list_all_iff)

text \<open>Where nothing is disposed of yet, a binding missing after the first phases was missing before them.\<close>

lemma binding_due_start:
  assumes "map undisposed ds = map undisposed cs" "disposed cs = {}" "binding_due config a ds"
  shows "binding_due config a cs"
proof -
  have members: "map undisposed (account_members a ds) = map undisposed (account_members a cs)"
    by (rule same_undisposed(1)) (rule assms(1))
  have "missing_binding_member config d" if d: "d \<in> set (account_members a cs)" for d
  proof -
    have "undisposed d \<in> set (map undisposed (account_members a ds))" using d unfolding members by simp
    then obtain e where e: "e \<in> set (account_members a ds)" "undisposed e = undisposed d" by auto
    have same: "c_account e = c_account d" "c_state e = c_state d"
      using arg_cong [OF e(2), of c_account] arg_cong [OF e(2), of c_state] by simp_all
    have "missing_binding_member config e"
      using assms(3) e(1) unfolding binding_due_def missing_binding_cleanup_eligible_def list_all_iff by blast
    moreover have "c_cleanup_action d = None" using d assms(2) by (auto simp: disposed_def)
    ultimately show ?thesis using same by (simp add: missing_binding_member_def split: if_splits)
  qed
  moreover have "account_members a cs \<noteq> []"
    using members assms(3) by (auto simp: binding_due_def missing_binding_cleanup_eligible_def)
  ultimately show ?thesis
    using assms(3) by (simp add: binding_due_def missing_binding_cleanup_eligible_def list_all_iff)
qed

definition sample_failure :: routing_sample where
  "sample_failure =
     \<lparr>rs_account_id = ''1'', rs_evidence_key = [], rs_group_name = ''g'', rs_result = ''failed'', rs_latency_p95 = None,
      rs_failure_reason = ''502'', rs_source = ''traffic'', rs_observed_at = Some 0, rs_payload = []\<rparr>"

definition sample_cleanup_config :: engine_config where
  "sample_cleanup_config = plain_config
     \<lparr>ec_cleanup_enabled := True, ec_cleanup_max_per_round := 5, ec_cleanup_status_codes := [502],
      ec_abnormal_cleanup := \<lparr>ac_enabled = True, ac_action = ''delete'', ac_duration = 0, ac_max_per_round = 1, ac_keep_last = True\<rparr>,
      ec_binding_cleanup := \<lparr>bc_enabled = True, bc_max_per_round = 1\<rparr>\<rparr>"

definition sample_failing :: "string \<Rightarrow> candidate" where
  "sample_failing i = (plain_candidate (plain_account i ''g''))\<lparr>c_state := ''fused'', c_rows := [sample_failure]\<rparr>"

definition sample_unbound :: candidate where
  "sample_unbound =
     (plain_candidate ((plain_account ''2'' ''g'')\<lparr>acc_missing_binding_fingerprint := ''k''\<rparr>))\<lparr>c_state := ''binding_invalid''\<rparr>"

lemma sample_abnormal_round:
  "map c_cleanup_action (abnormal_round plain_env sample_cleanup_config Map.empty Map.empty 0 [''1'', ''3''] [sample_failing ''1'', sample_failing ''3'']) =
   [Some ''pause'', None]"
  by code_simp

abbreviation sample_round :: round where
  "sample_round \<equiv> abnormal_round plain_env sample_cleanup_config Map.empty Map.empty 0 [''1'', ''3'']
     [sample_failing ''1'', sample_failing ''3'']"

lemma sample_fresh: "disposed [sample_failing i, sample_failing j] = {}" "disposed [sample_failing i, sample_unbound] = {}"
  by (simp_all add: disposed_empty sample_failing_def sample_unbound_def plain_candidate_def)

lemma sample_cleanup_config_simps [simp]:
  "ec_cleanup_keep_last sample_cleanup_config" "ac_keep_last (ec_abnormal_cleanup sample_cleanup_config)"
  by (simp_all add: sample_cleanup_config_def plain_config_def)

text \<open>C30: the last account of a group is kept. Where both disposals are told to keep it, every group of an
  account they queue still has another account that is not excluded and not queued; the order in which
  the accounts come up does not matter.\<close>

theorem disposals_keep_last_of_group:
  assumes "disposed cs = {}" and "ec_cleanup_keep_last config" and "ac_keep_last (ec_abnormal_cleanup config)"
    and "ds = abnormal_round env config states abnormal now ids cs"
    and "c \<in> set ds" and "c_cleanup_action c \<noteq> None"
  shows "\<exists>d \<in> set ds. c_group d = c_group c \<and> c_id d \<noteq> c_id c \<and> c_state d \<noteq> ''excluded'' \<and> c_cleanup_action d = None"
proof -
  obtain selected where left: "members_left (cleanup_members cs) ds selected" "disposed ds \<subseteq> set selected"
    unfolding assms(4) by (rule abnormal_round_keeps_last [OF assms(1-3)])
  have "cleanup_members ds = cleanup_members cs"
    unfolding assms(4) by (rule same_undisposed(2)) (rule abnormal_round_undisposed)
  moreover have in_sel: "c_id e \<in> set selected" if "e \<in> set ds" "c_cleanup_action e \<noteq> None" for e
    using left(2) that by (auto simp: disposed_def)
  ultimately obtain m where m: "m \<in> set (cleanup_members ds (c_group c))" "m \<notin> set selected"
    using left(1) assms(5,6) unfolding members_left_def by auto
  then obtain d where d: "d \<in> set ds" "c_id d = m" "c_group d = c_group c" "c_state d \<noteq> ''excluded''"
    by (auto simp: cleanup_members_def)
  have "c_cleanup_action d = None" using in_sel [OF d(1)] d(2) m(2) by blast
  moreover have "c_id d \<noteq> c_id c" using in_sel [OF assms(5,6)] d(2) m(2) by metis
  ultimately show ?thesis using d by blast
qed

theorem disposals_keep_last_of_group_witness:
  "\<exists>c \<in> set sample_round. c_cleanup_action c = Some ''pause'' \<and>
     (\<exists>d \<in> set sample_round. c_group d = c_group c \<and> c_id d \<noteq> c_id c \<and> c_state d \<noteq> ''excluded'' \<and> c_cleanup_action d = None)"
proof -
  have "Some ''pause'' \<in> c_cleanup_action ` set sample_round"
    using arg_cong [OF sample_abnormal_round, of set] by simp
  then obtain c where c: "c \<in> set sample_round" "c_cleanup_action c = Some ''pause''" by auto
  have "\<exists>d \<in> set sample_round. c_group d = c_group c \<and> c_id d \<noteq> c_id c \<and> c_state d \<noteq> ''excluded'' \<and> c_cleanup_action d = None"
    by (rule disposals_keep_last_of_group [OF _ _ _ refl c(1)]) (simp_all add: sample_fresh c(2))
  then show ?thesis using c by blast
qed

text \<open>C31: no disposal without its cause. Whoever the three phases dispose of met every condition of one of
  them in the round they started from: those of the cleanup policy (switched on, no rate limit, not
  recovered, enough failures, no protected state, observed for the configured time), those of the
  disposal of persistently abnormal accounts (switched on, every membership abnormal, for the configured
  duration), or those of the binding cleanup (switched on, every membership without a binding).\<close>

theorem disposals_have_a_cause:
  assumes "disposed cs = {}"
    and "c \<in> set (fst (cleanup_phases env config states abnormal now ids accounts cs))"
    and "c_cleanup_action c \<noteq> None"
  shows "policy_due env config states now (c_id c) cs \<or> abnormal_due env config abnormal now (c_id c) cs \<or>
    binding_due config (c_id c) cs"
proof -
  let ?as = "abnormal_round env config states abnormal now ids cs"
  have "c_id c \<in> disposed (fst (cleanup_phases env config states abnormal now ids accounts cs))"
    using assms(2,3) by (auto simp: disposed_def)
  then have "c_id c \<in> disposed ?as \<or> binding_due config (c_id c) ?as"
    using binding_round(2) [of config ids ?as] unfolding cleanup_phases_round by blast
  moreover have "policy_due env config states now (c_id c) cs \<or> abnormal_due env config abnormal now (c_id c) cs"
    if "c_id c \<in> disposed ?as"
    using that abnormal_round_cause policy_round_cause assms(1) by blast
  moreover have "binding_due config (c_id c) cs" if "binding_due config (c_id c) ?as"
    using that binding_due_start [OF abnormal_round_undisposed assms(1)] by blast
  ultimately show ?thesis by blast
qed

theorem disposals_have_a_cause_witness:
  "policy_due plain_env sample_cleanup_config Map.empty 0 ''1'' [sample_failing ''1'', sample_unbound] \<or>
   abnormal_due plain_env sample_cleanup_config Map.empty 0 ''1'' [sample_failing ''1'', sample_unbound] \<or>
   binding_due sample_cleanup_config ''1'' [sample_failing ''1'', sample_unbound]"
proof -
  let ?ds = "fst (cleanup_phases plain_env sample_cleanup_config Map.empty Map.empty 0 [''1'', ''2''] []
     [sample_failing ''1'', sample_unbound])"
  have "map (\<lambda>c. (c_id c, c_cleanup_action c)) ?ds = [(''1'', Some ''pause''), (''2'', Some ''delete'')]" by code_simp
  then have "(''1'', Some ''pause'') \<in> set (map (\<lambda>c. (c_id c, c_cleanup_action c)) ?ds)" by simp
  then obtain c where c: "c \<in> set ?ds" "c_id c = ''1''" "c_cleanup_action c = Some ''pause''" by auto
  show ?thesis
    using disposals_have_a_cause [OF sample_fresh(2) c(1)] c(2,3) by simp
qed

text \<open>C32: the limits of a round hold. Together the phases dispose of no more accounts than their limits
  allow, however many qualify.\<close>

theorem disposals_within_limits:
  assumes "disposed cs = {}"
  shows "int (card (disposed (fst (cleanup_phases env config states abnormal now ids accounts cs))))
    \<le> max 0 (ec_cleanup_max_per_round config) + max 0 (ac_max_per_round (ec_abnormal_cleanup config)) +
      (if bc_enabled (ec_binding_cleanup config) then max 0 (bc_max_per_round (ec_binding_cleanup config)) else 0)"
proof -
  let ?ps = "policy_round env config states now ids cs" and ?as = "abnormal_round env config states abnormal now ids cs"
  let ?bs = "cr_round (apply_binding_cleanup config ids ?as)"
  obtain p where p: "int (length p) \<le> max 0 (ec_cleanup_max_per_round config)" "disposed ?ps \<subseteq> set p"
    using policy.run_bound [of "start_cleanup cs []" config env states now "cleanup_members cs" ids] assms
    by (auto simp: policy_round_def apply_cleanup_policy_def)
  obtain q where q: "int (length q) \<le> max 0 (ac_max_per_round (ec_abnormal_cleanup config))" "disposed ?as \<subseteq> disposed ?ps \<union> set q"
    using abnormal.run_bound [of "start_cleanup ?ps (queued_ids ?ps)" config env abnormal now "cleanup_members ?ps" ids]
    by (auto simp: abnormal_round_def apply_abnormal_cleanup_def)
  obtain r where r: "int (length r) \<le> (if bc_enabled (ec_binding_cleanup config) then max 0 (bc_max_per_round (ec_binding_cleanup config)) else 0)"
    "disposed ?bs \<subseteq> disposed ?as \<union> set r"
  proof (cases "bc_enabled (ec_binding_cleanup config)")
    case True
    then show ?thesis
      using binding.run_bound [of "start_cleanup ?as []" config ids] that by (auto simp: apply_binding_cleanup_def)
  next
    case False
    then show ?thesis using that [of "[]"] by (simp add: apply_binding_cleanup_def)
  qed
  have "disposed ?bs \<subseteq> set (p @ q @ r)" using p(2) q(2) r(2) by auto
  then have "card (disposed ?bs) \<le> length (p @ q @ r)"
    by (meson card_length card_mono List.finite_set le_trans)
  then show ?thesis unfolding cleanup_phases_round using p(1) q(1) r(1) by simp
qed

theorem disposals_within_limits_witness:
  "int (card (disposed (fst (cleanup_phases plain_env sample_cleanup_config Map.empty Map.empty 0 [''1'', ''2''] []
     [sample_failing ''1'', sample_unbound])))) \<le> 7"
  using disposals_within_limits [OF sample_fresh(2), of plain_env sample_cleanup_config Map.empty Map.empty 0 "[''1'', ''2'']" "[]" "''1''"]
  by (simp add: sample_cleanup_config_def)

end
