(* ===== verification/Capacity.thy ===== *)
theory Capacity
  imports Sample_Round
begin

text \<open>
  The distribution of a finite concurrency over accounts (routing/upstream_scaling.go,
  \<open>boundedConcurrencyQuotas\<close> and \<open>saturatingCapacityAdd\<close>).

  A quota map is a function that answers 0 where the code's map has no entry. Shares are \<open>float64\<close>
  computations, quotas 64-bit integers that wrap. The distribution is a loop without a counter: it is a
  partial function here, and that it returns is proved.
\<close>

subsection \<open>Capacities\<close>

definition saturating_capacity_add :: "int64 \<Rightarrow> int64 \<Rightarrow> int64" where
  "saturating_capacity_add l r = (if r > i64 (max_int64 - l) then max_int64 else i64 (l + r))"

type_synonym quotas = "string \<Rightarrow> int64"
type_synonym quota_bounds = "candidate \<Rightarrow> int64 \<times> int64"

definition total_capacity :: "(candidate \<Rightarrow> int64) \<Rightarrow> candidate list \<Rightarrow> int64" where
  "total_capacity f items = fold (\<lambda>c t. saturating_capacity_add t (f c)) items 0"

subsection \<open>One round of the distribution\<close>

definition total_weight :: "candidate list \<Rightarrow> rat" where
  "total_weight active = fold (\<lambda>c t. fadd t (c_weight c)) active 0"

definition quota_share :: "int64 \<Rightarrow> candidate list \<Rightarrow> candidate \<Rightarrow> rat" where
  "quota_share remaining active c =
     (let total = total_weight active in
      if total > 0 then fdiv (fmul (fl (of_int remaining)) (c_weight c)) total
      else fdiv (fl (of_int remaining)) (fl (of_int (int (length active)))))"

fun spread_shares ::
  "quota_bounds \<Rightarrow> (candidate \<Rightarrow> rat) \<Rightarrow> candidate list \<Rightarrow> quotas \<times> int64 \<Rightarrow> quotas \<times> int64" where
  "spread_shares bounds share [] st = st"
| "spread_shares bounds share (c # cs) (q, capacity) =
     (let increment = min (min (int_of_float (of_int \<lfloor>share c\<rfloor>)) (i64 (snd (bounds c) - q (c_id c)))) capacity
      in spread_shares bounds share cs (q(c_id c := i64 (q (c_id c) + increment)), i64 (capacity - increment)))"

definition share_remainder :: "(candidate \<Rightarrow> rat) \<Rightarrow> candidate \<Rightarrow> rat" where
  "share_remainder share c = fsub (share c) (of_int \<lfloor>share c\<rfloor>)"

fun spread_units :: "quota_bounds \<Rightarrow> candidate list \<Rightarrow> quotas \<times> int64 \<Rightarrow> quotas \<times> int64" where
  "spread_units bounds [] st = st"
| "spread_units bounds (c # cs) (q, capacity) =
     (if capacity = 0 then (q, capacity)
      else if q (c_id c) < snd (bounds c)
      then spread_units bounds cs (q(c_id c := i64 (q (c_id c) + 1)), i64 (capacity - 1))
      else spread_units bounds cs (q, capacity))"

definition quota_round :: "quota_bounds \<Rightarrow> candidate list \<Rightarrow> quotas \<times> int64 \<Rightarrow> quotas \<times> int64" where
  "quota_round bounds active st =
     (let share = quota_share (snd st) active;
          st = spread_shares bounds share active st
      in spread_units bounds (sort_by (\<lambda>l r. share_remainder share l > share_remainder share r) active) st)"

subsection \<open>The distribution\<close>

definition quota_active :: "quota_bounds \<Rightarrow> candidate list \<Rightarrow> quotas \<Rightarrow> candidate list" where
  "quota_active bounds items q = filter (\<lambda>c. q (c_id c) < snd (bounds c)) items"

partial_function (option) quota_rounds ::
  "quota_bounds \<Rightarrow> candidate list \<Rightarrow> quotas \<times> int64 \<Rightarrow> (quotas \<times> int64) option" where
  "quota_rounds bounds items st =
     (if \<not> snd st > 0 then Some st
      else if quota_active bounds items (fst st) = [] then Some st
      else quota_rounds bounds items (quota_round bounds (quota_active bounds items (fst st)) st))"

definition start_quota :: "(candidate \<Rightarrow> int64) \<Rightarrow> candidate \<Rightarrow> quotas \<times> int64 \<Rightarrow> quotas \<times> int64" where
  "start_quota minimum c st = ((fst st)(c_id c := minimum c), i64 (snd st - minimum c))"

definition start_quotas :: "(candidate \<Rightarrow> int64) \<Rightarrow> candidate list \<Rightarrow> int64 \<Rightarrow> quotas \<times> int64" where
  "start_quotas minimum items capacity =
     fold (start_quota minimum) items (\<lambda>_. 0, capacity)"

definition bounded_concurrency_quotas :: "candidate list \<Rightarrow> int64 \<Rightarrow> quota_bounds \<Rightarrow> quotas option" where
  "bounded_concurrency_quotas items capacity bounds =
     (let minimum_total = total_capacity (\<lambda>c. fst (bounds c)) items;
          maximum_total = total_capacity (\<lambda>c. snd (bounds c)) items;
          capacity = min capacity maximum_total;
          minimum = (\<lambda>c. if minimum_total > capacity then 1 else fst (bounds c))
      in map_option fst (quota_rounds bounds items (start_quotas minimum items capacity)))"

subsection \<open>Saturation\<close>

lemma saturating_capacity_add_eq:
  assumes "0 \<le> l" "l \<le> max_int64" "0 \<le> r" "r \<le> max_int64"
  shows "saturating_capacity_add l r = min max_int64 (l + r)"
  using assms by (simp add: saturating_capacity_add_def i64_id_nonneg)

lemma fold_saturating:
  assumes "\<And>x. x \<in> set xs \<Longrightarrow> 0 \<le> f x \<and> f x \<le> max_int64" "0 \<le> t" "t \<le> max_int64"
  shows "fold (\<lambda>x t. saturating_capacity_add t (f x)) xs t = min max_int64 (t + sum_list (map f xs))"
  using assms
proof (induction xs arbitrary: t)
  case Nil
  then show ?case by simp
next
  case (Cons x xs)
  have x: "0 \<le> f x" "f x \<le> max_int64" using Cons.prems(1) by auto
  then have add: "saturating_capacity_add t (f x) = min max_int64 (t + f x)"
    using Cons.prems(2,3) by (simp add: saturating_capacity_add_eq)
  have nonneg: "0 \<le> sum_list (map f xs)" using Cons.prems(1) by (intro sum_list_nonneg) auto
  show ?case
    using Cons.IH [of "min max_int64 (t + f x)"] Cons.prems x nonneg add by (auto simp: min_def max_int64_def)
qed

lemma total_capacity_eq:
  assumes "\<And>c. c \<in> set items \<Longrightarrow> 0 \<le> f c \<and> f c \<le> max_int64"
  shows "total_capacity f items = min max_int64 (sum_list (map f items))"
  using fold_saturating [of items f 0] assms by (simp add: total_capacity_def max_int64_def)

subsection \<open>Shares\<close>

text \<open>A finite \<open>float64\<close>: an integral mantissa of 53 bits at an exponent in range.\<close>

definition representable :: "rat \<Rightarrow> bool" where
  "representable x \<longleftrightarrow> (\<exists>n k. x = of_int n * pow2 k \<and> \<bar>n\<bar> \<le> 2 ^ 53 \<and> - 1074 \<le> k)"

lemma representable_int: "\<bar>n\<bar> \<le> 2 ^ 53 \<Longrightarrow> representable (of_int n)"
  unfolding representable_def by (intro exI [of _ n] exI [of _ 0]) simp

lemma fl_representable: "representable x \<Longrightarrow> fl x = x"
  using fl_grid by (auto simp: representable_def)

lemma fl_scaled:
  assumes "representable x"
  shows "fl (2 ^ 53 * x) = 2 ^ 53 * x"
proof -
  obtain n k where x: "x = of_int n * pow2 k" "\<bar>n\<bar> \<le> 2 ^ 53" "- 1074 \<le> k"
    using assms by (auto simp: representable_def)
  have "2 ^ 53 * x = of_int n * pow2 (k + 53)" by (simp add: x(1) pow2_add pow2_int)
  then show ?thesis using fl_grid [of n "k + 53"] x(2,3) by simp
qed

lemma total_weight_mono:
  assumes "\<And>c. c \<in> set active \<Longrightarrow> 0 \<le> c_weight c" "representable w" "w \<le> t"
  shows "w \<le> fold (\<lambda>c t. fadd t (c_weight c)) active t"
  using assms(1,3)
proof (induction active arbitrary: t)
  case Nil
  then show ?case by simp
next
  case (Cons c active)
  have "w = fl w" using fl_representable [OF assms(2)] by simp
  also have "\<dots> \<le> fl (t + c_weight c)"
    by (rule fl_mono) (use Cons.prems in \<open>auto intro: add_increasing2\<close>)
  finally show ?case using Cons by (simp add: fadd_def)
qed

lemma weight_le_total:
  assumes "\<And>c. c \<in> set active \<Longrightarrow> 0 \<le> c_weight c \<and> representable (c_weight c)" "c \<in> set active"
  shows "c_weight c \<le> total_weight active"
proof -
  obtain as bs where split: "active = as @ c # bs" using split_list [OF assms(2)] by blast
  have zero: "representable 0" unfolding representable_def by (intro exI [of _ 0]) auto
  have "0 \<le> fold (\<lambda>c t. fadd t (c_weight c)) as 0"
    by (rule total_weight_mono [OF _ zero]) (use assms split in auto)
  then have "c_weight c \<le> fold (\<lambda>c t. fadd t (c_weight c)) as 0 + c_weight c" by simp
  then have "fl (c_weight c) \<le> fadd (fold (\<lambda>c t. fadd t (c_weight c)) as 0) (c_weight c)"
    unfolding fadd_def by (rule fl_mono)
  then have "c_weight c \<le> fadd (fold (\<lambda>c t. fadd t (c_weight c)) as 0) (c_weight c)"
    using fl_representable [of "c_weight c"] assms by simp
  then have "c_weight c \<le> fold (\<lambda>c t. fadd t (c_weight c)) bs (fadd (fold (\<lambda>c t. fadd t (c_weight c)) as 0) (c_weight c))"
    by (intro total_weight_mono) (use assms split in auto)
  then show ?thesis by (simp add: total_weight_def split)
qed

lemma quota_share_bounds:
  assumes "\<And>c. c \<in> set active \<Longrightarrow> 0 \<le> c_weight c \<and> representable (c_weight c)"
    and "c \<in> set active" "0 \<le> remaining" "remaining \<le> 2 ^ 53"
  shows "0 \<le> quota_share remaining active c" "quota_share remaining active c \<le> 2 ^ 53"
proof -
  let ?r = "of_int remaining :: rat" and ?w = "c_weight c" and ?t = "total_weight active"
  have r: "fl ?r = ?r" "0 \<le> ?r" using fl_of_int [of remaining] assms(3,4) by auto
  have "(of_int remaining :: rat) \<le> of_int (2 ^ 53)" using assms(4) by (simp only: of_int_le_iff)
  then have r_le: "?r \<le> 2 ^ 53" by simp
  have w: "0 \<le> ?w" "representable ?w" "?w \<le> ?t" using assms(1,2) weight_le_total [OF assms(1,2)] by auto
  have "0 \<le> quota_share remaining active c \<and> quota_share remaining active c \<le> 2 ^ 53"
  proof (cases "?t > 0")
    case True
    have "fmul ?r ?w \<le> fl (2 ^ 53 * ?w)" unfolding fmul_def by (rule fl_mono) (use w r_le in \<open>simp add: mult_right_mono\<close>)
    then have "fmul ?r ?w \<le> 2 ^ 53 * ?w" using fl_scaled [OF w(2)] by simp
    also have "\<dots> \<le> 2 ^ 53 * ?t" using w(3) by simp
    finally have "fmul ?r ?w / ?t \<le> of_int (2 ^ 53)" using True by (simp add: divide_le_eq)
    then have "fdiv (fmul ?r ?w) ?t \<le> of_int (2 ^ 53)" unfolding fdiv_def by (rule fl_le_int) simp
    moreover have "0 \<le> fmul ?r ?w" unfolding fmul_def by (rule fl_nonneg) (use w(1) r(2) in simp)
    then have "0 \<le> fdiv (fmul ?r ?w) ?t" unfolding fdiv_def by (intro fl_nonneg) (use True in simp)
    ultimately show ?thesis using True r(1) by (simp add: quota_share_def)
  next
    case False
    let ?n = "fl (of_int (int (length active))) :: rat"
    have "1 \<le> length active" using assms(2) by (cases active) auto
    then have n: "1 \<le> ?n" using fl_ge_int [of 1 "of_int (int (length active))"] by simp
    have "?r / ?n \<le> ?r" using n r(2) by (simp add: divide_le_eq mult_le_cancel_left1)
    then have "?r / ?n \<le> of_int (2 ^ 53)" using r_le by simp
    then have "fdiv ?r ?n \<le> of_int (2 ^ 53)" unfolding fdiv_def by (rule fl_le_int) simp
    moreover have "0 \<le> fdiv ?r ?n" unfolding fdiv_def by (rule fl_nonneg) (use n r(2) in simp)
    ultimately show ?thesis using False r(1) by (simp add: quota_share_def)
  qed
  then show "0 \<le> quota_share remaining active c" "quota_share remaining active c \<le> 2 ^ 53" by auto
qed

subsection \<open>The invariant of the distribution\<close>

definition quota_sum :: "quotas \<Rightarrow> candidate list \<Rightarrow> int" where
  "quota_sum q items = sum_list (map (\<lambda>c. q (c_id c)) items)"

definition quota_items :: "quota_bounds \<Rightarrow> candidate list \<Rightarrow> bool" where
  "quota_items bounds items \<longleftrightarrow>
     distinct (map c_id items) \<and>
     (\<forall>c \<in> set items. snd (bounds c) \<le> max_int64 \<and> 0 \<le> c_weight c \<and> representable (c_weight c))"

text \<open>What is handed out and what is left add up to the capacity, and no quota leaves its bounds.\<close>

definition quota_inv :: "quota_bounds \<Rightarrow> candidate list \<Rightarrow> (candidate \<Rightarrow> int64) \<Rightarrow> int \<Rightarrow> quotas \<times> int64 \<Rightarrow> bool" where
  "quota_inv bounds items low whole st \<longleftrightarrow>
     (\<forall>c \<in> set items. 0 \<le> low c \<and> low c \<le> fst st (c_id c) \<and> fst st (c_id c) \<le> snd (bounds c)) \<and>
     0 \<le> snd st \<and> quota_sum (fst st) items + snd st = whole"

lemma quota_sum_update:
  assumes "distinct (map c_id items)" "c \<in> set items"
  shows "quota_sum (q(c_id c := v)) items = quota_sum q items - q (c_id c) + v"
  using assms
proof (induction items)
  case Nil
  then show ?case by simp
next
  case (Cons d items)
  show ?case
  proof (cases "c_id d = c_id c")
    case True
    have "c_id e \<noteq> c_id c" if "e \<in> set items" for e
      using Cons.prems(1) that True by (simp add: image_iff) metis
    then have "map (\<lambda>e. (q(c_id c := v)) (c_id e)) items = map (\<lambda>e. q (c_id e)) items" by simp
    then have "quota_sum (q(c_id c := v)) items = quota_sum q items" unfolding quota_sum_def by (rule arg_cong)
    then show ?thesis using True by (simp add: quota_sum_def)
  next
    case False
    then have "c \<in> set items" using Cons.prems(2) by auto
    then show ?thesis using Cons False by (simp add: quota_sum_def)
  qed
qed

lemma quota_inv_hand_out:
  assumes "quota_items bounds items" "quota_inv bounds items low whole (q, capacity)" "c \<in> set items"
    and "0 \<le> v" "v \<le> snd (bounds c) - q (c_id c)" "v \<le> capacity" "capacity \<le> max_int64"
  shows "quota_inv bounds items low whole (q(c_id c := i64 (q (c_id c) + v)), i64 (capacity - v))"
    "i64 (q (c_id c) + v) = q (c_id c) + v" "i64 (capacity - v) = capacity - v"
proof -
  have c: "0 \<le> low c" "low c \<le> q (c_id c)" "snd (bounds c) \<le> max_int64"
    using assms(1-3) unfolding quota_inv_def quota_items_def by auto
  show q: "i64 (q (c_id c) + v) = q (c_id c) + v" by (rule i64_id_nonneg) (use c assms(4,5) in linarith)+
  show cap: "i64 (capacity - v) = capacity - v" by (rule i64_id_nonneg) (use assms(4,6,7) in linarith)+
  have dist: "distinct (map c_id items)" using assms(1) unfolding quota_items_def by blast
  have same: "d = c" if "d \<in> set items" "c_id d = c_id c" for d
    using dist that assms(3) by (simp add: distinct_map inj_on_def)
  show "quota_inv bounds items low whole (q(c_id c := i64 (q (c_id c) + v)), i64 (capacity - v))"
    unfolding quota_inv_def q cap fst_conv snd_conv quota_sum_update [OF dist assms(3)]
  proof (intro conjI ballI)
    fix d assume d: "d \<in> set items"
    then have inv: "0 \<le> low d" "low d \<le> q (c_id d)" "q (c_id d) \<le> snd (bounds d)"
      using assms(2) unfolding quota_inv_def by auto
    then show "0 \<le> low d" by blast
    show "low d \<le> (q(c_id c := q (c_id c) + v)) (c_id d)" using inv(2) assms(4) same [OF d] by (cases "c_id d = c_id c") auto
    show "(q(c_id c := q (c_id c) + v)) (c_id d) \<le> snd (bounds d)"
      using inv(3) assms(5) same [OF d] by (cases "c_id d = c_id c") auto
  qed (use assms(2,6) in \<open>simp_all add: quota_inv_def\<close>)
qed

lemma spread_shares_inv:
  assumes "quota_items bounds items" "quota_inv bounds items low whole (q, capacity)" "set cs \<subseteq> set items"
    and "\<And>c. c \<in> set cs \<Longrightarrow> 0 \<le> share c \<and> share c \<le> 2 ^ 53" "capacity \<le> max_int64"
    and "spread_shares bounds share cs (q, capacity) = (q', capacity')"
  shows "quota_inv bounds items low whole (q', capacity') \<and> capacity' \<le> capacity \<and> (capacity' = capacity \<longrightarrow> q' = q)"
  using assms(2-6)
proof (induction cs arbitrary: q capacity)
  case Nil
  then show ?case by simp
next
  case (Cons c cs)
  have c: "c \<in> set items" using Cons.prems(2) by simp
  have bounds: "0 \<le> low c" "low c \<le> q (c_id c)" "q (c_id c) \<le> snd (bounds c)" "snd (bounds c) \<le> max_int64" "0 \<le> capacity"
    using Cons.prems(1) assms(1) c unfolding quota_inv_def quota_items_def by auto
  have range: "0 \<le> share c" "share c \<le> of_int (2 ^ 53)" using Cons.prems(3) [of c] by simp_all
  have floor: "0 \<le> \<lfloor>share c\<rfloor>" "\<lfloor>share c\<rfloor> \<le> 2 ^ 53"
    using range(1) floor_mono [OF range(2)] by (simp_all only: zero_le_floor floor_of_int)
  then have "in_int64 \<lfloor>share c\<rfloor>" by (simp add: int64_bounds)
  then have share: "int_of_float (of_int \<lfloor>share c\<rfloor>) = \<lfloor>share c\<rfloor>" using floor(1) by (simp add: int_of_float_def math_trunc_def)
  have room: "i64 (snd (bounds c) - q (c_id c)) = snd (bounds c) - q (c_id c)"
    by (rule i64_id_nonneg) (use bounds in linarith)+
  define v where "v = min (min \<lfloor>share c\<rfloor> (snd (bounds c) - q (c_id c))) capacity"
  have v: "0 \<le> v" "v \<le> snd (bounds c) - q (c_id c)" "v \<le> capacity" using floor bounds by (auto simp: v_def)
  note out = quota_inv_hand_out [OF assms(1) Cons.prems(1) c v Cons.prems(4)]
  have run: "spread_shares bounds share cs (q(c_id c := i64 (q (c_id c) + v)), i64 (capacity - v)) = (q', capacity')"
    using Cons.prems(5) by (simp add: share room Let_def v_def)
  have small: "i64 (capacity - v) \<le> max_int64" using out(3) v(1) Cons.prems(4) by linarith
  have sub: "set cs \<subseteq> set items" using Cons.prems(2) by simp
  have shares: "0 \<le> share c \<and> share c \<le> 2 ^ 53" if "c \<in> set cs" for c using Cons.prems(3) that by simp
  have IH: "quota_inv bounds items low whole (q', capacity')" "capacity' \<le> capacity - v"
    "capacity' = capacity - v \<longrightarrow> q' = q(c_id c := q (c_id c) + v)"
    using Cons.IH [OF out(1) sub shares small run] unfolding out(2,3) by blast+
  show ?case
  proof (intro conjI impI)
    show "quota_inv bounds items low whole (q', capacity')" by (rule IH(1))
    show "capacity' \<le> capacity" using IH(2) v(1) by linarith
    assume "capacity' = capacity"
    then have "v = 0" "capacity' = capacity - v" using IH(2) v(1) by linarith+
    then show "q' = q" using IH(3) by simp
  qed
qed

lemma spread_units_inv:
  assumes "quota_items bounds items" "quota_inv bounds items low whole (q, capacity)" "set cs \<subseteq> set items"
    and "capacity \<le> max_int64" "spread_units bounds cs (q, capacity) = (q', capacity')"
  shows "quota_inv bounds items low whole (q', capacity') \<and> capacity' \<le> capacity \<and>
    (0 < capacity \<and> (\<exists>c \<in> set cs. q (c_id c) < snd (bounds c)) \<longrightarrow> capacity' < capacity)"
  using assms(2-5)
proof (induction cs arbitrary: q capacity)
  case Nil
  then show ?case by simp
next
  case (Cons c cs)
  consider "capacity = 0" | "capacity \<noteq> 0" "q (c_id c) < snd (bounds c)" | "capacity \<noteq> 0" "\<not> q (c_id c) < snd (bounds c)"
    by blast
  then show ?case
  proof cases
    case 1
    then show ?thesis using Cons.prems by auto
  next
    case 2
    have pos: "0 < capacity" using Cons.prems(1) 2(1) unfolding quota_inv_def by simp
    have c: "c \<in> set items" "1 \<le> snd (bounds c) - q (c_id c)" "1 \<le> capacity" using Cons.prems(2) 2(2) pos by auto
    note out = quota_inv_hand_out [OF assms(1) Cons.prems(1) c(1) zero_le_one c(2,3) Cons.prems(3)]
    have run: "spread_units bounds cs (q(c_id c := i64 (q (c_id c) + 1)), i64 (capacity - 1)) = (q', capacity')"
      using Cons.prems(4) 2 by simp
    have le: "i64 (capacity - 1) \<le> max_int64" using out(3) Cons.prems(3) by linarith
    have "set cs \<subseteq> set items" using Cons.prems(2) by simp
    then show ?thesis using Cons.IH [OF out(1) _ le run] out(3) by auto
  next
    case 3
    then show ?thesis using Cons.IH [of q capacity] Cons.prems by auto
  qed
qed

lemma quota_round_inv:
  assumes "quota_items bounds items" "quota_inv bounds items low whole st" "0 < snd st" "snd st \<le> 2 ^ 53"
    and "quota_active bounds items (fst st) \<noteq> []"
  shows "quota_inv bounds items low whole (quota_round bounds (quota_active bounds items (fst st)) st) \<and>
    snd (quota_round bounds (quota_active bounds items (fst st)) st) < snd st"
proof -
  obtain q capacity where st: "st = (q, capacity)" by (metis surj_pair)
  let ?active = "quota_active bounds items q" and ?share = "quota_share capacity (quota_active bounds items q)"
  let ?order = "sort_by (\<lambda>l r. share_remainder ?share l > share_remainder ?share r) ?active"
  have sub: "set ?active \<subseteq> set items" by (auto simp: quota_active_def)
  have cap: "0 < capacity" "capacity \<le> 2 ^ 53" "capacity \<le> max_int64" using assms(3,4) st by (auto simp: max_int64_def)
  have weights: "0 \<le> c_weight c \<and> representable (c_weight c)" if "c \<in> set ?active" for c
    using assms(1) sub that unfolding quota_items_def by blast
  have shares: "0 \<le> ?share c \<and> ?share c \<le> 2 ^ 53" if "c \<in> set ?active" for c
    using quota_share_bounds [OF weights that, of capacity] cap by simp
  obtain q1 cap1 where one: "spread_shares bounds ?share ?active (q, capacity) = (q1, cap1)" by (metis surj_pair)
  obtain q2 cap2 where two: "spread_units bounds ?order (q1, cap1) = (q2, cap2)" by (metis surj_pair)
  have A: "quota_inv bounds items low whole (q1, cap1)" "cap1 \<le> capacity" "cap1 = capacity \<longrightarrow> q1 = q"
    using spread_shares_inv [OF assms(1) _ sub shares cap(3) one] assms(2) st by auto
  have sub': "set ?order \<subseteq> set items" "cap1 \<le> max_int64" using sub A(2) cap(3) by auto
  note B = spread_units_inv [OF assms(1) A(1) sub' two]
  have "cap2 < capacity"
  proof (cases "cap1 = capacity")
    case True
    have "\<exists>c \<in> set ?active. q (c_id c) < snd (bounds c)"
      using assms(5) st by (cases ?active) (auto simp: quota_active_def filter_eq_Cons_iff)
    then show ?thesis using B True A(3) cap(1) by auto
  next
    case False
    then show ?thesis using A(2) B by auto
  qed
  moreover have "quota_round bounds (quota_active bounds items (fst st)) st = (q2, cap2)"
    by (simp add: quota_round_def st one two Let_def)
  ultimately show ?thesis using B st by simp
qed

lemma quota_rounds_return:
  assumes "quota_items bounds items" "quota_inv bounds items low whole st" "snd st \<le> 2 ^ 53"
  shows "\<exists>st'. quota_rounds bounds items st = Some st' \<and> quota_inv bounds items low whole st' \<and>
    (snd st' = 0 \<or> quota_active bounds items (fst st') = [])"
  using assms(2,3)
proof (induction "nat (snd st)" arbitrary: st rule: less_induct)
  case less
  let ?active = "quota_active bounds items (fst st)"
  have nonneg: "0 \<le> snd st" using less.prems(1) by (simp add: quota_inv_def)
  consider "snd st = 0" | "0 < snd st" "?active = []" | "0 < snd st" "?active \<noteq> []" using nonneg by linarith
  then show ?case
  proof cases
    case 3
    let ?st1 = "quota_round bounds ?active st"
    have more: "quota_inv bounds items low whole ?st1" "snd ?st1 < snd st"
      using quota_round_inv [OF assms(1) less.prems(1) 3(1) less.prems(2) 3(2)] by auto
    have "quota_rounds bounds items st = quota_rounds bounds items ?st1"
      by (subst quota_rounds.simps) (use 3 in simp)
    moreover have "nat (snd ?st1) < nat (snd st)" "snd ?st1 \<le> 2 ^ 53" using more(2) 3(1) less.prems(2) by auto
    ultimately show ?thesis using less.hyps [OF _ more(1)] by simp
  qed (use less.prems in \<open>subst quota_rounds.simps, simp\<close>)+
qed

subsection \<open>The quotas\<close>

lemma start_quotas_step:
  assumes "distinct (map c_id items)" "\<And>c. c \<in> set items \<Longrightarrow> 0 \<le> minimum c"
    and "sum_list (map minimum items) \<le> capacity" "capacity \<le> max_int64"
    and "fold (start_quota minimum) items (q, capacity) = (q', capacity')"
  shows "(\<forall>c \<in> set items. q' (c_id c) = minimum c) \<and> (\<forall>a. a \<notin> c_id ` set items \<longrightarrow> q' a = q a) \<and>
    capacity' = capacity - sum_list (map minimum items)"
  using assms
proof (induction items arbitrary: q capacity)
  case Nil
  then show ?case by simp
next
  case (Cons c items)
  have rest: "0 \<le> sum_list (map minimum items)" by (rule sum_list_nonneg) (use Cons.prems(2) in auto)
  have c: "0 \<le> minimum c" "sum_list (map minimum items) \<le> capacity - minimum c" "capacity - minimum c \<le> max_int64"
    using Cons.prems(2-4) by (auto intro: order_trans [of _ "capacity"])
  have cap: "i64 (capacity - minimum c) = capacity - minimum c" by (rule i64_id_nonneg) (use rest c in linarith)+
  have "start_quota minimum c (q, capacity) = (q(c_id c := minimum c), capacity - minimum c)"
    by (simp add: start_quota_def cap)
  then have run: "fold (start_quota minimum) items (q(c_id c := minimum c), capacity - minimum c) = (q', capacity')"
    using Cons.prems(5) by simp
  have IH: "\<forall>d \<in> set items. q' (c_id d) = minimum d" "\<forall>a. a \<notin> c_id ` set items \<longrightarrow> q' a = (q(c_id c := minimum c)) a"
    "capacity' = capacity - minimum c - sum_list (map minimum items)"
    using Cons.IH [OF _ _ c(2,3) run] Cons.prems(1,2) by simp_all
  have "c_id c \<notin> c_id ` set items" using Cons.prems(1) by simp
  then show ?case using IH by simp
qed

definition sum_minimum :: "quota_bounds \<Rightarrow> candidate list \<Rightarrow> int" where
  "sum_minimum bounds items = sum_list (map (\<lambda>c. fst (bounds c)) items)"

definition sum_maximum :: "quota_bounds \<Rightarrow> candidate list \<Rightarrow> int" where
  "sum_maximum bounds items = sum_list (map (\<lambda>c. snd (bounds c)) items)"

text \<open>What the callers pass: one entry per account, bounds that are positive and ordered, and no more accounts
  than capacity; what can be spent is an integer a \<open>float64\<close> holds exactly.\<close>

definition quota_input :: "candidate list \<Rightarrow> int64 \<Rightarrow> quota_bounds \<Rightarrow> bool" where
  "quota_input items capacity bounds \<longleftrightarrow>
     quota_items bounds items \<and> list_all (\<lambda>c. 1 \<le> fst (bounds c) \<and> fst (bounds c) \<le> snd (bounds c)) items \<and>
     int (length items) \<le> capacity \<and> capacity \<le> max_int64 \<and> min capacity (sum_maximum bounds items) \<le> 2 ^ 53"

lemma quota_distribution:
  assumes "quota_input items capacity bounds" and "whole = min capacity (sum_maximum bounds items)"
  shows "\<exists>q. bounded_concurrency_quotas items capacity bounds = Some q \<and> quota_sum q items = whole \<and>
    list_all (\<lambda>c. (if sum_minimum bounds items \<le> whole then fst (bounds c) else 1) \<le> q (c_id c) \<and>
      q (c_id c) \<le> snd (bounds c)) items"
proof -
  have items: "quota_items bounds items" and cap: "int (length items) \<le> capacity" "capacity \<le> max_int64" "min capacity (sum_maximum bounds items) \<le> 2 ^ 53"
    and range: "\<And>c. c \<in> set items \<Longrightarrow> 1 \<le> fst (bounds c) \<and> fst (bounds c) \<le> snd (bounds c) \<and> snd (bounds c) \<le> max_int64"
    using assms(1) by (auto simp: quota_input_def quota_items_def list_all_iff)
  have small: "capacity \<le> max_int64" "0 \<le> capacity" using cap by auto
  have lens: "int (length items) \<le> sum_maximum bounds items"
    using sum_list_map_le [of items "\<lambda>_. 1" "\<lambda>c. snd (bounds c)"] range sum_list_map_const [of 1 items]
    by (fastforce simp: sum_maximum_def)
  have mins: "0 \<le> sum_minimum bounds items" unfolding sum_minimum_def by (rule sum_list_nonneg) (use range in fastforce)
  let ?limited = "total_capacity (\<lambda>c. fst (bounds c)) items > whole"
  let ?minimum = "\<lambda>c. if ?limited then 1 else fst (bounds c)"
  have cap_max: "min capacity (total_capacity (\<lambda>c. snd (bounds c)) items) = whole"
    using total_capacity_eq [of items "\<lambda>c. snd (bounds c)"] range small assms(2) by (fastforce simp: sum_maximum_def)
  have whole: "int (length items) \<le> whole" "whole \<le> max_int64" "whole < max_int64" "whole \<le> 2 ^ 53" "whole \<le> sum_maximum bounds items"
    using assms(2) cap lens by (auto simp: max_int64_def)
  have "total_capacity (\<lambda>c. fst (bounds c)) items = min max_int64 (sum_minimum bounds items)"
    using total_capacity_eq [of items "\<lambda>c. fst (bounds c)"] range by (fastforce simp: sum_minimum_def)
  then have limited: "?limited \<longleftrightarrow> \<not> sum_minimum bounds items \<le> whole" using whole(3) by auto
  have fits: "sum_list (map ?minimum items) \<le> whole"
    using limited whole(1) sum_list_map_const [of 1 items] by (auto simp: sum_minimum_def)
  obtain q0 c0 where start: "start_quotas ?minimum items whole = (q0, c0)" by (metis surj_pair)
  have dist: "distinct (map c_id items)" using items by (simp add: quota_items_def)
  have first: "\<forall>c \<in> set items. q0 (c_id c) = ?minimum c" "c0 = whole - sum_list (map ?minimum items)"
    using start_quotas_step [OF dist _ fits whole(2) start [unfolded start_quotas_def]] range by fastforce+
  have low: "0 \<le> ?minimum c \<and> ?minimum c \<le> snd (bounds c)" if "c \<in> set items" for c
    using range [OF that] by (auto intro: order_trans)
  have "map (\<lambda>c. q0 (c_id c)) items = map ?minimum items" using first(1) by simp
  then have sum: "quota_sum q0 items = sum_list (map ?minimum items)" by (simp only: quota_sum_def)
  have inv: "quota_inv bounds items ?minimum whole (q0, c0)"
    unfolding quota_inv_def fst_conv snd_conv sum using first fits low by simp
  have "c0 \<le> 2 ^ 53"
    using first(2) whole(4) sum_list_nonneg [of "map ?minimum items"] range by fastforce
  then obtain q c1 where run: "quota_rounds bounds items (q0, c0) = Some (q, c1)"
    and inv': "quota_inv bounds items ?minimum whole (q, c1)" and "c1 = 0 \<or> quota_active bounds items q = []"
    using quota_rounds_return [OF items inv] by auto
  moreover have "c1 = 0" if full: "quota_active bounds items q = []"
  proof -
    have "sum_maximum bounds items \<le> quota_sum q items"
      unfolding sum_maximum_def quota_sum_def using full by (intro sum_list_map_le) (auto simp: quota_active_def filter_empty_conv)
    then show ?thesis using inv' whole(5) by (simp add: quota_inv_def)
  qed
  ultimately have "c1 = 0" by blast
  moreover have "bounded_concurrency_quotas items capacity bounds = Some q"
    by (simp add: bounded_concurrency_quotas_def cap_max start run Let_def)
  ultimately show ?thesis using inv' limited by (auto simp: quota_inv_def list_all_iff)
qed

text \<open>C33: the distribution of a capacity returns and is exact. The loop, which has no counter, ends; every
  account gets a quota between its bounds (or between one and its maximum, where the minima do not
  fit); and the quotas add up to the whole capacity, or to the sum of the maxima if that is less.\<close>

theorem quotas_exact:
  assumes "quota_input items capacity bounds" and "whole = min capacity (sum_maximum bounds items)"
  shows "\<exists>q. bounded_concurrency_quotas items capacity bounds = Some q \<and> quota_sum q items = whole \<and>
    list_all (\<lambda>c. (if sum_minimum bounds items \<le> whole then fst (bounds c) else 1) \<le> q (c_id c) \<and>
      q (c_id c) \<le> snd (bounds c)) items"
  by (rule quota_distribution [OF assms])

definition sample_pool :: "candidate list" where
  "sample_pool = [(plain_candidate (plain_account ''1'' ''g''))\<lparr>c_weight := 3\<rparr>, (plain_candidate (plain_account ''2'' ''g''))\<lparr>c_weight := 1\<rparr>]"

theorem quotas_exact_witness:
  "\<exists>q. bounded_concurrency_quotas sample_pool 7 (\<lambda>_. (1, 5)) = Some q \<and> quota_sum q sample_pool = 7 \<and>
    list_all (\<lambda>c. 1 \<le> q (c_id c) \<and> q (c_id c) \<le> 5) sample_pool"
proof -
  have "quota_input sample_pool 7 (\<lambda>_. (1, 5))"
    using representable_int [of 3] representable_int [of 1]
    by (simp add: quota_input_def quota_items_def sample_pool_def plain_candidate_def plain_account_def max_int64_def)
  from quotas_exact [OF this refl] show ?thesis by (simp add: sum_maximum_def sum_minimum_def sample_pool_def)
qed

end
