(* ===== verification/Placement.thy ===== *)
theory Placement
  imports Evidence Sample_Round
begin

text \<open>
  The placement of accounts: the weights of a group (routing/service.go, \<open>calculateGroupWeights\<close>), the
  stable order accounts are placed in and the priorities they get (routing/stable_placement.go), with
  the comparison of latencies of routing/probe_performance.go and the price score of
  routing/price_scoring.go.

  \<open>math.Pow\<close>, \<open>math.Log\<close> and \<open>math.Exp\<close> are parameters. The comparison of two accounts reads their
  memberships through \<open>memberships\<close>, which answers the empty list for an account with one.
\<close>

subsection \<open>Price and speed\<close>

record strategy_inputs =
  si_rate :: "rat option"
  si_latency_seconds :: rat

text \<open>\<open>new(big.Float).SetPrec(64).SetRat\<close>: 64 bits, ties to even, no bound on the exponent.\<close>

definition big_float64 :: "rat \<Rightarrow> rat" where
  "big_float64 x = (let q = pow2 (flog2 x - 63) in of_int (round_even (x / q)) * q)"

definition ln2 :: rat where
  "ln2 = fl (693147180559945309417232121458176568 / 10 ^ 36)"

definition relative_price_score :: "go_env \<Rightarrow> rat \<Rightarrow> rat option \<Rightarrow> rat \<Rightarrow> rat" where
  "relative_price_score env rate best exponent =
     (if rate = 0 then 1
      else (case best of
              None \<Rightarrow> 0
            | Some b \<Rightarrow>
                if b = 0 then 0
                else
                  let value = big_float64 (b / rate);
                      scale = flog2 value + 1;
                      fraction = fl (value / pow2 scale);
                      log_ratio = fadd (ge_log env fraction) (fmul (fl (of_int scale)) ln2)
                  in ge_exp env (fmul (min 0 log_ratio) exponent)))"

definition candidate_strategy_inputs :: "candidate \<Rightarrow> strategy_inputs" where
  "candidate_strategy_inputs c =
     (let rate = (case c_rate c of Some r \<Rightarrow> if r < 0 then 1 else r | None \<Rightarrow> 1);
          seconds = (\<lambda>ms. max (fdiv ms 1000) (fl (5 / 100)));
          latency =
            (if c_ranking_latency_ms c > 0 then seconds (c_ranking_latency_ms c)
             else (case h_p95_ms (c_health c) of
                     Some p95 \<Rightarrow>
                       if p95 > 0 then seconds p95
                       else (case h_p50_ms (c_health c) of Some p50 \<Rightarrow> if p50 > 0 then seconds p50 else 1 | None \<Rightarrow> 1)
                   | None \<Rightarrow>
                       (case h_p50_ms (c_health c) of Some p50 \<Rightarrow> if p50 > 0 then seconds p50 else 1 | None \<Rightarrow> 1)))
      in \<lparr>si_rate = Some rate, si_latency_seconds = latency\<rparr>)"

definition better_inputs :: "candidate \<Rightarrow> strategy_inputs \<Rightarrow> strategy_inputs" where
  "better_inputs c best =
     (let inputs = candidate_strategy_inputs c;
          best = (case (si_rate best, si_rate inputs) of
                    (Some b, Some r) \<Rightarrow> if r < b then best\<lparr>si_rate := Some r\<rparr> else best
                  | _ \<Rightarrow> best\<lparr>si_rate := si_rate inputs\<rparr>)
      in if si_latency_seconds best = 0 \<or> si_latency_seconds inputs < si_latency_seconds best
         then best\<lparr>si_latency_seconds := si_latency_seconds inputs\<rparr> else best)"

definition strategy_score_benchmark :: "candidate list \<Rightarrow> strategy_inputs" where
  "strategy_score_benchmark items = fold better_inputs items \<lparr>si_rate = None, si_latency_seconds = 0\<rparr>"

definition primary_strategy_ratio :: rat where "primary_strategy_ratio = fl (80 / 100)"
definition secondary_strategy_ratio :: rat where "secondary_strategy_ratio = fl (20 / 100)"

definition strategy_quality :: "go_env \<Rightarrow> candidate \<Rightarrow> engine_config \<Rightarrow> strategy_inputs \<Rightarrow> rat" where
  "strategy_quality env c config benchmark =
     (let inputs = candidate_strategy_inputs c;
          price = relative_price_score env (the (si_rate inputs)) (si_rate benchmark) (ec_price_exp config);
          speed = ge_pow env (min 1 (fdiv (si_latency_seconds benchmark) (si_latency_seconds inputs))) (ec_speed_exp config);
          health = min 100 (max 0 (c_routing_health c));
          survivor = (c_state c = ''survivor'')
      in if health \<le> ec_gate_floor config \<and> \<not> survivor then 0
         else
           let gate = (if ec_gate_floor config < 100
                       then max 0 (fdiv (fsub health (ec_gate_floor config)) (fsub 100 (ec_gate_floor config))) else 1);
               gate = (if survivor then max (fl (1 / 100)) gate else gate);
               stability = fdiv health 100;
               quality =
                 (if c_strategy c = ''price_first''
                  then fmul (fadd (fmul price primary_strategy_ratio) (fmul speed secondary_strategy_ratio)) gate
                  else if c_strategy c = ''speed_first''
                  then fmul (fadd (fmul price secondary_strategy_ratio) (fmul speed primary_strategy_ratio)) gate
                  else if c_strategy c = ''reliability''
                  then fmul (fadd (fadd (fmul price (fl (10 / 100))) (fmul speed (fl (15 / 100)))) (fmul stability (fl (75 / 100)))) gate
                  else fmul (fadd (fmul price (ec_balanced_price_ratio config))
                              (fmul speed (fsub 1 (ec_balanced_price_ratio config)))) gate)
           in if account_cost_wall_enabled config (c_id c) \<and> cost_wall_reached (c_cost_tier c) \<and> \<not> survivor then 0
              else max 0 quality)"

subsection \<open>The weights of a group\<close>

definition candidate_performance_evidence :: "candidate \<Rightarrow> rat option \<times> int" where
  "candidate_performance_evidence c =
     (if c_performance_p95_ms c \<noteq> None then (c_performance_p95_ms c, c_performance_samples c)
      else if h_p95_ms (c_health c) \<noteq> None then (h_p95_ms (c_health c), max 1 (int (h_sample_count (c_health c))))
      else (None, 0))"

definition median_float64 :: "rat list \<Rightarrow> rat" where
  "median_float64 xs =
     (if xs = [] then 0
      else
        let ordered = sort xs; middle = length ordered div 2 in
        if length ordered mod 2 = 0 then fdiv (fadd (ordered ! (middle - 1)) (ordered ! middle)) 2 else ordered ! middle)"

text \<open>The latencies of a model, where the samples suffice, or all of them if they do for no model.\<close>

definition model_values :: "candidate list \<Rightarrow> int \<Rightarrow> string \<Rightarrow> rat list" where
  "model_values items minimum_samples model =
     (let known = (\<lambda>enough. List.map_filter
            (\<lambda>c. let (latency, samples) = candidate_performance_evidence c in
               if latency \<noteq> None \<and> (enough \<longrightarrow> samples \<ge> minimum_samples) then Some (c_performance_model c, the latency) else None) items);
          evidence = (if known True = [] then known False else known True)
      in map snd (filter (\<lambda>e. fst e = model) evidence))"

definition ranking_latency :: "candidate list \<Rightarrow> int \<Rightarrow> rat \<Rightarrow> candidate \<Rightarrow> rat" where
  "ranking_latency items minimum_samples advantage_cap c =
     (let (performance, samples) = candidate_performance_evidence c;
          baseline = median_float64 (model_values items minimum_samples (c_performance_model c));
          latency =
            (case performance of
               None \<Rightarrow> 1000
             | Some p \<Rightarrow>
                 if baseline > 0
                 then
                   let latency = fmul (fdiv p baseline) 1000 in
                   if samples < minimum_samples
                   then
                     let confidence = fdiv (fl (of_int samples)) (fl (of_int (max 1 minimum_samples)))
                     in fadd (fmul latency confidence) (fmul 1000 (fsub 1 confidence))
                   else latency
                 else 1000)
      in max (fdiv 1000 (max 1 advantage_cap)) latency)"

definition weight_eligible :: "candidate \<Rightarrow> bool" where
  "weight_eligible c \<longleftrightarrow>
     \<not> (\<not> c_schedulable c \<or> c_state c \<in> {''excluded'', ''paused'', ''disabled'', ''fused'', ''cost_blocked''})"

definition animation_quality_multiplier :: "candidate \<Rightarrow> rat" where
  "animation_quality_multiplier c = (if c_animation_evidence_applied c then c_animation_multiplier c else 1)"

definition weigh_group :: "go_env \<Rightarrow> engine_config \<Rightarrow> candidate list \<Rightarrow> candidate \<Rightarrow> candidate" where
  "weigh_group env config items c =
     (let eligible = filter weight_eligible items;
          ranked = (\<lambda>d. d\<lparr>c_ranking_latency_ms :=
            ranking_latency eligible (ec_performance_min_samples config) (ec_speed_advantage_cap config) d\<rparr>);
          benchmark = strategy_score_benchmark (map ranked eligible);
          quality = (\<lambda>d. fmul (strategy_quality env (ranked d) config benchmark) (animation_quality_multiplier d));
          quality_total = fold (\<lambda>d t. fadd t (quality d)) eligible 0;
          budget = fl (of_int (ec_weight_budget config));
          reset = c\<lparr>c_weight := 0, c_placement_config := Some (c_group c), c_placement_quality_scale := 0\<rparr>
      in if \<not> weight_eligible c then reset
         else if quality_total > 0
         then (ranked reset)\<lparr>c_quality := quality c, c_placement_quality_scale := fdiv budget quality_total,
                c_weight := fmul (quality c) (fdiv budget quality_total)\<rparr>
         else (ranked reset)\<lparr>c_quality := quality c, c_weight := fdiv budget (fl (of_int (int (length eligible))))\<rparr>)"

definition calculate_group_weights :: "go_env \<Rightarrow> configs \<Rightarrow> round \<Rightarrow> round" where
  "calculate_group_weights env configs cs =
     map (\<lambda>c. weigh_group env (configs (c_group c)) (group_members (c_group c) cs) c) cs"

subsection \<open>Comparing two accounts\<close>

definition placement_safety_tier :: "candidate \<Rightarrow> int" where
  "placement_safety_tier c =
     (if \<not> c_schedulable c \<or> \<not> placement_load_factor_eligible c then 3
      else if c_state c = ''survivor'' then 2
      else if c_state c = ''degraded'' \<and> \<not> c_evidence_pending c then 1
      else 0)"

definition placement_safety_improves :: "candidate \<Rightarrow> candidate \<Rightarrow> bool" where
  "placement_safety_improves challenger incumbent =
     (if placement_safety_tier challenger \<ge> placement_safety_tier incumbent then False
      else c_schedulable challenger \<and> \<not> c_evidence_pending challenger \<and> c_state challenger = ''healthy'' \<and>
           h_sample_count (c_health challenger) > 0)"

definition payload_text :: "gomap \<Rightarrow> string \<Rightarrow> string" where
  "payload_text payload key = (case map_of payload key of Some (GString s) \<Rightarrow> trim_space s | _ \<Rightarrow> [])"

definition capped_placement_latencies :: "rat \<Rightarrow> rat \<Rightarrow> rat \<Rightarrow> (rat \<times> rat) option" where
  "capped_placement_latencies a b cap =
     (if a \<le> 0 \<or> b \<le> 0 then None
      else
        let cap = max 1 cap; fastest = min a b
        in Some (min a (fmul fastest cap), min b (fmul fastest cap)))"

text \<open>None where the code answers 1000, 1000 and false.\<close>

definition comparable_placement_latencies :: "candidate \<Rightarrow> candidate \<Rightarrow> engine_config \<Rightarrow> (rat \<times> rat) option" where
  "comparable_placement_latencies challenger incumbent config =
     (let minimum = max 1 (ec_performance_min_samples config) in
      if c_performance_samples challenger \<ge> minimum \<and> c_performance_samples incumbent \<ge> minimum \<and>
         c_performance_model challenger \<noteq> [] \<and> c_performance_model challenger = c_performance_model incumbent \<and>
         c_performance_p95_ms challenger \<noteq> None \<and> c_performance_p95_ms incumbent \<noteq> None
      then capped_placement_latencies (the (c_performance_p95_ms challenger)) (the (c_performance_p95_ms incumbent))
             (ec_speed_advantage_cap config)
      else if \<not> ec_probe_performance_enabled config then None
      else
        let ratios = List.map_filter
              (\<lambda>(key, a). case map_of (c_probe_performance incumbent) key of
                 None \<Rightarrow> None
               | Some b \<Rightarrow> if ps_samples a < minimum \<or> ps_samples b < minimum then None
                           else Some (fdiv (ps_p95_ms a) (ps_p95_ms b))) (c_probe_performance challenger)
        in if ratios = [] then None
           else capped_placement_latencies (fmul (fold max ratios 0) 1000) 1000 (min 2 (ec_speed_advantage_cap config)))"

definition placement_membership_quality ::
  "go_env \<Rightarrow> configs \<Rightarrow> candidate \<Rightarrow> candidate \<Rightarrow> engine_config \<Rightarrow> strategy_inputs \<Rightarrow> rat" where
  "placement_membership_quality env configs evidence membership fallback benchmark =
     (let config = (case c_placement_config membership of Some g \<Rightarrow> configs g | None \<Rightarrow> fallback);
          comparison = membership\<lparr>c_rate := c_rate evidence, c_ranking_latency_ms := c_ranking_latency_ms evidence,
            c_strategy := ec_strategy config\<rparr>
      in fmul (strategy_quality env comparison config benchmark) (c_placement_quality_scale membership))"

definition placement_account_quality ::
  "go_env \<Rightarrow> configs \<Rightarrow> candidate list \<Rightarrow> candidate \<Rightarrow> engine_config \<Rightarrow> strategy_inputs \<Rightarrow> rat" where
  "placement_account_quality env configs memberships c fallback benchmark =
     (if memberships = [] then placement_membership_quality env configs c c fallback benchmark
      else fdiv (fold (\<lambda>m t. fadd t (placement_membership_quality env configs c m fallback benchmark)) memberships 0)
             (fl (of_int (int (length memberships)))))"

definition placement_pair_qualities ::
  "go_env \<Rightarrow> configs \<Rightarrow> (candidate \<Rightarrow> candidate list) \<Rightarrow> candidate \<Rightarrow> candidate \<Rightarrow> engine_config \<Rightarrow> rat \<times> rat" where
  "placement_pair_qualities env configs memberships challenger incumbent config =
     (let left = challenger\<lparr>c_strategy := ec_strategy config\<rparr>; right = incumbent\<lparr>c_strategy := ec_strategy config\<rparr>;
          (left, right) = (if \<not> c_rate_known left \<or> \<not> c_rate_known right
                           then (left\<lparr>c_rate := Some 1\<rparr>, right\<lparr>c_rate := Some 1\<rparr>) else (left, right));
          (l, r) = (case comparable_placement_latencies challenger incumbent config of Some lr \<Rightarrow> lr | None \<Rightarrow> (1000, 1000));
          left = left\<lparr>c_ranking_latency_ms := l\<rparr>; right = right\<lparr>c_ranking_latency_ms := r\<rparr>;
          benchmark = strategy_score_benchmark [left, right]
      in if memberships challenger = [] \<and> memberships incumbent = [] \<and> c_placement_config left = c_placement_config right
         then (strategy_quality env left config benchmark, strategy_quality env right config benchmark)
         else (placement_account_quality env configs (memberships challenger) left config benchmark,
               placement_account_quality env configs (memberships incumbent) right config benchmark))"

definition placement_can_cross ::
  "go_env \<Rightarrow> configs \<Rightarrow> (candidate \<Rightarrow> candidate list) \<Rightarrow> candidate \<Rightarrow> candidate \<Rightarrow> engine_config \<Rightarrow> bool" where
  "placement_can_cross env configs memberships challenger incumbent config =
     (if placement_safety_tier challenger \<noteq> placement_safety_tier incumbent
      then placement_safety_tier challenger < placement_safety_tier incumbent
      else (let (l, r) = placement_pair_qualities env configs memberships challenger incumbent config in l \<ge> r))"

definition placement_score_better ::
  "go_env \<Rightarrow> configs \<Rightarrow> (candidate \<Rightarrow> candidate list) \<Rightarrow> candidate \<Rightarrow> candidate \<Rightarrow> engine_config \<Rightarrow> bool" where
  "placement_score_better env configs memberships challenger incumbent config =
     (if placement_safety_tier challenger \<noteq> placement_safety_tier incumbent
      then placement_safety_tier challenger < placement_safety_tier incumbent
      else (let (l, r) = placement_pair_qualities env configs memberships challenger incumbent config in l > r))"

definition weight_advantage_exceeds :: "rat \<Rightarrow> rat \<Rightarrow> rat option \<Rightarrow> bool" where
  "weight_advantage_exceeds challenger incumbent threshold =
     (if challenger \<le> incumbent then False
      else (case threshold of
              None \<Rightarrow> True
            | Some t \<Rightarrow> (let base = max \<bar>challenger\<bar> \<bar>incumbent\<bar> in
                base > 0 \<and> fdiv (fsub challenger incumbent) base > fl t)))"

text \<open>The identity of a row among the evidence: its key, its request or its source, time and model.\<close>

datatype evidence_identity = By_Key string | By_Row string "gotime option" string

definition row_identity :: "routing_sample \<Rightarrow> string \<times> evidence_identity" where
  "row_identity row =
     (let request = payload_text (rs_payload row) ''request_id'' in
      (rs_source row,
       if rs_evidence_key row \<noteq> [] then By_Key (rs_evidence_key row)
       else if request \<noteq> [] then By_Key request
       else By_Row (rs_source row) (rs_observed_at row) (payload_text (rs_payload row) ''request_model'')))"

definition placement_evidence_ready :: "go_env \<Rightarrow> candidate \<Rightarrow> engine_config \<Rightarrow> bool" where
  "placement_evidence_ready env c config =
     (let minimum = max 1 (ec_performance_min_samples config);
          rows = filter (\<lambda>row. successful_routing_sample row \<and>
            (let cl = classify_row env (ec_sample_classification config) row in
             \<not> (cl_neutral cl \<or> cl_failure cl \<or> cl_fatal cl))) (c_rows c)
      in int (length (remdups (map row_identity rows))) \<ge> minimum \<or>
         (ec_probe_performance_enabled config \<and> list_ex (\<lambda>s. ps_samples (snd s) \<ge> minimum) (c_probe_performance c)))"

definition can_promote_placement ::
  "go_env \<Rightarrow> configs \<Rightarrow> (candidate \<Rightarrow> candidate list) \<Rightarrow> candidate \<Rightarrow> candidate \<Rightarrow> engine_config \<Rightarrow> bool" where
  "can_promote_placement env configs memberships challenger incumbent config =
     (if placement_safety_improves challenger incumbent then True
      else if \<not> c_schedulable challenger \<or> c_state challenger \<noteq> ''healthy'' \<or> c_evidence_pending challenger \<or>
              placement_safety_tier challenger > placement_safety_tier incumbent \<or>
              \<not> placement_evidence_ready env challenger config then False
      else (let (l, r) = placement_pair_qualities env configs memberships challenger incumbent config
            in weight_advantage_exceeds l r (ec_change_threshold config)))"

subsection \<open>The order of placement\<close>

definition positive_priority :: "int64 option \<Rightarrow> int64 option" where
  "positive_priority priority = (case priority of None \<Rightarrow> None | Some p \<Rightarrow> if p \<le> 0 then None else Some p)"

text \<open>The priority of an account among the automatic ones; the code answers it even where it is not one.\<close>

definition automatic_placement_priority :: "candidate \<Rightarrow> engine_config \<Rightarrow> int64 \<times> bool" where
  "automatic_placement_priority c config =
     (case positive_priority (acc_priority (c_account c)) of
        None \<Rightarrow> (0, False) | Some p \<Rightarrow> (p, p > ec_manual_priority_max config))"

definition placement_pair_config :: "engine_config \<Rightarrow> engine_config \<Rightarrow> engine_config" where
  "placement_pair_config challenger incumbent =
     (let config = incumbent\<lparr>ec_performance_min_samples :=
            max (ec_performance_min_samples incumbent) (ec_performance_min_samples challenger)\<rparr>
      in case ec_change_threshold challenger of
           None \<Rightarrow> config
         | Some t \<Rightarrow>
             (case ec_change_threshold incumbent of
                None \<Rightarrow> config\<lparr>ec_change_threshold := Some t\<rparr>
              | Some u \<Rightarrow> if t > u then config\<lparr>ec_change_threshold := Some t\<rparr> else config))"

definition placement_base_less :: "(candidate \<Rightarrow> engine_config) \<Rightarrow> bool \<Rightarrow> candidate \<Rightarrow> candidate \<Rightarrow> bool" where
  "placement_base_less configuration capacity l r =
     (if capacity \<and> remote_schedulable (c_account l) \<noteq> remote_schedulable (c_account r)
      then remote_schedulable (c_account l)
      else
        let (lp, lk) = automatic_placement_priority l (configuration l);
            (rp, rk) = automatic_placement_priority r (configuration r)
        in if lk \<noteq> rk then lk
           else if lk \<and> lp \<noteq> rp then lp < rp
           else stable_id_less (c_id l) (c_id r))"

text \<open>
  What a comparison of two accounts needs, bundled: whether the one may cross the other, may be promoted
  before it and scores better than it.
\<close>

record placement_rules =
  pr_cross :: "candidate \<Rightarrow> candidate \<Rightarrow> bool"
  pr_promote :: "candidate \<Rightarrow> candidate \<Rightarrow> bool"
  pr_better :: "candidate \<Rightarrow> candidate \<Rightarrow> engine_config \<Rightarrow> bool"
  pr_config :: "candidate \<Rightarrow> candidate \<Rightarrow> engine_config"

definition rules_of :: "go_env \<Rightarrow> configs \<Rightarrow> (candidate \<Rightarrow> candidate list) \<Rightarrow> (candidate \<Rightarrow> engine_config) \<Rightarrow> placement_rules" where
  "rules_of env configs memberships configuration =
     (let pair = (\<lambda>c i. placement_pair_config (configuration c) (configuration i)) in
      \<lparr>pr_cross = (\<lambda>c i. placement_can_cross env configs memberships c i (pair c i)),
       pr_promote = (\<lambda>c i. can_promote_placement env configs memberships c i (pair c i)),
       pr_better = placement_score_better env configs memberships, pr_config = pair\<rparr>)"

text \<open>How many of the accounts before it an account may not cross.\<close>

type_synonym blockers = "string \<Rightarrow> int"

fun count_blockers :: "placement_rules \<Rightarrow> candidate list \<Rightarrow> candidate list \<Rightarrow> blockers \<Rightarrow> blockers" where
  "count_blockers rules before [] b = b"
| "count_blockers rules before (c # cs) b =
     count_blockers rules (before @ [c]) cs
       (fold (\<lambda>i b. if \<not> pr_cross rules c i then b(c_id c := b (c_id c) + 1) else b) before b)"

text \<open>The account promoted to the slot of an incumbent, by its position among the ones after it.\<close>

fun scan_promotion ::
  "placement_rules \<Rightarrow> blockers \<Rightarrow> candidate \<Rightarrow> nat \<Rightarrow> bool \<Rightarrow> (nat \<times> candidate) option \<Rightarrow> candidate list \<Rightarrow>
   (nat \<times> candidate) option" where
  "scan_promotion rules b incumbent k cooling best [] = best"
| "scan_promotion rules b incumbent k cooling best (c # cs) =
     (let cooling = cooling \<or> c_placement_cooldown c;
          next_best =
            (if b (c_id c) > 0 then best
             else if \<not> pr_promote rules c incumbent then best
             else if \<not> placement_safety_improves c incumbent \<and> cooling then best
             else (case best of
                     None \<Rightarrow> Some (k, c)
                   | Some (_, d) \<Rightarrow>
                       if placement_safety_improves c d \<or> pr_better rules c d (pr_config rules c incumbent)
                       then Some (k, c) else best))
      in scan_promotion rules b incumbent (Suc k) cooling next_best cs)"

definition release_blockers :: "placement_rules \<Rightarrow> candidate \<Rightarrow> candidate list \<Rightarrow> blockers \<Rightarrow> blockers" where
  "release_blockers rules chosen later b =
     fold (\<lambda>c b. if \<not> pr_cross rules c chosen then b(c_id c := b (c_id c) - 1) else b) later b"

text \<open>The slots from a position on; the first argument counts the slots left.\<close>

fun promote_slots :: "placement_rules \<Rightarrow> nat \<Rightarrow> blockers \<Rightarrow> candidate list \<Rightarrow> candidate list" where
  "promote_slots rules 0 b items = items"
| "promote_slots rules (Suc n) b [] = []"
| "promote_slots rules (Suc n) b (incumbent # rest) =
     (case scan_promotion rules b incumbent 0 (c_placement_cooldown incumbent) None rest of
        None \<Rightarrow> incumbent # promote_slots rules n (release_blockers rules incumbent rest b) rest
      | Some (k, chosen) \<Rightarrow>
          chosen # promote_slots rules n (release_blockers rules chosen (drop (Suc k) rest) b)
            (incumbent # take k rest @ drop (Suc k) rest))"

definition sort_placement_candidates ::
  "placement_rules \<Rightarrow> (candidate \<Rightarrow> engine_config) \<Rightarrow> bool \<Rightarrow> candidate list \<Rightarrow> candidate list" where
  "sort_placement_candidates rules configuration capacity items =
     (let items = sort_by (placement_base_less configuration capacity) items
      in promote_slots rules (length items) (count_blockers rules [] items (\<lambda>_. 0)) items)"

definition sort_owned_with_hysteresis ::
  "go_env \<Rightarrow> configs \<Rightarrow> (candidate \<Rightarrow> candidate list) \<Rightarrow> engine_config \<Rightarrow> candidate list \<Rightarrow> candidate list" where
  "sort_owned_with_hysteresis env configs memberships config items =
     sort_placement_candidates (rules_of env configs memberships (\<lambda>_. config)) (\<lambda>_. config) False items"

definition capacity_health_tier :: "candidate \<Rightarrow> int" where
  "capacity_health_tier c =
     (if c_state c = ''healthy'' \<and> h_sample_count (c_health c) > 0 \<and> \<not> c_evidence_pending c then 0
      else if c_state c = ''degraded'' \<or> c_state c = ''survivor'' then 2 else 1)"

definition sort_capacity_with_hysteresis ::
  "go_env \<Rightarrow> configs \<Rightarrow> (candidate \<Rightarrow> candidate list) \<Rightarrow> configs \<Rightarrow> candidate list \<Rightarrow> candidate list" where
  "sort_capacity_with_hysteresis env configs memberships allocation items =
     (let configuration = (\<lambda>c. allocation (c_group c)) in
      sort_by (\<lambda>l r. capacity_health_tier l < capacity_health_tier r)
        (sort_placement_candidates (rules_of env configs memberships configuration) configuration True items))"

definition prepare_placement_cooldowns :: "configs \<Rightarrow> (candidate \<Rightarrow> previous_decision option) \<Rightarrow> gotime \<Rightarrow> round \<Rightarrow> round" where
  "prepare_placement_cooldowns configs previous now cs =
     map (\<lambda>c. if map_option c_group (primary_membership (account_members (c_id c) cs)) = Some (c_group c)
              then c\<lparr>c_placement_cooldown :=
                (case previous c of
                   None \<Rightarrow> False
                 | Some p \<Rightarrow> pd_last_apply_at p \<noteq> zero_time \<and>
                     time_sub now (pd_last_apply_at p) < ec_cooldown (configs (c_group c)))\<rparr>
              else c) cs"

subsection \<open>Priorities\<close>

fun kept_slots :: "engine_config \<Rightarrow> candidate list \<Rightarrow> int64 list \<times> int64 \<Rightarrow> int64 list \<times> int64" where
  "kept_slots config [] st = st"
| "kept_slots config (c # cs) (slots, highest) =
     (let (priority, found) = automatic_placement_priority c config in
      if \<not> found \<or> priority \<in> set slots then kept_slots config cs (slots, highest)
      else kept_slots config cs (slots @ [priority], max highest priority))"

text \<open>The loop \<open>for len(slots) < len(items)\<close>; \<open>missing\<close> is the number of slots it still lacks.\<close>

partial_function (option) new_slots :: "int64 \<Rightarrow> nat \<Rightarrow> int64 list \<Rightarrow> int64 \<Rightarrow> int64 list option" where
  "new_slots manual_max missing slots highest =
     (if missing = 0 then Some slots
      else
        let highest = i64 ((if highest = max_int64 then manual_max else highest) + 1) in
        if highest \<in> set slots then new_slots manual_max missing slots highest
        else new_slots manual_max (missing - 1) (slots @ [highest]) highest)"

definition slot_penalty :: "engine_config \<Rightarrow> candidate \<Rightarrow> int64" where
  "slot_penalty config c =
     (if c_state c = ''degraded'' \<and> \<not> c_evidence_pending c
      then i64 (ec_degrade_priority_step config * max 1 (int (h_failure_streak (c_health c))))
      else if c_state c = ''survivor'' then ec_degrade_priority_step config else 0)"

definition slot_priority :: "engine_config \<Rightarrow> int64 \<Rightarrow> int64 \<Rightarrow> candidate \<Rightarrow> int64" where
  "slot_priority config last_priority slot c =
     (let priority = max slot (min last_priority (max_int64 - 1) + 1);
          penalty = slot_penalty config c;
          baseline = (case acc_baseline_priority (c_account c) of
                        Some b \<Rightarrow> max (i64 (ec_manual_priority_max config + 1)) b | None \<Rightarrow> slot);
          penalty' = (if acc_baseline_priority (c_account c) = None \<and>
                         (equal_fold (acc_effective_state (c_account c)) ''degraded'' \<or>
                          equal_fold (acc_effective_state (c_account c)) ''survivor'') then 0 else penalty)
      in if penalty > 0 then max priority (min baseline (max_int64 - penalty') + penalty') else priority)"

fun place_items :: "engine_config \<Rightarrow> int64 \<Rightarrow> nat \<Rightarrow> int64 list \<Rightarrow> candidate list \<Rightarrow> candidate list" where
  "place_items config last_priority k (slot # slots) (c # cs) =
     (let priority = slot_priority config last_priority slot c in
      c\<lparr>c_rank := Some (int (Suc k)), c_desired_priority := Some priority, c_placement_planned := True\<rparr>
        # place_items config priority (Suc k) slots cs)"
| "place_items config last_priority k slots cs = []"

definition assign_stable_priorities :: "engine_config \<Rightarrow> candidate list \<Rightarrow> candidate list option" where
  "assign_stable_priorities config items =
     (let (slots, highest) = kept_slots config items ([], ec_manual_priority_max config) in
      case new_slots (ec_manual_priority_max config) (length items - length slots) slots highest of
        None \<Rightarrow> None
      | Some slots \<Rightarrow> Some (place_items config (ec_manual_priority_max config) 0 (sort slots) items))"

subsection \<open>No account crosses a better one\<close>

text \<open>One element comes somewhere before another.\<close>

fun before_in :: "'a list \<Rightarrow> 'a \<Rightarrow> 'a \<Rightarrow> bool" where
  "before_in [] l r \<longleftrightarrow> False"
| "before_in (x # xs) l r \<longleftrightarrow> (x = l \<and> r \<in> set xs) \<or> before_in xs l r"

lemma before_in_mem: "before_in xs l r \<Longrightarrow> l \<in> set xs \<and> r \<in> set xs"
  by (induction xs) auto

lemma before_in_remove:
  "before_in (as @ x # bs) l r \<Longrightarrow> l \<noteq> x \<Longrightarrow> r \<noteq> x \<Longrightarrow> before_in (as @ bs) l r"
  by (induction as) auto

lemma before_in_last:
  assumes "before_in (as @ x # bs) l x" "distinct (as @ x # bs)"
  shows "l \<in> set as"
  using assms
proof (induction as)
  case Nil
  then show ?case using before_in_mem [of bs l x] by auto
next
  case (Cons a as)
  then show ?case by auto
qed

definition blockers_ok :: "placement_rules \<Rightarrow> blockers \<Rightarrow> candidate list \<Rightarrow> bool" where
  "blockers_ok rules b items \<longleftrightarrow>
     (\<forall>as c bs. items = as @ c # bs \<longrightarrow> b (c_id c) = int (length (filter (\<lambda>i. \<not> pr_cross rules c i) as)))"

lemma count_before:
  "fold (\<lambda>i b. if \<not> pr_cross rules c i then b(c_id c := b (c_id c) + 1) else b) before b =
   b(c_id c := b (c_id c) + int (length (filter (\<lambda>i. \<not> pr_cross rules c i) before)))"
  by (induction before arbitrary: b) (auto simp: fun_eq_iff)

lemma count_blockers_spec:
  assumes "distinct (map c_id items)"
  shows "(\<forall>a. a \<notin> c_id ` set items \<longrightarrow> count_blockers rules before items b a = b a) \<and>
    (\<forall>as c bs. items = as @ c # bs \<longrightarrow>
      count_blockers rules before items b (c_id c) = b (c_id c) + int (length (filter (\<lambda>i. \<not> pr_cross rules c i) (before @ as))))"
  using assms
proof (induction items arbitrary: before b)
  case Nil
  then show ?case by simp
next
  case (Cons d items)
  define b1 where "b1 = b(c_id d := b (c_id d) + int (length (filter (\<lambda>i. \<not> pr_cross rules d i) before)))"
  have b1: "b1 (c_id d) = b (c_id d) + int (length (filter (\<lambda>i. \<not> pr_cross rules d i) before))"
    "\<And>a. a \<noteq> c_id d \<Longrightarrow> b1 a = b a" by (simp_all add: b1_def)
  have run: "count_blockers rules before (d # items) b = count_blockers rules (before @ [d]) items b1"
    by (simp only: count_blockers.simps count_before b1_def)
  have fresh: "c_id d \<notin> c_id ` set items" "distinct (map c_id items)" using Cons.prems by simp_all
  have IH: "\<And>a. a \<notin> c_id ` set items \<Longrightarrow> count_blockers rules (before @ [d]) items b1 a = b1 a"
    "\<And>as c bs. items = as @ c # bs \<Longrightarrow> count_blockers rules (before @ [d]) items b1 (c_id c) =
       b1 (c_id c) + int (length (filter (\<lambda>i. \<not> pr_cross rules c i) ((before @ [d]) @ as)))"
    using Cons.IH [OF fresh(2), of "before @ [d]" b1] by blast+
  show ?case
  proof (intro conjI allI impI)
    fix a assume "a \<notin> c_id ` set (d # items)"
    then show "count_blockers rules before (d # items) b a = b a" unfolding run using IH(1) [of a] b1(2) [of a] by simp
  next
    fix as c bs assume split: "d # items = as @ c # bs"
    show "count_blockers rules before (d # items) b (c_id c) =
        b (c_id c) + int (length (filter (\<lambda>i. \<not> pr_cross rules c i) (before @ as)))"
    proof (cases as)
      case Nil
      then have "c = d" using split by simp
      then show ?thesis unfolding run using IH(1) [OF fresh(1)] b1(1) Nil by simp
    next
      case (Cons e es)
      then have es: "e = d" "items = es @ c # bs" using split by simp_all
      then have "c_id c \<noteq> c_id d" using fresh(1) by auto
      then show ?thesis unfolding run IH(2) [OF es(2)] using b1(2) [of "c_id c"] Cons es(1) by simp
    qed
  qed
qed

lemma count_blockers_ok: "distinct (map c_id items) \<Longrightarrow> blockers_ok rules (count_blockers rules [] items (\<lambda>_. 0)) items"
  using count_blockers_spec [of items rules "[]" "\<lambda>_. 0"] by (simp add: blockers_ok_def)

lemma release_blockers_spec:
  assumes "distinct (map c_id later)"
  shows "(\<forall>a. a \<notin> c_id ` set later \<longrightarrow> release_blockers rules chosen later b a = b a) \<and>
    (\<forall>c \<in> set later. release_blockers rules chosen later b (c_id c) = b (c_id c) - (if pr_cross rules c chosen then 0 else 1))"
  using assms
proof (induction later arbitrary: b)
  case Nil
  then show ?case by (simp add: release_blockers_def)
next
  case (Cons c later)
  define b1 where "b1 = (if \<not> pr_cross rules c chosen then b(c_id c := b (c_id c) - 1) else b)"
  have b1: "b1 (c_id c) = b (c_id c) - (if pr_cross rules c chosen then 0 else 1)" "\<And>a. a \<noteq> c_id c \<Longrightarrow> b1 a = b a"
    by (simp_all add: b1_def)
  have run: "release_blockers rules chosen (c # later) b = release_blockers rules chosen later b1"
    by (simp add: release_blockers_def b1_def)
  have fresh: "c_id c \<notin> c_id ` set later" "distinct (map c_id later)" using Cons.prems by simp_all
  have IH: "\<And>a. a \<notin> c_id ` set later \<Longrightarrow> release_blockers rules chosen later b1 a = b1 a"
    "\<And>d. d \<in> set later \<Longrightarrow>
       release_blockers rules chosen later b1 (c_id d) = b1 (c_id d) - (if pr_cross rules d chosen then 0 else 1)"
    using Cons.IH [OF fresh(2), of b1] by blast+
  show ?case
    unfolding run
  proof (intro conjI allI impI ballI)
    fix a assume "a \<notin> c_id ` set (c # later)"
    then show "release_blockers rules chosen later b1 a = b a" using IH(1) [of a] b1(2) [of a] by simp
  next
    fix d assume d: "d \<in> set (c # later)"
    show "release_blockers rules chosen later b1 (c_id d) = b (c_id d) - (if pr_cross rules d chosen then 0 else 1)"
    proof (cases "d = c")
      case True
      then show ?thesis using IH(1) [OF fresh(1)] b1(1) by simp
    next
      case False
      then have mem: "d \<in> set later" using d by simp
      have "c_id d \<noteq> c_id c" using fresh(1) mem by (metis imageI)
      then show ?thesis using IH(2) [OF mem] b1(2) [of "c_id d"] by simp
    qed
  qed
qed

lemma blockers_ok_remove:
  assumes "blockers_ok rules b (as @ chosen # bs)" "distinct (map c_id (as @ chosen # bs))"
  shows "blockers_ok rules (release_blockers rules chosen bs b) (as @ bs)"
  unfolding blockers_ok_def
proof (intro allI impI)
  fix us c vs assume "as @ bs = us @ c # vs"
  then consider x where "as = us @ c # x" "vs = x @ bs" | y where "us = as @ y" "bs = y @ c # vs"
    by (auto simp: append_eq_append_conv2 append_eq_Cons_conv)
  then show "release_blockers rules chosen bs b (c_id c) = int (length (filter (\<lambda>i. \<not> pr_cross rules c i) us))"
  proof cases
    case 1
    then have "c_id c \<notin> c_id ` set bs" using assms(2) by auto
    moreover have "b (c_id c) = int (length (filter (\<lambda>i. \<not> pr_cross rules c i) us))"
      using assms(1) 1 unfolding blockers_ok_def by auto
    ultimately show ?thesis using release_blockers_spec [of bs rules chosen b] assms(2) by simp
  next
    case 2
    then have "as @ chosen # bs = (as @ chosen # y) @ c # vs" by simp
    then have "b (c_id c) = int (length (filter (\<lambda>i. \<not> pr_cross rules c i) (as @ chosen # y)))"
      using assms(1) unfolding blockers_ok_def by blast
    moreover have "c \<in> set bs" using 2(2) by simp
    ultimately show ?thesis using release_blockers_spec [of bs rules chosen b] assms(2) 2(1) by simp
  qed
qed

lemma scan_promotion_sound:
  assumes "scan_promotion rules b incumbent k cooling best cs = Some (j, c)"
  shows "best = Some (j, c) \<or> (k \<le> j \<and> j < k + length cs \<and> c = cs ! (j - k) \<and> b (c_id c) \<le> 0)"
  using assms
proof (induction cs arbitrary: k cooling best)
  case Nil
  then show ?case by simp
next
  case (Cons d cs)
  obtain best' cooling' where run: "scan_promotion rules b incumbent (Suc k) cooling' best' cs = Some (j, c)"
    and best': "best' = best \<or> (best' = Some (k, d) \<and> b (c_id d) \<le> 0)"
  proof (rule that)
    show "scan_promotion rules b incumbent (Suc k) (cooling \<or> c_placement_cooldown d)
        (if b (c_id d) > 0 then best
             else if \<not> pr_promote rules d incumbent then best
             else if \<not> placement_safety_improves d incumbent \<and> (cooling \<or> c_placement_cooldown d) then best
             else (case best of
                     None \<Rightarrow> Some (k, d)
                   | Some (_, e) \<Rightarrow>
                       if placement_safety_improves d e \<or> pr_better rules d e (pr_config rules d incumbent)
                       then Some (k, d) else best)) cs = Some (j, c)"
      using Cons.prems by (simp only: scan_promotion.simps Let_def)
  qed (auto split: option.split)
  from Cons.IH [OF run] consider "best' = Some (j, c)"
    | "Suc k \<le> j \<and> j < Suc k + length cs \<and> c = cs ! (j - Suc k) \<and> b (c_id c) \<le> 0" by blast
  then show ?case
  proof cases
    case 1
    then show ?thesis using best' by auto
  next
    case 2
    then have "(d # cs) ! (j - k) = cs ! (j - Suc k)" by (simp add: nth_Cons')
    then show ?thesis using 2 by auto
  qed
qed

definition never_crosses :: "placement_rules \<Rightarrow> candidate list \<Rightarrow> candidate list \<Rightarrow> bool" where
  "never_crosses rules items out \<longleftrightarrow> (\<forall>l r. before_in items l r \<and> before_in out r l \<longrightarrow> pr_cross rules r l)"

lemma never_crosses_step:
  assumes "blockers_ok rules b (as @ chosen # bs)" "distinct (as @ chosen # bs)" "as \<noteq> [] \<longrightarrow> b (c_id chosen) \<le> 0"
    and "mset out = mset (as @ bs)" "never_crosses rules (as @ bs) out"
  shows "never_crosses rules (as @ chosen # bs) (chosen # out)"
  unfolding never_crosses_def
proof (intro allI impI)
  fix l r assume lr: "before_in (as @ chosen # bs) l r \<and> before_in (chosen # out) r l"
  have set_out: "set out = set (as @ bs)" using assms(4) by (metis set_mset_mset)
  show "pr_cross rules r l"
  proof (cases "r = chosen")
    case True
    then have l: "l \<in> set as" using lr before_in_last assms(2) by metis
    then have "b (c_id chosen) \<le> 0" using assms(3) by auto
    moreover have "b (c_id chosen) = int (length (filter (\<lambda>i. \<not> pr_cross rules chosen i) as))"
      using assms(1) unfolding blockers_ok_def by blast
    ultimately have "filter (\<lambda>i. \<not> pr_cross rules chosen i) as = []" by simp
    then show ?thesis using l True by (simp add: filter_empty_conv)
  next
    case False
    then have out: "before_in out r l" using lr by simp
    then have "l \<in> set out" using before_in_mem by metis
    then have "l \<noteq> chosen" using set_out assms(2) by auto
    then have "before_in (as @ bs) l r" using before_in_remove lr False by metis
    then show ?thesis using assms(5) out unfolding never_crosses_def by blast
  qed
qed

lemma promote_slots_spec:
  assumes "length items = n" "distinct (map c_id items)" "blockers_ok rules b items"
  shows "mset (promote_slots rules n b items) = mset items \<and> never_crosses rules items (promote_slots rules n b items)"
  using assms
proof (induction n arbitrary: b items)
  case 0
  then show ?case by (simp add: never_crosses_def)
next
  case (Suc n)
  obtain incumbent rest where items: "items = incumbent # rest" using Suc.prems(1) by (cases items) auto
  let ?scan = "scan_promotion rules b incumbent 0 (c_placement_cooldown incumbent) None rest"
  obtain as chosen bs where split: "items = as @ chosen # bs" "as \<noteq> [] \<longrightarrow> b (c_id chosen) \<le> 0"
    and run: "promote_slots rules (Suc n) b items = chosen # promote_slots rules n (release_blockers rules chosen bs b) (as @ bs)"
  proof (cases ?scan)
    case None
    then show ?thesis using that [of "[]" incumbent rest] items by simp
  next
    case (Some kc)
    obtain k c where kc: "?scan = Some (k, c)" using Some by (cases kc) auto
    then have k: "k < length rest" "c = rest ! k" "b (c_id c) \<le> 0" using scan_promotion_sound [OF kc] by auto
    then have "rest = take k rest @ c # drop (Suc k) rest" by (simp add: id_take_nth_drop)
    then show ?thesis using that [of "incumbent # take k rest" c "drop (Suc k) rest"] items kc k(3) by simp
  qed
  have dist: "distinct (map c_id (as @ chosen # bs))" using Suc.prems(2) split(1) by simp
  have ok: "blockers_ok rules (release_blockers rules chosen bs b) (as @ bs)"
    by (rule blockers_ok_remove [OF _ dist]) (use Suc.prems(3) split(1) in simp)
  have IH: "mset (promote_slots rules n (release_blockers rules chosen bs b) (as @ bs)) = mset (as @ bs)"
    "never_crosses rules (as @ bs) (promote_slots rules n (release_blockers rules chosen bs b) (as @ bs))"
    using Suc.IH [OF _ _ ok] Suc.prems(1) dist split(1) by auto
  have "distinct (as @ chosen # bs)" using dist unfolding distinct_map by blast
  then have "never_crosses rules (as @ chosen # bs) (chosen # promote_slots rules n (release_blockers rules chosen bs b) (as @ bs))"
    by (rule never_crosses_step [where b = b, rotated]) (use Suc.prems(3) split IH in auto)
  then show ?case using IH(1) unfolding run by (simp add: split(1))
qed

lemma sort_placement_spec:
  assumes "distinct (map c_id items)"
  shows "mset (sort_placement_candidates rules configuration capacity items) = mset items \<and>
    never_crosses rules (sort_by (placement_base_less configuration capacity) items)
      (sort_placement_candidates rules configuration capacity items)"
proof -
  let ?base = "sort_by (placement_base_less configuration capacity) items"
  have "mset (map c_id ?base) = mset (map c_id items)" by simp
  then have "distinct (map c_id ?base)" using assms mset_eq_imp_distinct_iff by blast
  then show ?thesis
    using promote_slots_spec [OF refl _ count_blockers_ok, of ?base rules] by (simp add: sort_placement_candidates_def Let_def)
qed

definition placement_crossing ::
  "go_env \<Rightarrow> configs \<Rightarrow> (candidate \<Rightarrow> candidate list) \<Rightarrow> engine_config \<Rightarrow> candidate \<Rightarrow> candidate \<Rightarrow> bool" where
  "placement_crossing env configs memberships config c i =
     placement_can_cross env configs memberships c i (placement_pair_config config config)"

definition sample_poor :: candidate where
  "sample_poor = (plain_candidate ((plain_account ''1'' ''g'')\<lparr>acc_priority := Some 20\<rparr>))\<lparr>c_state := ''degraded''\<rparr>"

definition sample_good :: candidate where
  "sample_good = (plain_candidate ((plain_account ''2'' ''g'')\<lparr>acc_priority := Some 30\<rparr>))
     \<lparr>c_health := empty_health\<lparr>h_sample_count := 1\<rparr>\<rparr>"

lemma sample_placement_ids [simp]: "c_id sample_poor = ''1''" "c_id sample_good = ''2''"
  by (simp_all add: sample_poor_def sample_good_def)

lemma sample_tiers:
  "placement_safety_tier sample_good = 0" "placement_safety_tier sample_poor = 1"
  "placement_safety_improves sample_good sample_poor" "\<not> c_placement_cooldown sample_poor"
  by code_simp+

lemma sample_base: "sort_by (placement_base_less (\<lambda>_. plain_config) False) [sample_poor, sample_good] = [sample_poor, sample_good]"
proof -
  have "\<not> placement_base_less (\<lambda>_. plain_config) False sample_good sample_poor" by code_simp
  then show ?thesis by (simp add: sort_by_def)
qed

lemma sample_order:
  "sort_owned_with_hysteresis plain_env (\<lambda>_. plain_config) (\<lambda>_. []) plain_config [sample_poor, sample_good] = [sample_good, sample_poor]"
  by (simp add: sort_owned_with_hysteresis_def sort_placement_candidates_def sample_base rules_of_def placement_can_cross_def
      can_promote_placement_def sample_tiers release_blockers_def)

text \<open>C34: a promotion never crosses a better account. The order the accounts of a group are placed in is a
  permutation of theirs; wherever it deviates from the stable base order (of priorities, then ids), the
  account that moved ahead is of a better safety tier than the one it passed or, in the same tier, of no
  less quality.\<close>

theorem placement_never_crosses_better:
  assumes "distinct (map c_id items)"
    and "base = sort_by (placement_base_less (\<lambda>_. config) False) items"
    and "out = sort_owned_with_hysteresis env configs memberships config items"
  shows "mset out = mset items \<and>
    (\<forall>l r. before_in base l r \<and> before_in out r l \<longrightarrow> placement_crossing env configs memberships config r l)"
  using sort_placement_spec [OF assms(1), of "rules_of env configs memberships (\<lambda>_. config)" "\<lambda>_. config" False] assms(2,3)
  by (simp add: sort_owned_with_hysteresis_def never_crosses_def placement_crossing_def rules_of_def Let_def)

theorem placement_never_crosses_better_witness:
  "placement_crossing plain_env (\<lambda>_. plain_config) (\<lambda>_. []) plain_config sample_good sample_poor"
proof -
  have dist: "distinct (map c_id [sample_poor, sample_good])" by simp
  show ?thesis
    using placement_never_crosses_better [OF dist sample_base [symmetric] sample_order [symmetric]] by simp
qed

subsection \<open>Priorities increase\<close>

lemma kept_slots_bound:
  assumes "\<And>c. c \<in> set items \<Longrightarrow> fst (automatic_placement_priority c config) \<le> bound"
    and "highest \<le> bound" "\<forall>s \<in> set slots. s \<le> highest"
    and "kept_slots config items (slots, highest) = (slots', highest')"
  shows "highest' \<le> bound \<and> (\<forall>s \<in> set slots'. s \<le> highest') \<and> length slots' \<le> length slots + length items"
  using assms
proof (induction items arbitrary: slots highest)
  case Nil
  then show ?case by simp
next
  case (Cons c items)
  obtain p found where p: "automatic_placement_priority c config = (p, found)" by (metis surj_pair)
  have bound: "p \<le> bound" using Cons.prems(1) [of c] p by simp
  show ?case
  proof (cases "\<not> found \<or> p \<in> set slots")
    case True
    then have "kept_slots config items (slots, highest) = (slots', highest')" using Cons.prems(4) p by simp
    then show ?thesis using Cons.IH [OF _ Cons.prems(2,3)] Cons.prems(1) by fastforce
  next
    case False
    then have run: "kept_slots config items (slots @ [p], max highest p) = (slots', highest')" using Cons.prems(4) p by simp
    have "max highest p \<le> bound" "\<forall>s \<in> set (slots @ [p]). s \<le> max highest p"
      using Cons.prems(2,3) bound by (auto simp: le_max_iff_disj)
    then show ?thesis using Cons.IH [OF _ _ _ run] Cons.prems(1) by fastforce
  qed
qed

lemma new_slots_return:
  assumes "\<forall>s \<in> set slots. s \<le> highest" "highest + int missing \<le> max_int64" "min_int64 \<le> highest"
  shows "\<exists>slots'. new_slots manual_max missing slots highest = Some slots' \<and> length slots' = length slots + missing \<and>
    (\<forall>s \<in> set slots'. s \<le> highest + int missing)"
  using assms
proof (induction missing arbitrary: slots highest)
  case 0
  then show ?case by (subst new_slots.simps) auto
next
  case (Suc missing)
  have next_slot: "i64 (highest + 1) = highest + 1" "highest \<noteq> max_int64"
    using Suc.prems(2,3) i64_id [of "highest + 1"] by (auto simp: int64_bounds)
  have fresh: "highest + 1 \<notin> set slots" using Suc.prems(1) by fastforce
  have "new_slots manual_max (Suc missing) slots highest = new_slots manual_max missing (slots @ [highest + 1]) (highest + 1)"
    by (subst new_slots.simps) (simp add: next_slot fresh Let_def)
  moreover have "\<forall>s \<in> set (slots @ [highest + 1]). s \<le> highest + 1" using Suc.prems(1) by fastforce
  ultimately show ?case using Suc.IH [of "slots @ [highest + 1]" "highest + 1"] Suc.prems(2,3) by (simp add: add.assoc)
qed

lemma slot_priority_above:
  assumes "slot \<le> max_int64"
  shows "min last_priority (max_int64 - 1) + 1 \<le> slot_priority config last_priority slot c"
    "slot_priority config last_priority slot c \<le> max_int64"
proof -
  let ?p = "max slot (min last_priority (max_int64 - 1) + 1)"
  have p: "min last_priority (max_int64 - 1) + 1 \<le> ?p" "?p \<le> max_int64" using assms by auto
  have "slot_priority config last_priority slot c = ?p \<or>
    (\<exists>b q. slot_priority config last_priority slot c = max ?p (min b (max_int64 - q) + q))"
    unfolding slot_priority_def Let_def by (cases "0 < slot_penalty config c") (simp_all only: if_True if_False, blast+)
  then have "?p \<le> slot_priority config last_priority slot c \<and> slot_priority config last_priority slot c \<le> max_int64"
    using p(2) by (auto simp: le_max_iff_disj)
  then show "min last_priority (max_int64 - 1) + 1 \<le> slot_priority config last_priority slot c"
    "slot_priority config last_priority slot c \<le> max_int64" using p(1) by auto
qed

text \<open>Placed one after the other, from a rank on and above a priority.\<close>

fun placed :: "nat \<Rightarrow> int64 \<Rightarrow> candidate list \<Rightarrow> bool" where
  "placed k last_priority [] \<longleftrightarrow> True"
| "placed k last_priority (c # cs) \<longleftrightarrow>
     c_rank c = Some (int (Suc k)) \<and>
     (case c_desired_priority c of
        None \<Rightarrow> False
      | Some p \<Rightarrow> (last_priority < p \<or> p = max_int64) \<and> p \<le> max_int64 \<and> placed (Suc k) p cs)"

lemma place_items_placed:
  assumes "length slots = length items" "\<forall>s \<in> set slots. s \<le> max_int64"
  shows "placed k last_priority (place_items config last_priority k slots items) \<and>
    map c_account (place_items config last_priority k slots items) = map c_account items"
  using assms
proof (induction items arbitrary: slots k last_priority)
  case Nil
  then show ?case by simp
next
  case (Cons c items)
  obtain slot rest where slots: "slots = slot # rest" using Cons.prems(1) by (cases slots) auto
  have "slot \<le> max_int64" using Cons.prems(2) slots by simp
  note above = slot_priority_above [OF this, where last_priority = last_priority and config = config and c = c]
  have IH: "placed (Suc k) (slot_priority config last_priority slot c) (place_items config (slot_priority config last_priority slot c) (Suc k) rest items) \<and>
    map c_account (place_items config (slot_priority config last_priority slot c) (Suc k) rest items) = map c_account items"
    by (rule Cons.IH) (use Cons.prems slots in simp_all)
  have "last_priority < slot_priority config last_priority slot c \<or> slot_priority config last_priority slot c = max_int64"
    using above by linarith
  then show ?case using IH above(2) by (simp add: slots Let_def)
qed

text \<open>C35: priorities follow the order. While every known priority leaves room for one slot per account, the
  search for free slots ends, and the accounts get the ranks from one on and priorities that strictly
  increase along the order, all above the range reserved for manual ones (at the very top of the range
  of integers they stay there).\<close>

theorem priorities_follow_order:
  assumes "min_int64 \<le> ec_manual_priority_max config"
    and "ec_manual_priority_max config + int (length items) \<le> max_int64"
    and "list_all (\<lambda>c. fst (automatic_placement_priority c config) + int (length items) \<le> max_int64) items"
  shows "\<exists>ds. assign_stable_priorities config items = Some ds \<and> map c_account ds = map c_account items \<and>
    placed 0 (ec_manual_priority_max config) ds"
proof -
  let ?m = "ec_manual_priority_max config"
  obtain slots highest where kept: "kept_slots config items ([], ?m) = (slots, highest)" by (metis surj_pair)
  have bound: "highest + int (length items) \<le> max_int64" "\<forall>s \<in> set slots. s \<le> highest" "length slots \<le> length items"
    using kept_slots_bound [OF _ _ _ kept, of "max_int64 - int (length items)"] assms(2,3) by (fastforce simp: list_all_iff)+
  have low: "min_int64 \<le> highest"
  proof -
    have "h \<le> snd (kept_slots config cs (sl, h))" for cs sl h
    proof (induction cs arbitrary: sl h)
      case (Cons c cs)
      then show ?case
        by (auto simp: Let_def split: prod.split) (meson max.bounded_iff)
    qed simp
    from this [of ?m items "[]"] show ?thesis using kept assms(1) by simp
  qed
  obtain slots' where slots': "new_slots ?m (length items - length slots) slots highest = Some slots'"
    "length slots' = length items" "\<forall>s \<in> set slots'. s \<le> highest + int (length items)"
    using new_slots_return [OF bound(2) _ low, of "length items - length slots" ?m] bound(1,3) by fastforce
  have "\<forall>s \<in> set (sort slots'). s \<le> max_int64" using slots'(3) bound(1) by fastforce
  then show ?thesis
    using place_items_placed [of "sort slots'" items 0 ?m config] kept slots'(1,2)
    by (simp add: assign_stable_priorities_def)
qed

theorem priorities_follow_order_witness:
  "\<exists>ds. assign_stable_priorities plain_config [sample_good, sample_poor] = Some ds \<and>
    map c_account ds = map c_account [sample_good, sample_poor] \<and> placed 0 10 ds"
  using priorities_follow_order [of plain_config "[sample_good, sample_poor]"]
  by (simp add: sample_good_def sample_poor_def automatic_placement_priority_def positive_priority_def plain_config_def
      plain_account_def int64_bounds)

end
