(* ===== verification/Pools.thy ===== *)
theory Pools
  imports Capacity Placement "HOL-Library.AList"
begin

text \<open>
  The concurrency accounts share: the scaling budget of all accounts (routing/service.go,
  \<open>newScalingBudget\<close>, \<open>applyScalingWithBudget\<close>), the pools of accounts behind one upstream
  (routing/upstream_scaling.go, routing/upstream_reduction.go, routing/upstream_allocation.go), the
  reservations (routing/capacity_policy.go, routing/concurrency_restore.go) and the global shares
  (routing/global_upstream_allocation.go).

  A map is an association list; where the code ranges over one, the model visits the entries in the
  order of the list, and every result holds for every list. The primary candidates of the accounts are
  a list with one candidate per account. A \<open>string\<close> that says what is wrong is a flag.
\<close>

subsection \<open>Scope\<close>

definition scope_selected :: "allocation_scope \<Rightarrow> string \<Rightarrow> string \<Rightarrow> bool \<times> string" where
  "scope_selected s account_id upstream_id =
     (case (if account_id \<noteq> [] then map_of (as_account_overrides s) account_id else None) of
        Some v \<Rightarrow> (v, ''account'')
      | None \<Rightarrow>
          (case (if upstream_id \<noteq> [] then map_of (as_upstream_overrides s) upstream_id else None) of
             Some v \<Rightarrow> (v, ''upstream'')
           | None \<Rightarrow>
               if as_mode s = ''selected'' then (account_id \<in> set (as_account_ids s), ''policy'')
               else if as_mode s = ''upstreams'' then (upstream_id \<in> set (as_upstream_ids s), ''policy'')
               else (True, ''policy'')))"

definition upstream_allocation_enabled_for :: "engine_config \<Rightarrow> routing_account \<Rightarrow> bool" where
  "upstream_allocation_enabled_for config a =
     (case acc_upstream_type a of
        None \<Rightarrow> False
      | Some t \<Rightarrow>
          if \<not> equal_fold (trim_space t) ''sub2api'' then False
          else ec_upstream_reduction_enabled config \<and>
            fst (scope_selected (ec_upstream_allocation_scope config) (acc_id a) (sub2api_upstream_id a)))"

definition upstream_capacity_enabled_for :: "engine_config \<Rightarrow> routing_account \<Rightarrow> bool" where
  "upstream_capacity_enabled_for config a \<longleftrightarrow> ec_scaling_enabled config \<or> upstream_allocation_enabled_for config a"

definition releasable_automatic_stop :: "string \<Rightarrow> bool" where
  "releasable_automatic_stop state \<longleftrightarrow> state = ''cost_blocked'' \<or> state = ''fused''"

definition confirmed_managed_stop :: "routing_account \<Rightarrow> engine_config \<Rightarrow> bool" where
  "confirmed_managed_stop a config =
     (if \<not> upstream_capacity_enabled_for config a \<or> sub2api_upstream_id a = [] \<or>
         \<not> releasable_automatic_stop (acc_effective_state a) \<or> acc_schedulable a \<noteq> Some False \<or>
         \<not> acc_has_routing_baseline a \<or> acc_managed_schedulable a \<noteq> Some False \<or> acc_external_control a \<or>
         acc_paused a \<or> acc_manual_priority a \<noteq> None
      then False
      else fst (eligible_scope a config) \<and> acc_id a \<notin> set (ec_paused_accounts config) \<and>
        acc_id a \<notin> set (ec_manual_fused_accounts config) \<and> account_metadata_managed a config \<and>
        \<not> account_externally_modified a)"

subsection \<open>Capacities by account\<close>

type_synonym capacities = "(string \<times> int64) list"

text \<open>\<open>m[id]\<close>, which is 0 where the map has no entry, and the saturating sum of a map.\<close>

definition capacity_of :: "capacities \<Rightarrow> string \<Rightarrow> int64" where
  "capacity_of m i = (case map_of m i of None \<Rightarrow> 0 | Some v \<Rightarrow> v)"

definition sum_capacities :: "capacities \<Rightarrow> int64" where
  "sum_capacities m = fold (\<lambda>e t. saturating_capacity_add t (snd e)) m 0"

definition outside :: "string list \<Rightarrow> capacities \<Rightarrow> capacities" where
  "outside selected m = filter (\<lambda>e. fst e \<notin> set selected) m"

record scaling_budget =
  sb_upstream_shares :: capacities
  sb_reservations :: capacities
  sb_initial :: int64
  sb_allocated :: int64

fun sum_until_full :: "int64 list \<Rightarrow> int64 \<Rightarrow> int64" where
  "sum_until_full [] allocated = allocated"
| "sum_until_full (current # cs) allocated =
     (if current > i64 (max_int64 - allocated) then max_int64 else sum_until_full cs (i64 (allocated + current)))"

definition budget_current :: "int64 \<Rightarrow> routing_account \<Rightarrow> int64" where
  "budget_current fallback a =
     (if confirmed_concurrency_pause a then 0
      else (case acc_concurrency a of
              Some n \<Rightarrow> if n > 0 then n else if sub2api_upstream_id a \<noteq> [] then max_int64 else fallback
            | None \<Rightarrow> if sub2api_upstream_id a \<noteq> [] then max_int64 else fallback))"

definition new_scaling_budget :: "routing_account list \<Rightarrow> int64 \<Rightarrow> scaling_budget" where
  "new_scaling_budget accounts fallback =
     (let by_id = fold (\<lambda>a m. AList.update (acc_id a) (max (capacity_of m (acc_id a)) (budget_current fallback a)) m) accounts [];
          allocated = sum_until_full (map snd by_id) 0
      in \<lparr>sb_upstream_shares = [], sb_reservations = by_id, sb_initial = allocated, sb_allocated = allocated\<rparr>)"

definition recount_budget :: "scaling_budget \<Rightarrow> scaling_budget" where
  "recount_budget b =
     b\<lparr>sb_allocated := sum_capacities (sb_reservations b), sb_initial := sum_capacities (sb_reservations b)\<rparr>"

definition reserved_outside :: "scaling_budget \<Rightarrow> string list \<Rightarrow> int64" where
  "reserved_outside b selected =
     fold (\<lambda>e t. saturating_capacity_add t (snd e)) (outside selected (sb_reservations b))
       (max 0 (i64 (sb_allocated b - sb_initial b)))"

subsection \<open>Scaling by group\<close>

definition append_concurrency_reason :: "concurrency_note \<Rightarrow> candidate \<Rightarrow> candidate" where
  "append_concurrency_reason note c = c\<lparr>c_reason := c_reason c @ [M_Concurrency note]\<rparr>"

definition limit_concurrency :: "concurrency_note \<Rightarrow> candidate \<Rightarrow> candidate" where
  "limit_concurrency note c =
     append_concurrency_reason note (c\<lparr>c_state := ''concurrency_limited'', c_schedulable := False\<rparr>)"

definition scale_item :: "engine_config \<Rightarrow> bool \<Rightarrow> candidate \<Rightarrow> int64 \<Rightarrow> candidate \<times> int64 \<times> bool" where
  "scale_item config scale_up c allocated =
     (if c_rank c = None \<or> acc_manual_priority (c_account c) \<noteq> None \<or> c_evidence_pending c \<or>
         \<not> placement_load_factor_eligible c then (c, allocated, False)
      else
        let current = (case acc_concurrency (c_account c) of
                         Some n \<Rightarrow> if n > 0 then n else ec_scaling_min config | None \<Rightarrow> ec_scaling_min config);
            headroom = max 0 (i64 (ec_scaling_global_max config - allocated));
            desired =
              (if c_state c = ''degraded'' \<or> c_state c = ''survivor'' then i64 (current - ec_scaling_step_down config)
               else if scale_up
               then i64 (current + min (min (ec_scaling_step_up config) headroom) (max 0 (i64 (ec_scaling_max config - current))))
               else current);
            desired = min (ec_scaling_max config) (max (ec_scaling_min config) desired);
            increase = (if desired > current then min (i64 (desired - current)) headroom else 0);
            desired = (if desired > current then i64 (current + increase) else desired);
            c = (if desired < ec_scaling_min config then append_concurrency_reason CN_Global_Budget_Short c else c)
        in (if desired \<noteq> current then c\<lparr>c_desired_concurrency := Some desired\<rparr> else c,
            i64 (allocated + increase), desired < ec_scaling_min config))"

fun scale_items :: "engine_config \<Rightarrow> bool \<Rightarrow> candidate list \<Rightarrow> int64 \<Rightarrow> candidate list \<times> int64 \<times> bool" where
  "scale_items config scale_up [] allocated = ([], allocated, False)"
| "scale_items config scale_up (c # cs) allocated =
     (let (c, allocated, short) = scale_item config scale_up c allocated;
          (cs, allocated, shorts) = scale_items config scale_up cs allocated
      in (c # cs, allocated, short \<or> shorts))"

definition apply_scaling_with_budget ::
  "candidate list \<Rightarrow> engine_config \<Rightarrow> scaling_budget \<Rightarrow> candidate list \<times> scaling_budget \<times> bool" where
  "apply_scaling_with_budget items config budget =
     (if \<not> ec_scaling_enabled config then (items, budget, False)
      else
        let scale_up = fdiv (fl (of_int (sb_initial budget))) (fl (of_int (ec_scaling_global_max config))) \<ge> ec_scaling_up_ratio config;
            (items, allocated, short) = scale_items config scale_up items (sb_allocated budget)
        in (items, budget\<lparr>sb_allocated := allocated\<rparr>, short))"

subsection \<open>Pools of upstreams\<close>

record scaling_pool =
  sp_id :: string
  sp_limit :: "int64 option"
  sp_accounts :: "(string \<times> routing_account) list"
  sp_current :: capacities
  sp_unknown :: bool
  sp_stale :: bool

type_synonym pools = "(string \<times> scaling_pool) list"

definition merged_limit :: "int64 option \<Rightarrow> int64 \<Rightarrow> int64 option" where
  "merged_limit limit l =
     (case limit of None \<Rightarrow> Some l | Some m \<Rightarrow> if l > 0 \<and> (m = 0 \<or> l < m) then Some l else Some m)"

definition pool_current :: "routing_account \<Rightarrow> int64" where
  "pool_current a =
     (if confirmed_concurrency_pause a then 0
      else (case acc_concurrency a of Some n \<Rightarrow> if n > 0 then n else max_int64 | None \<Rightarrow> max_int64))"

definition join_pool :: "routing_account \<Rightarrow> scaling_pool \<Rightarrow> scaling_pool" where
  "join_pool a p =
     (let limit_known = (case acc_upstream_concurrency_limit a of Some l \<Rightarrow> l \<ge> 0 | None \<Rightarrow> False) in
      p\<lparr>sp_accounts := AList.update (acc_id a) a (sp_accounts p),
        sp_stale := sp_stale p \<or> acc_upstream_concurrency_status a = ''stale'',
        sp_unknown := sp_unknown p \<or> \<not> limit_known,
        sp_limit := (if limit_known then merged_limit (sp_limit p) (the (acc_upstream_concurrency_limit a)) else sp_limit p),
        sp_current := AList.update (acc_id a) (max (capacity_of (sp_current p) (acc_id a)) (pool_current a)) (sp_current p)\<rparr>)"

definition empty_pool :: "string \<Rightarrow> scaling_pool" where
  "empty_pool i = \<lparr>sp_id = i, sp_limit = None, sp_accounts = [], sp_current = [], sp_unknown = False, sp_stale = False\<rparr>"

definition pool_account :: "routing_account \<Rightarrow> pools \<Rightarrow> pools" where
  "pool_account a ps =
     (let i = sub2api_upstream_id a in
      if i = [] then ps
      else AList.update i (join_pool a (case map_of ps i of Some p \<Rightarrow> p | None \<Rightarrow> empty_pool i)) ps)"

definition new_upstream_scaling_pools :: "routing_account list \<Rightarrow> pools" where
  "new_upstream_scaling_pools inventory = fold pool_account inventory []"

definition pools_manage :: "pools \<Rightarrow> routing_account \<Rightarrow> bool" where
  "pools_manage ps a =
     (case map_of ps (sub2api_upstream_id a) of
        None \<Rightarrow> False
      | Some p \<Rightarrow> sp_unknown p \<or> sp_stale p \<or> sp_limit p \<noteq> Some 0 \<or> previously_concurrency_limited a)"

subsection \<open>Reservations before planning\<close>

definition set_pool_current :: "string \<Rightarrow> string \<Rightarrow> (int64 \<Rightarrow> int64) \<Rightarrow> pools \<Rightarrow> pools" where
  "set_pool_current pid i f ps =
     map (\<lambda>(k, p). (k, if k = pid then p\<lparr>sp_current := AList.update i (f (capacity_of (sp_current p) i)) (sp_current p)\<rparr> else p)) ps"

definition set_reservation :: "candidate \<Rightarrow> (int64 \<Rightarrow> int64) \<Rightarrow> scaling_budget \<times> pools \<Rightarrow> scaling_budget \<times> pools" where
  "set_reservation c f st =
     ((fst st)\<lparr>sb_reservations :=
        AList.update (c_id c) (f (capacity_of (sb_reservations (fst st)) (c_id c))) (sb_reservations (fst st))\<rparr>,
      set_pool_current (sub2api_upstream_id (c_account c)) (c_id c) f (snd st))"

definition release_confirmed_stop_reservations ::
  "routing_account list \<Rightarrow> candidate list \<Rightarrow> configs \<Rightarrow> scaling_budget \<times> pools \<Rightarrow> scaling_budget \<times> pools" where
  "release_confirmed_stop_reservations inventory primary configs st =
     (let contradicted = (\<lambda>a. \<not> releasable_automatic_stop (acc_effective_state a) \<or> acc_schedulable a \<noteq> Some False);
          released = filter (\<lambda>c. \<not> c_schedulable c \<and> confirmed_managed_stop (c_account c) (configs (c_group c)) \<and>
            \<not> list_ex (\<lambda>a. acc_id a = c_id c \<and> contradicted a) inventory) primary
      in map_prod recount_budget id (fold (\<lambda>c. set_reservation c (\<lambda>_. 0)) released st))"

definition configured_capacity :: "routing_account \<Rightarrow> int64" where
  "configured_capacity a =
     (case acc_concurrency a of Some n \<Rightarrow> if n > 0 then n else max_int64 | None \<Rightarrow> max_int64)"

definition reserve_outside_allocation_scope ::
  "candidate list \<Rightarrow> configs \<Rightarrow> scaling_budget \<times> pools \<Rightarrow> scaling_budget \<times> pools" where
  "reserve_outside_allocation_scope primary configs st =
     map_prod recount_budget id
       (fold (\<lambda>c. set_reservation c (\<lambda>_. configured_capacity (c_account c)))
          (filter (\<lambda>c. \<not> upstream_capacity_enabled_for (configs (c_group c)) (c_account c) \<and>
             confirmed_concurrency_pause (c_account c)) primary) st)"

definition restorable :: "configs \<Rightarrow> candidate \<Rightarrow> bool" where
  "restorable configs c =
     (let a = c_account c in
      \<not> (upstream_capacity_enabled_for (configs (acc_group_name a)) a \<or> \<not> c_schedulable c \<or>
         \<not> remote_schedulable a \<or> \<not> placement_load_factor_eligible c \<or> acc_paused a \<or>
         acc_manual_priority a \<noteq> None \<or> acc_external_control a \<or> \<not> acc_has_routing_baseline a \<or>
         (case (acc_baseline_concurrency a, acc_managed_concurrency a, acc_concurrency a) of
            (Some baseline, Some managed, Some n) \<Rightarrow> n \<le> 0 \<or> n \<noteq> managed \<or> baseline \<le> n
          | _ \<Rightarrow> True)))"

definition restore_item :: "configs \<Rightarrow> candidate \<Rightarrow> candidate" where
  "restore_item configs c =
     (if restorable configs c
      then append_concurrency_reason (CN_Restore_Baseline (the (acc_baseline_concurrency (c_account c))))
             (c\<lparr>c_desired_concurrency := acc_baseline_concurrency (c_account c), c_restore_concurrency := True\<rparr>)
      else c)"

definition restore_unconstrained_concurrency ::
  "candidate list \<Rightarrow> configs \<Rightarrow> scaling_budget \<times> pools \<Rightarrow> candidate list \<times> scaling_budget \<times> pools" where
  "restore_unconstrained_concurrency primary configs st =
     (map (restore_item configs) primary,
      map_prod recount_budget id
        (fold (\<lambda>c. set_reservation c (\<lambda>v. max v (the (acc_baseline_concurrency (c_account c)))))
           (filter (restorable configs) primary) st))"

subsection \<open>The plan of one upstream\<close>

definition pool_recovery :: "scaling_pool \<Rightarrow> candidate \<Rightarrow> engine_config \<Rightarrow> int64 \<Rightarrow> int64 \<Rightarrow> int64 \<Rightarrow>
    int64 \<times> scaling_budget \<Rightarrow> candidate \<times> int64 \<times> scaling_budget" where
  "pool_recovery pool c config quota headroom reserved st =
     (let (allocated, budget) = st in
      case acc_concurrency (c_account c) of
        None \<Rightarrow> (limit_concurrency CN_Adjust_First (c\<lparr>c_desired_concurrency := Some quota\<rparr>), st)
      | Some current \<Rightarrow>
          if current \<le> 0 \<or> current > quota
          then (limit_concurrency CN_Adjust_First (c\<lparr>c_desired_concurrency := Some quota\<rparr>), st)
          else if \<not> ec_apply_concurrency config \<or> \<not> ec_apply_schedulable config
          then (limit_concurrency (CN_Enable_Writes quota) c, st)
          else if current > headroom then (limit_concurrency CN_Wait_Release c, st)
          else
            let increase = max 0 (i64 (current - reserved)) in
            (append_concurrency_reason (CN_Recovered current) c, saturating_capacity_add allocated increase,
             budget\<lparr>sb_allocated := saturating_capacity_add (sb_allocated budget) increase\<rparr>))"

text \<open>An account of a shared upstream the global limit does not apply to.\<close>

definition global_exempt :: "engine_config \<Rightarrow> candidate \<Rightarrow> bool" where
  "global_exempt config c \<longleftrightarrow> c_upstream_allocation c \<and> \<not> ec_global_scaling_enabled config"

definition step_concurrency ::
  "engine_config \<Rightarrow> candidate \<Rightarrow> int64 \<Rightarrow> int64 \<Rightarrow> int64 \<Rightarrow> int64 \<Rightarrow> int64" where
  "step_concurrency config c quota current upstream_headroom global_headroom =
     (if quota > current
      then
        if c_upstream_allocation c \<and> c_evidence_pending c then current
        else i64 (current + min (min (min (i64 (quota - current)) (ec_scaling_step_up config)) upstream_headroom) global_headroom)
      else if current \<noteq> max_int64 then max quota (i64 (current - ec_scaling_step_down config))
      else quota)"

definition pool_resize :: "scaling_pool \<Rightarrow> candidate \<Rightarrow> engine_config \<Rightarrow> int64 \<Rightarrow> int64 \<Rightarrow> int64 \<Rightarrow> int64 \<Rightarrow>
    int64 \<times> scaling_budget \<Rightarrow> candidate \<times> int64 \<times> scaling_budget" where
  "pool_resize pool c config quota current upstream_headroom global_headroom st =
     (let (allocated, budget) = st;
          desired = step_concurrency config c quota current upstream_headroom global_headroom;
          st = (if desired > current
                then (saturating_capacity_add allocated (i64 (desired - current)),
                      budget\<lparr>sb_allocated := saturating_capacity_add (sb_allocated budget) (i64 (desired - current))\<rparr>)
                else (allocated, budget));
          c = (if acc_concurrency (c_account c) \<noteq> Some desired then c\<lparr>c_desired_concurrency := Some desired\<rparr> else c)
      in (append_concurrency_reason (CN_Assigned quota desired) c, st))"

definition pool_grant :: "scaling_pool \<Rightarrow> configs \<Rightarrow> int64 \<Rightarrow> quotas \<Rightarrow> candidate \<Rightarrow>
    int64 \<times> scaling_budget \<Rightarrow> candidate \<times> int64 \<times> scaling_budget" where
  "pool_grant pool configs limit quotas c st =
     (let (allocated, budget) = st;
          config = configs (c_group c);
          quota = quotas (c_id c);
          c = (if quota < ec_scaling_min config then c\<lparr>c_concurrency_issue := True\<rparr> else c);
          current = capacity_of (sp_current pool) (c_id c);
          exempt = global_exempt config c;
          upstream_headroom = (if sp_stale pool then 0 else max 0 (i64 (limit - allocated)));
          global_headroom = (if exempt then max_int64 else max 0 (i64 (ec_scaling_global_max config - sb_allocated budget)));
          c = (if sp_stale pool then append_concurrency_reason CN_Stale c else c)
      in if acc_schedulable (c_account c) = Some False
         then
           if sp_stale pool then (limit_concurrency CN_Stale_Recovery c, st)
           else
             let recovery = (if exempt then max_int64
                             else max 0 (i64 (ec_scaling_global_max config - max 0 (i64 (sb_allocated budget - current)))))
             in if recovery = 0 then (limit_concurrency CN_Wait_Release c, st)
                else pool_recovery pool c config (min quota recovery)
                       (min (max 0 (i64 (limit - max 0 (i64 (allocated - current))))) recovery) current st
         else pool_resize pool c config quota current upstream_headroom global_headroom st)"

fun pool_grants :: "scaling_pool \<Rightarrow> configs \<Rightarrow> int64 \<Rightarrow> quotas \<Rightarrow> candidate list \<Rightarrow>
    int64 \<times> scaling_budget \<Rightarrow> candidate list \<times> int64 \<times> scaling_budget" where
  "pool_grants pool configs limit quotas [] st = ([], st)"
| "pool_grants pool configs limit quotas (c # cs) st =
     (let (c, st) = pool_grant pool configs limit quotas c st;
          (cs, st) = pool_grants pool configs limit quotas cs st
      in (c # cs, st))"

definition upstream_concurrency_quotas :: "candidate list \<Rightarrow> configs \<Rightarrow> int64 \<Rightarrow> quotas option" where
  "upstream_concurrency_quotas items configs capacity =
     bounded_concurrency_quotas items capacity
       (\<lambda>c. (ec_scaling_min (configs (c_group c)), ec_scaling_max (configs (c_group c))))"

text \<open>The capacity the accounts of a pool share, and the reason the others wait for.\<close>

definition pool_available :: "scaling_pool \<Rightarrow> configs \<Rightarrow> candidate list \<Rightarrow> scaling_budget \<Rightarrow> int64 \<Rightarrow> int64 \<Rightarrow> int64" where
  "pool_available pool configs items budget limit reserved =
     (let free = max 0 (i64 (limit - reserved)) in
      if ec_global_scaling_enabled (configs (c_group (hd items)))
      then
        let global_limit = fold (\<lambda>c m. min m (ec_scaling_global_max (configs (c_group c)))) items max_int64 in
        case map_of (sb_upstream_shares budget) (sp_id pool) of
          Some share \<Rightarrow> min free share
        | None \<Rightarrow> min free (max 0 (i64 (global_limit - reserved_outside budget (map c_id items))))
      else free)"

definition waiting_note :: "configs \<Rightarrow> candidate list \<Rightarrow> scaling_budget \<Rightarrow> int64 \<Rightarrow> int64 \<Rightarrow> int64 \<Rightarrow> concurrency_note" where
  "waiting_note configs items budget limit reserved available =
     (let config = configs (c_group (hd items)) in
      if ec_global_scaling_enabled config \<and> available < max 0 (i64 (limit - reserved))
      then CN_Global_Full (ec_scaling_global_max config) (reserved_outside budget (map c_id items)) available
      else CN_Upstream_Full limit reserved available)"

definition pool_unconfirmed :: "scaling_pool \<Rightarrow> bool" where
  "pool_unconfirmed pool \<longleftrightarrow>
     sp_unknown pool \<or>
     (case sp_limit pool of None \<Rightarrow> True | Some l \<Rightarrow> l < 0 \<or> (sp_stale pool \<and> l = 0))"

definition effective_limit :: "scaling_pool \<Rightarrow> int64" where
  "effective_limit pool = (if the (sp_limit pool) = 0 then max_int64 else the (sp_limit pool))"

text \<open>The callers pass at least one account.\<close>

definition pool_apply :: "scaling_pool \<Rightarrow> candidate list \<Rightarrow> configs \<Rightarrow> scaling_budget \<Rightarrow>
    (candidate list \<times> scaling_budget) option" where
  "pool_apply pool items configs budget =
     (if pool_unconfirmed pool
      then Some (map (\<lambda>c. if \<not> remote_schedulable (c_account c) then limit_concurrency CN_Limit_Unknown c
                          else append_concurrency_reason CN_Limit_Unknown c) items, budget)
      else
        let limit = effective_limit pool;
            reserved = sum_capacities (outside (map c_id items) (sp_current pool));
            allocated = sum_capacities (sp_current pool);
            available = pool_available pool configs items budget limit reserved;
            n = nat (min (int (length items)) available);
            waiting = map (limit_concurrency (waiting_note configs items budget limit reserved available)) (drop n items);
            eligible = take n items
        in if eligible = [] then Some (waiting, budget)
           else
             case upstream_concurrency_quotas eligible configs available of
               None \<Rightarrow> None
             | Some quotas \<Rightarrow>
                 let (granted, allocated, budget) = pool_grants pool configs limit quotas eligible (allocated, budget)
                 in Some (granted @ waiting, budget))"

subsection \<open>Reductions and shared allocation\<close>

text \<open>The primary candidate of an account, and a changed one put back.\<close>

definition primary_of :: "candidate list \<Rightarrow> string \<Rightarrow> candidate option" where
  "primary_of primary i = find (\<lambda>c. c_id c = i) primary"

definition put_back :: "candidate list \<Rightarrow> candidate list \<Rightarrow> candidate list" where
  "put_back changed primary =
     map (\<lambda>c. case primary_of changed (c_id c) of Some d \<Rightarrow> d | None \<Rightarrow> c) primary"

definition mark_upstream_reduction :: "scaling_pool \<Rightarrow> candidate \<Rightarrow> candidate" where
  "mark_upstream_reduction pool c =
     c\<lparr>c_upstream_reduction_id := sp_id pool, c_upstream_reduction_limit := sp_limit pool,
       c_scaling_cooldown := False, c_concurrency_configuration_error := False\<rparr>"

text \<open>What the order of accounts depends on beside the candidates: the environment, the configurations the
  weights were computed with, and the memberships of an account.\<close>

type_synonym ordering = "configs \<Rightarrow> candidate list \<Rightarrow> candidate list"

definition active_capacity :: "scaling_pool \<Rightarrow> int64" where
  "active_capacity pool =
     fold (\<lambda>e t. if remote_schedulable (snd e) \<and> acc_concurrency (snd e) \<noteq> None
                 then saturating_capacity_add t (capacity_of (sp_current pool) (acc_id (snd e))) else t)
       (sp_accounts pool) 0"

definition reducible :: "scaling_pool \<Rightarrow> configs \<Rightarrow> candidate \<Rightarrow> bool" where
  "reducible pool configs c =
     (let a = c_account c; config = configs (acc_group_name a) in
      \<not> (ec_scaling_enabled config \<or> \<not> upstream_allocation_enabled_for config a \<or>
         sub2api_upstream_id a \<noteq> sp_id pool \<or> \<not> c_schedulable c \<or> \<not> placement_load_factor_eligible c \<or>
         acc_paused a \<or> acc_manual_priority a \<noteq> None \<or> acc_schedulable a \<noteq> Some True \<or>
         acc_concurrency a = None))"

text \<open>None where the quotas do not come back; else whether the pool is being corrected, and the primaries.\<close>

definition reduce_overage ::
  "ordering \<Rightarrow> scaling_pool \<Rightarrow> candidate list \<Rightarrow> configs \<Rightarrow> (bool \<times> candidate list) option" where
  "reduce_overage order pool primary configs =
     (case sp_limit pool of
        None \<Rightarrow> Some (False, primary)
      | Some limit \<Rightarrow>
          if sp_unknown pool \<or> limit \<le> 0 then Some (False, primary)
          else if list_ex (\<lambda>e. acc_upstream_concurrency_status (snd e) \<noteq> ''known'' \<and>
                  acc_upstream_concurrency_status (snd e) \<noteq> ''stale'') (sp_accounts pool)
          then Some (False, primary)
          else if active_capacity pool \<le> limit then Some (False, primary)
          else
            let items = filter (reducible pool configs) (List.map_filter (primary_of primary) (map fst (sp_accounts pool)))
            in if items = [] then Some (False, primary)
               else
                 let items = order configs items;
                     reserved = sum_capacities (outside (map c_id items) (sp_current pool));
                     available = max 0 (i64 (limit - reserved));
                     n = nat (min (int (length items)) available);
                     waiting = map (\<lambda>c. limit_concurrency CN_Reduction_Pause (mark_upstream_reduction pool c)) (drop n items);
                     eligible = take n items
                 in case bounded_concurrency_quotas eligible available
                          (\<lambda>c. (1, min (capacity_of (sp_current pool) (c_id c)) limit)) of
                      None \<Rightarrow> None
                    | Some quotas \<Rightarrow>
                        let reduced = map (\<lambda>c.
                              if quotas (c_id c) \<ge> capacity_of (sp_current pool) (c_id c) then c
                              else append_concurrency_reason (CN_Reduced (quotas (c_id c)))
                                     ((mark_upstream_reduction pool c)\<lparr>c_desired_concurrency := Some (quotas (c_id c))\<rparr>)) eligible
                        in Some (True, put_back (reduced @ waiting) primary))"

datatype share_verdict = Share_Skip candidate | Share_Take candidate engine_config

definition unlimited_config :: "scaling_pool \<Rightarrow> routing_account \<Rightarrow> engine_config \<Rightarrow> engine_config" where
  "unlimited_config pool a config =
     config\<lparr>ec_scaling_min := 1,
       ec_scaling_max := (if the (sp_limit pool) = 0 then max 1 (the (acc_concurrency a)) else the (sp_limit pool)),
       ec_scaling_step_up := max_int64, ec_scaling_step_down := max_int64,
       ec_apply_concurrency := True, ec_apply_schedulable := True\<rparr>"

definition share_item :: "scaling_pool \<Rightarrow> configs \<Rightarrow> candidate \<Rightarrow> share_verdict" where
  "share_item pool configs c =
     (let a = c_account c; config = configs (acc_group_name a) in
      if (\<not> upstream_allocation_enabled_for config a \<and> \<not> ec_scaling_enabled config) \<or>
         sub2api_upstream_id a \<noteq> sp_id pool \<or> \<not> c_schedulable c \<or> \<not> placement_load_factor_eligible c \<or>
         acc_paused a \<or> acc_manual_priority a \<noteq> None \<or> acc_schedulable a = None
      then Share_Skip c
      else if \<not> remote_schedulable a \<and> (\<not> confirmed_concurrency_pause a \<or> c_evidence_pending c)
      then Share_Skip (if previously_concurrency_limited a then limit_concurrency CN_Wait_Health c else c)
      else if sp_limit pool = Some 0 \<and> \<not> confirmed_concurrency_pause a then Share_Skip c
      else if ec_scaling_enabled config \<and> c_evidence_pending c then Share_Skip c
      else if acc_concurrency a = None then Share_Skip c
      else if \<not> ec_scaling_enabled config
      then Share_Take ((mark_upstream_reduction pool c)\<lparr>c_upstream_allocation := True\<rparr>) (unlimited_config pool a config)
      else Share_Take c config)"

text \<open>The accounts that share the pool, with the configurations by group as the loop leaves them.\<close>

fun share_items :: "scaling_pool \<Rightarrow> configs \<Rightarrow> candidate list \<Rightarrow> configs \<Rightarrow>
    candidate list \<times> candidate list \<times> configs" where
  "share_items pool configs [] allocation = ([], [], allocation)"
| "share_items pool configs (c # cs) allocation =
     (case share_item pool configs c of
        Share_Skip c \<Rightarrow>
          (let (skipped, taken, allocation) = share_items pool configs cs allocation in (c # skipped, taken, allocation))
      | Share_Take c config \<Rightarrow>
          (let (skipped, taken, allocation) = share_items pool configs cs (allocation(c_group c := config))
           in (skipped, c # taken, allocation)))"

definition allocate_shared :: "ordering \<Rightarrow> scaling_pool \<Rightarrow> candidate list \<Rightarrow> configs \<Rightarrow> scaling_budget \<Rightarrow>
    (bool \<times> candidate list \<times> scaling_budget) option" where
  "allocate_shared order pool primary configs budget =
     (if sp_unknown pool \<or> sp_stale pool \<or> (case sp_limit pool of None \<Rightarrow> True | Some l \<Rightarrow> l < 0)
      then Some (False, primary, budget)
      else if list_ex (\<lambda>e. acc_upstream_concurrency_status (snd e) \<noteq> ''known'' \<and>
              \<not> (acc_upstream_concurrency_status (snd e) = ''unlimited'' \<and> sp_limit pool = Some 0)) (sp_accounts pool)
      then Some (False, primary, budget)
      else
        let members = List.map_filter (primary_of primary) (map fst (sp_accounts pool)) in
        if \<not> list_ex (\<lambda>c. upstream_allocation_enabled_for (configs (c_group c)) (c_account c)) members
        then Some (False, primary, budget)
        else
          let (skipped, taken, allocation) = share_items pool configs members configs;
              primary = put_back skipped primary
          in if taken = [] then Some (False, primary, budget)
             else
               case pool_apply pool (order allocation taken) allocation budget of
                 None \<Rightarrow> None
               | Some (items, budget) \<Rightarrow> Some (True, put_back items primary, budget))"

subsection \<open>All upstreams\<close>

definition source_missing :: "configs \<Rightarrow> candidate \<Rightarrow> candidate" where
  "source_missing configs c =
     (let a = c_account c in
      if previously_concurrency_limited a \<and>
         (case acc_upstream_type a of Some t \<Rightarrow> equal_fold t ''sub2api'' | None \<Rightarrow> False) \<and>
         upstream_capacity_enabled_for (configs (acc_group_name a)) a \<and> sub2api_upstream_id a = [] \<and>
         placement_load_factor_eligible c
      then limit_concurrency CN_Source_Missing c else c)"

definition hold_recovery :: "scaling_pool \<Rightarrow> configs \<Rightarrow> candidate \<Rightarrow> candidate" where
  "hold_recovery pool configs c =
     (if \<not> c_schedulable c \<or> remote_schedulable (c_account c) \<or> \<not> placement_load_factor_eligible c \<or>
         \<not> upstream_capacity_enabled_for (configs (c_group c)) (c_account c)
      then c
      else if sp_unknown pool \<or> sp_stale pool \<or> sp_limit pool = None
      then append_concurrency_reason CN_Recovery_Unconfirmed (c\<lparr>c_schedulable := False\<rparr>)
      else c)"

text \<open>Whether an account takes part in the plan of its upstream, and what it is told when it does not.\<close>

definition gather_item :: "pools \<Rightarrow> scaling_pool \<Rightarrow> configs \<Rightarrow> bool \<Rightarrow> candidate \<Rightarrow> candidate \<times> bool" where
  "gather_item ps pool configs correcting c =
     (let a = c_account c; config = configs (acc_group_name a);
          paused = previously_concurrency_limited a \<and> placement_load_factor_eligible c
      in if sub2api_upstream_id a \<noteq> sp_id pool \<or> \<not> pools_manage ps a then (c, False)
         else if \<not> upstream_capacity_enabled_for config a then (c, False)
         else if c_upstream_reduction_id c \<noteq> [] then (c, False)
         else if correcting then (if paused then limit_concurrency CN_Wait_Readback c else c, False)
         else if \<not> ec_scaling_enabled config
         then (if paused
               then limit_concurrency (if upstream_allocation_enabled_for config a then CN_Shared_Unconfirmed else CN_Scaling_Off) c
               else c, False)
         else if \<not> c_schedulable c \<or> c_evidence_pending c \<or> \<not> placement_load_factor_eligible c \<or> acc_manual_priority a \<noteq> None
         then (if paused then limit_concurrency CN_Pause_Conditions c else c, False)
         else if remote_schedulable a \<and> acc_concurrency a = None
         then (append_concurrency_reason CN_Account_Unconfirmed c, False)
         else if (case sp_limit pool of Some l \<Rightarrow> l > 0 | None \<Rightarrow> False) \<and>
                 (\<not> ec_apply_concurrency config \<or> \<not> ec_apply_schedulable config)
         then (append_concurrency_reason CN_Needs_Switches (c\<lparr>c_concurrency_configuration_error := True\<rparr>), True)
         else (c, True))"

definition plan_pool :: "ordering \<Rightarrow> configs \<Rightarrow> pools \<Rightarrow> scaling_pool \<Rightarrow> candidate list \<times> scaling_budget \<Rightarrow>
    (candidate list \<times> scaling_budget) option" where
  "plan_pool order configs ps pool st =
     (let (primary, budget) = st;
          members = (\<lambda>primary. List.map_filter (primary_of primary) (map fst (sp_accounts pool)));
          primary = put_back (map (hold_recovery pool configs) (members primary)) primary
      in case allocate_shared order pool primary configs budget of
           None \<Rightarrow> None
         | Some (True, primary, budget) \<Rightarrow> Some (primary, budget)
         | Some (False, primary, budget) \<Rightarrow>
             (case reduce_overage order pool primary configs of
                None \<Rightarrow> None
              | Some (correcting, primary) \<Rightarrow>
                  let gathered = map (gather_item ps pool configs correcting) (members primary);
                      primary = put_back (map fst gathered) primary;
                      items = map fst (filter snd gathered)
                  in if items = [] then Some (primary, budget)
                     else
                       case pool_apply pool (order configs items) configs budget of
                         None \<Rightarrow> None
                       | Some (items, budget) \<Rightarrow> Some (put_back items primary, budget)))"

fun plan_pools :: "ordering \<Rightarrow> configs \<Rightarrow> pools \<Rightarrow> scaling_pool list \<Rightarrow> candidate list \<times> scaling_budget \<Rightarrow>
    (candidate list \<times> scaling_budget) option" where
  "plan_pools order configs ps [] st = Some st"
| "plan_pools order configs ps (pool # rest) st =
     (case plan_pool order configs ps pool st of None \<Rightarrow> None | Some st \<Rightarrow> plan_pools order configs ps rest st)"

definition apply_pools :: "ordering \<Rightarrow> configs \<Rightarrow> pools \<Rightarrow> candidate list \<times> scaling_budget \<Rightarrow>
    (candidate list \<times> scaling_budget) option" where
  "apply_pools order configs ps st =
     plan_pools order configs ps (map snd (sort_by (\<lambda>l r. fst l < fst r) ps)) (map (source_missing configs) (fst st), snd st)"

subsection \<open>Shares of the global limit (routing/global_upstream_allocation.go)\<close>

definition globally_planned :: "pools \<Rightarrow> configs \<Rightarrow> candidate \<Rightarrow> bool" where
  "globally_planned ps configs c =
     (let a = c_account c; config = configs (acc_group_name a) in
      case map_of ps (sub2api_upstream_id a) of
        None \<Rightarrow> False
      | Some pool \<Rightarrow>
          if \<not> ec_global_scaling_enabled config \<or> \<not> upstream_capacity_enabled_for config a \<or> \<not> pools_manage ps a \<or>
             sp_unknown pool \<or> sp_stale pool \<or> sp_limit pool = None \<or> \<not> c_schedulable c \<or>
             \<not> placement_load_factor_eligible c \<or> acc_manual_priority a \<noteq> None \<or> acc_paused a \<or> acc_concurrency a = None
          then False
          else if ec_scaling_enabled config \<and> c_evidence_pending c then False
          else \<not> (\<not> ec_scaling_enabled config \<and> \<not> remote_schedulable a \<and>
                  (\<not> confirmed_concurrency_pause a \<or> c_evidence_pending c)))"

definition pool_ceiling :: "pools \<Rightarrow> string list \<Rightarrow> string \<Rightarrow> int64" where
  "pool_ceiling ps selected i =
     (case map_of ps i of
        None \<Rightarrow> 0
      | Some pool \<Rightarrow>
          let limit = the (sp_limit pool) in
          if limit > 0 then max 0 (i64 (limit - sum_capacities (outside selected (sp_current pool)))) else max_int64)"

definition global_minimum :: "configs \<Rightarrow> candidate \<Rightarrow> int64" where
  "global_minimum configs c =
     (let config = configs (c_group c) in if ec_scaling_enabled config then ec_scaling_min config else 1)"

definition global_maximum :: "configs \<Rightarrow> (string \<Rightarrow> int64) \<Rightarrow> candidate \<Rightarrow> int64" where
  "global_maximum configs cap_of c =
     (let config = configs (c_group c) in
      if ec_scaling_enabled config then ec_scaling_max config else cap_of (sub2api_upstream_id (c_account c)))"

text \<open>The shares of upstreams and of accounts, and the capacity still to hand out.\<close>

record share_state =
  sh_pools :: quotas
  sh_accounts :: quotas
  sh_available :: int64

definition grant_minimum :: "(string \<Rightarrow> int64) \<Rightarrow> (candidate \<Rightarrow> int64) \<Rightarrow> candidate \<Rightarrow> share_state \<Rightarrow> share_state" where
  "grant_minimum cap_of minimum c s =
     (let i = sub2api_upstream_id (c_account c) in
      if sh_available s \<ge> minimum c \<and> i64 (cap_of i - sh_pools s i) \<ge> minimum c
      then \<lparr>sh_pools = (sh_pools s)(i := i64 (sh_pools s i + minimum c)),
            sh_accounts = (sh_accounts s)(c_id c := minimum c),
            sh_available = i64 (sh_available s - minimum c)\<rparr>
      else s)"

definition share_active :: "configs \<Rightarrow> (string \<Rightarrow> int64) \<Rightarrow> share_state \<Rightarrow> candidate \<Rightarrow> bool" where
  "share_active configs cap_of s c =
     (let i = sub2api_upstream_id (c_account c) in
      sh_accounts s (c_id c) > 0 \<and> sh_accounts s (c_id c) < global_maximum configs cap_of c \<and> sh_pools s i < cap_of i)"

definition grant_extra :: "(string \<Rightarrow> int64) \<Rightarrow> quotas \<Rightarrow> candidate \<Rightarrow> share_state \<times> int64 \<Rightarrow> share_state \<times> int64" where
  "grant_extra cap_of extra c st =
     (let (s, used) = st;
          i = sub2api_upstream_id (c_account c);
          increase = min (min (i64 (extra (c_id c) - 1)) (i64 (cap_of i - sh_pools s i))) (sh_available s)
      in (\<lparr>sh_pools = (sh_pools s)(i := i64 (sh_pools s i + increase)),
           sh_accounts = (sh_accounts s)(c_id c := i64 (sh_accounts s (c_id c) + increase)),
           sh_available = i64 (sh_available s - increase)\<rparr>, i64 (used + increase)))"

partial_function (option) share_rounds ::
  "configs \<Rightarrow> (string \<Rightarrow> int64) \<Rightarrow> candidate list \<Rightarrow> share_state \<Rightarrow> share_state option" where
  "share_rounds configs cap_of items s =
     (if \<not> sh_available s > 0 then Some s
      else
        let active = filter (share_active configs cap_of s) items in
        if active = [] then Some s
        else
          case bounded_concurrency_quotas active (i64 (sh_available s + int (length active)))
                 (\<lambda>c. (1, i64 (1 + min (i64 (global_maximum configs cap_of c - sh_accounts s (c_id c)))
                                       (i64 (cap_of (sub2api_upstream_id (c_account c)) -
                                             sh_pools s (sub2api_upstream_id (c_account c))))))) of
            None \<Rightarrow> None
          | Some extra \<Rightarrow>
              let (s, used) = fold (grant_extra cap_of extra) active (s, 0) in
              if used = 0 then Some s else share_rounds configs cap_of items s)"

definition pool_minimum :: "configs \<Rightarrow> (string \<Rightarrow> int64) \<Rightarrow> string \<Rightarrow> candidate list \<Rightarrow> int64 \<times> bool" where
  "pool_minimum configs cap_of i mates =
     (let total = total_capacity (global_minimum configs) mates in
      if total > cap_of i then (int (length mates), True) else (total, False))"

definition plan_global_upstream_shares ::
  "ordering \<Rightarrow> candidate list \<Rightarrow> configs \<Rightarrow> pools \<Rightarrow> scaling_budget \<Rightarrow> scaling_budget option" where
  "plan_global_upstream_shares order primary configs ps budget =
     (let planned = filter (globally_planned ps configs) primary;
          pool_id = (\<lambda>c. sub2api_upstream_id (c_account c));
          ids = remdups (map pool_id planned);
          group = (\<lambda>i. filter (\<lambda>c. pool_id c = i) planned);
          global_limit = fold (\<lambda>c m. min m (ec_scaling_global_max (configs (c_group c)))) planned max_int64
      in if length ids < 2 then Some budget
         else
           let selected = map c_id planned;
               available = max 0 (i64 (global_limit - reserved_outside budget selected));
               cap_of = pool_ceiling ps selected;
               items = order configs (concat (map group ids));
               minimum_total = fold (\<lambda>i t. saturating_capacity_add t (fst (pool_minimum configs cap_of i (group i)))) ids 0;
               minimum = (\<lambda>c. if \<not> minimum_total \<le> available then 1
                              else if snd (pool_minimum configs cap_of (pool_id c) (group (pool_id c))) then 1
                              else global_minimum configs c);
               first = fold (grant_minimum cap_of minimum) items
                 \<lparr>sh_pools = (\<lambda>_. 0), sh_accounts = (\<lambda>_. 0), sh_available = available\<rparr>
           in map_option (\<lambda>s. budget\<lparr>sb_upstream_shares := map (\<lambda>i. (i, sh_pools s i)) ids\<rparr>)
                (share_rounds configs cap_of items first))"

subsection \<open>The plan of an upstream stays within its limit\<close>

text \<open>What the target of an account lets it use: nothing while it is closed, the planned concurrency, or the
  one it has; an unknown one counts as unlimited, as everywhere in the code.\<close>

definition planned_use :: "candidate \<Rightarrow> int64" where
  "planned_use c =
     (if \<not> c_schedulable c then 0
      else (case c_desired_concurrency c of Some d \<Rightarrow> d | None \<Rightarrow> configured_capacity (c_account c)))"

lemma planned_use_note [simp]: "planned_use (append_concurrency_reason note c) = planned_use c"
  by (auto simp: planned_use_def append_concurrency_reason_def split: option.split)

lemma planned_use_limited [simp]: "planned_use (limit_concurrency note c) = 0"
  by (simp add: limit_concurrency_def planned_use_def append_concurrency_reason_def)

lemma concurrency_notes_simps [simp]:
  "c_account (append_concurrency_reason note c) = c_account c" "c_account (limit_concurrency note c) = c_account c"
  "c_schedulable (append_concurrency_reason note c) = c_schedulable c"
  "c_desired_concurrency (append_concurrency_reason note c) = c_desired_concurrency c"
  "c_upstream_allocation (append_concurrency_reason note c) = c_upstream_allocation c"
  by (simp_all add: limit_concurrency_def append_concurrency_reason_def)

text \<open>An account the plan of an upstream takes up: not planned yet, and what a running one may use is reserved.\<close>

definition pool_item :: "scaling_pool \<Rightarrow> candidate \<Rightarrow> bool" where
  "pool_item pool c \<longleftrightarrow>
     c_desired_concurrency c = None \<and>
     (acc_schedulable (c_account c) = Some False \<or> planned_use c \<le> capacity_of (sp_current pool) (c_id c))"

definition capacity_range :: "int64 \<Rightarrow> bool" where
  "capacity_range v \<longleftrightarrow> 0 \<le> v \<and> v \<le> max_int64"

lemma capacity_rangeD: "capacity_range v \<Longrightarrow> 0 \<le> v" "capacity_range v \<Longrightarrow> v \<le> max_int64"
  by (simp_all add: capacity_range_def)

lemma capacity_diff:
  assumes "capacity_range a" "capacity_range b"
  shows "i64 (a - b) = a - b"
  by (rule i64_id) (use assms in \<open>simp add: capacity_range_def int64_bounds\<close>)

definition pool_config :: "engine_config \<Rightarrow> bool" where
  "pool_config config \<longleftrightarrow>
     1 \<le> ec_scaling_min config \<and> ec_scaling_min config \<le> ec_scaling_max config \<and> capacity_range (ec_scaling_max config) \<and>
     capacity_range (ec_scaling_step_up config) \<and> capacity_range (ec_scaling_step_down config) \<and>
     capacity_range (ec_scaling_global_max config)"

text \<open>A bound on the global budget after the plan of some accounts; an exempt account lifts it.\<close>

definition global_cap :: "configs \<Rightarrow> candidate \<Rightarrow> int64" where
  "global_cap configs c =
     (if global_exempt (configs (c_group c)) c then max_int64 else ec_scaling_global_max (configs (c_group c)))"

text \<open>A step of the plan: what it adds to the totals covers what the account uses more than it did.\<close>

definition grows_by :: "int \<Rightarrow> int64 \<Rightarrow> int64 \<Rightarrow> int64 \<times> scaling_budget \<Rightarrow> int64 \<times> scaling_budget \<Rightarrow> bool" where
  "grows_by g limit global st st' \<longleftrightarrow>
     0 \<le> g \<and> fst st' = fst st + g \<and> (g > 0 \<longrightarrow> fst st' \<le> limit) \<and>
     sb_allocated (snd st) \<le> sb_allocated (snd st') \<and> sb_allocated (snd st') \<le> max (sb_allocated (snd st)) global"

definition totals_ok :: "int64 \<times> scaling_budget \<Rightarrow> bool" where
  "totals_ok st \<longleftrightarrow> capacity_range (fst st) \<and> capacity_range (sb_allocated (snd st))"

lemma grows_by_zero [simp]: "grows_by 0 limit global st st"
  by (simp add: grows_by_def)

lemma grows_by_add:
  assumes "totals_ok (a, b)" "0 \<le> g" "g > 0 \<Longrightarrow> a + g \<le> limit" "limit \<le> max_int64"
    and "g > 0 \<Longrightarrow> min max_int64 (sb_allocated b + g) \<le> global"
  shows "grows_by g limit global (a, b)
    (saturating_capacity_add a g, b\<lparr>sb_allocated := saturating_capacity_add (sb_allocated b) g\<rparr>)"
proof -
  have range: "0 \<le> a" "a \<le> max_int64" "0 \<le> sb_allocated b" "sb_allocated b \<le> max_int64" using assms(1) by (auto simp: totals_ok_def capacity_range_def)
  have g: "g \<le> max_int64" using assms(3,4) range(1) by (cases "g > 0") (auto simp: max_int64_def)
  have "a + g \<le> max_int64" using assms(2-4) range(2) by (cases "g > 0") auto
  then have "saturating_capacity_add a g = a + g" "saturating_capacity_add (sb_allocated b) g = min max_int64 (sb_allocated b + g)"
    using saturating_capacity_add_eq range assms(2) g by auto
  then show ?thesis using assms range by (cases "g = 0") (auto simp: grows_by_def)
qed

lemma grows_by_ok:
  "grows_by g limit global st st' \<Longrightarrow> totals_ok st \<Longrightarrow> limit \<le> max_int64 \<Longrightarrow> global \<le> max_int64 \<Longrightarrow> totals_ok st'"
  by (cases "g > 0") (auto simp: grows_by_def totals_ok_def capacity_range_def)

lemma grows_by_mono: "grows_by g limit global st st' \<Longrightarrow> global \<le> global' \<Longrightarrow> grows_by g limit global' st st'"
  by (auto simp: grows_by_def)

lemma grows_by_trans:
  "grows_by g limit global st st1 \<Longrightarrow> grows_by h limit global st1 st2 \<Longrightarrow> grows_by (g + h) limit global st st2"
  by (auto simp: grows_by_def)

lemma pool_recovery_grows:
  assumes ok: "totals_ok (allocated, budget)" "capacity_range limit" "capacity_range reserved" "0 \<le> cap" "cap \<le> max_int64"
    and c: "c_desired_concurrency c = None" and headroom: "headroom \<le> max 0 (limit - max 0 (allocated - reserved))"
    and recovery: "headroom \<le> max 0 (cap - max 0 (sb_allocated budget - reserved)) \<or> cap = max_int64"
    and run: "pool_recovery pool c config quota headroom reserved (allocated, budget) = (c', st')"
  shows "\<exists>g. grows_by g limit cap (allocated, budget) st' \<and> planned_use c' \<le> reserved + g \<and> c_account c' = c_account c"
proof (cases "st' = (allocated, budget) \<and> planned_use c' = 0 \<and> c_account c' = c_account c")
  case True
  then show ?thesis using ok(3) by (intro exI [of _ 0]) (simp add: capacity_range_def)
next
  case False
  obtain current where current: "acc_concurrency (c_account c) = Some current" and pos: "\<not> (current \<le> 0 \<or> current > quota)"
    and fit: "current \<le> headroom"
    and st': "st' = (saturating_capacity_add allocated (max 0 (i64 (current - reserved))),
      budget\<lparr>sb_allocated := saturating_capacity_add (sb_allocated budget) (max 0 (i64 (current - reserved)))\<rparr>)"
    and c': "c' = append_concurrency_reason (CN_Recovered current) c"
    using run False by (auto simp: pool_recovery_def Let_def split: option.splits if_splits)
  have range: "capacity_range current" "current > 0"
    using pos fit headroom ok(1,2) by (auto simp: capacity_range_def totals_ok_def)
  define g where "g = max 0 (current - reserved)"
  have diff: "max 0 (i64 (current - reserved)) = g" using capacity_diff [OF range(1) ok(3)] by (simp add: g_def)
  have "g > 0 \<Longrightarrow> allocated + g \<le> limit"
    using fit headroom range(2) ok(1,3) by (auto simp: g_def totals_ok_def capacity_range_def max_def split: if_splits)
  moreover have "g > 0 \<Longrightarrow> min max_int64 (sb_allocated budget + g) \<le> cap"
    using fit recovery range(2) ok(1,3) by (cases "cap = max_int64") (auto simp: g_def totals_ok_def capacity_range_def max_def split: if_splits)
  ultimately have "grows_by g limit cap (allocated, budget) st'"
    unfolding st' diff by (intro grows_by_add [OF ok(1)]) (use ok(2) in \<open>auto simp: g_def capacity_range_def\<close>)
  moreover have "planned_use c' \<le> reserved + g"
    using range(2) ok(3) c by (auto simp: c' planned_use_def configured_capacity_def current g_def capacity_range_def)
  ultimately show ?thesis by (auto simp: c')
qed

lemma step_concurrency_growth:
  assumes "capacity_range quota" "capacity_range current" "capacity_range upstream" "capacity_range global"
    and "capacity_range (ec_scaling_step_up config)" "capacity_range (ec_scaling_step_down config)"
    and "desired = step_concurrency config c quota current upstream global"
  shows "in_int64 desired" "desired > current \<Longrightarrow> desired - current \<le> upstream \<and> desired - current \<le> global \<and> desired \<le> quota"
proof -
  let ?inc = "min (min (min (i64 (quota - current)) (ec_scaling_step_up config)) upstream) global"
  have diff: "i64 (quota - current) = quota - current" using capacity_diff [OF assms(1,2)] .
  have inc: "i64 (current + ?inc) = current + ?inc" if "quota > current"
    unfolding diff by (rule i64_id) (use that assms(1-5) in \<open>auto simp: capacity_range_def in_int64_def min_int64_def\<close>)
  have down: "i64 (current - ec_scaling_step_down config) = current - ec_scaling_step_down config"
    using capacity_diff [OF assms(2,6)] .
  show "in_int64 desired"
    using inc assms(1-6) unfolding assms(7) step_concurrency_def down
    by (auto simp: in_int64_def capacity_range_def min_int64_def max_def diff)
  show "desired > current \<Longrightarrow> desired - current \<le> upstream \<and> desired - current \<le> global \<and> desired \<le> quota"
  proof (cases "quota > current")
    case True
    then have "desired = current \<or> desired = current + ?inc" using inc by (auto simp: assms(7) step_concurrency_def)
    moreover have "?inc \<le> quota - current" "?inc \<le> upstream" "?inc \<le> global" by (simp_all add: diff min.coboundedI1)
    ultimately show "desired > current \<Longrightarrow> ?thesis" by linarith
  next
    case False
    then have "desired \<le> current"
      using assms(2,6) by (auto simp: assms(7) step_concurrency_def down capacity_range_def)
    then show "desired > current \<Longrightarrow> ?thesis" by simp
  qed
qed

lemma pool_resize_grows:
  assumes ok: "totals_ok (allocated, budget)" "capacity_range limit" "capacity_range current" "capacity_range quota"
    and steps: "capacity_range (ec_scaling_step_up config)" "capacity_range (ec_scaling_step_down config)"
    and headroom: "capacity_range upstream" "upstream \<le> max 0 (limit - allocated)"
      "capacity_range global" "global \<le> max 0 (cap - sb_allocated budget) \<or> cap = max_int64"
    and use: "planned_use c \<le> current"
    and run: "pool_resize pool c config quota current upstream global (allocated, budget) = (c', st')"
  shows "\<exists>g. grows_by g limit cap (allocated, budget) st' \<and> planned_use c' \<le> current + g \<and> c_account c' = c_account c"
proof -
  define desired where "desired = step_concurrency config c quota current upstream global"
  note growth = step_concurrency_growth [OF ok(4,3) headroom(1,3) steps desired_def]
  define g where "g = max 0 (desired - current)"
  have st': "st' = (if desired > current
      then (saturating_capacity_add allocated (i64 (desired - current)),
            budget\<lparr>sb_allocated := saturating_capacity_add (sb_allocated budget) (i64 (desired - current))\<rparr>)
      else (allocated, budget))"
    and c': "c' = append_concurrency_reason (CN_Assigned quota desired)
      (if acc_concurrency (c_account c) \<noteq> Some desired then c\<lparr>c_desired_concurrency := Some desired\<rparr> else c)"
    using run by (auto simp: pool_resize_def Let_def desired_def [symmetric])
  have "grows_by g limit cap (allocated, budget) st'"
  proof (cases "desired > current")
    case True
    have "capacity_range desired" using True growth(1) ok(3) by (simp add: in_int64_def capacity_range_def)
    then have diff: "i64 (desired - current) = g" using True ok(3) by (simp add: capacity_diff g_def)
    have "grows_by g limit cap (allocated, budget)
      (saturating_capacity_add allocated g, budget\<lparr>sb_allocated := saturating_capacity_add (sb_allocated budget) g\<rparr>)"
      by (rule grows_by_add [OF ok(1)]) (use True growth(2) headroom(2,4) ok(2) in \<open>auto simp: g_def capacity_range_def\<close>)
    then show ?thesis using True by (simp add: st' diff)
  qed (simp add: st' g_def)
  moreover have "planned_use c' \<le> current + g"
    using use ok(3) by (auto simp: c' planned_use_def g_def capacity_range_def split: option.split if_splits)
  ultimately show ?thesis by (auto simp: c')
qed

lemma pool_grant_grows:
  assumes ok: "totals_ok (allocated, budget)" "capacity_range limit" "pool_config (configs (c_group c))"
    and current: "capacity_range (capacity_of (sp_current pool) (c_id c))" and quota: "capacity_range (quotas (c_id c))"
    and item: "pool_item pool c"
    and run: "pool_grant pool configs limit quotas c (allocated, budget) = (c', st')"
  shows "\<exists>g. grows_by g limit (global_cap configs c) (allocated, budget) st' \<and>
    planned_use c' \<le> capacity_of (sp_current pool) (c_id c) + g \<and> c_account c' = c_account c"
proof -
  let ?config = "configs (c_group c)"
  let ?current = "capacity_of (sp_current pool) (c_id c)"
  define c1 where "c1 = (if quotas (c_id c) < ec_scaling_min ?config then c\<lparr>c_concurrency_issue := True\<rparr> else c)"
  define c2 where "c2 = (if sp_stale pool then append_concurrency_reason CN_Stale c1 else c1)"
  have same: "c_account c2 = c_account c" "c_account c1 = c_account c" "c_desired_concurrency c2 = c_desired_concurrency c" "planned_use c2 = planned_use c"
    "global_exempt ?config c1 = global_exempt ?config c"
    by (auto simp: c2_def c1_def planned_use_def global_exempt_def split: option.split)
  note steps = run [unfolded pool_grant_def Let_def prod.case, folded c1_def, folded c2_def, unfolded same]
  have range: "0 \<le> allocated" "allocated \<le> max_int64" "0 \<le> sb_allocated budget" "sb_allocated budget \<le> max_int64"
    using ok(1) by (auto simp: totals_ok_def capacity_range_def)
  have g: "capacity_range (ec_scaling_global_max ?config)" using ok(3) by (simp add: pool_config_def)
  have diffs: "i64 (limit - allocated) = limit - allocated" "i64 (allocated - ?current) = allocated - ?current"
    "i64 (sb_allocated budget - ?current) = sb_allocated budget - ?current"
    "i64 (ec_scaling_global_max ?config - sb_allocated budget) = ec_scaling_global_max ?config - sb_allocated budget"
    using capacity_diff ok(2) current range g by (auto simp: capacity_range_def)
  have rest: "i64 (v - max 0 (w - ?current)) = v - max 0 (w - ?current)" if "capacity_range v" "capacity_range w" for v w
    by (rule capacity_diff) (use that current in \<open>auto simp: capacity_range_def\<close>)
  have ranges: "capacity_range allocated" "capacity_range (sb_allocated budget)" using range by (simp_all add: capacity_range_def)
  note rests = rest [OF g ranges(2)] rest [OF ok(2) ranges(1)]
  have cap: "0 \<le> global_cap configs c" "global_cap configs c \<le> max_int64"
    using g by (auto simp: global_cap_def capacity_range_def max_int64_def)
  show ?thesis
  proof (cases "acc_schedulable (c_account c) = Some False")
    case closed: True
    let ?recovery = "if global_exempt ?config c then max_int64
      else max 0 (ec_scaling_global_max ?config - max 0 (sb_allocated budget - ?current))"
    let ?headroom = "min (max 0 (limit - max 0 (allocated - ?current))) ?recovery"
    show ?thesis
    proof (cases "sp_stale pool \<or> ?recovery = 0")
      case True
      then have "st' = (allocated, budget) \<and> planned_use c' = 0 \<and> c_account c' = c_account c"
        using steps closed unfolding diffs rests by (auto simp: same split: if_splits)
      then show ?thesis using current by (intro exI [of _ 0]) (simp add: capacity_range_def)
    next
      case False
      then have open_recovery: "\<not> sp_stale pool" "?recovery \<noteq> 0" by blast+
      have "pool_recovery pool c2 ?config (min (quotas (c_id c)) ?recovery) ?headroom ?current (allocated, budget) = (c', st')"
        using steps closed open_recovery unfolding diffs rests by (simp only: if_True if_False simp_thms)
      moreover have "?headroom \<le> max 0 (global_cap configs c - max 0 (sb_allocated budget - ?current)) \<or> global_cap configs c = max_int64"
        by (simp add: global_cap_def)
      moreover have "c_desired_concurrency c2 = None" using item by (simp add: pool_item_def same)
      ultimately show ?thesis
        using pool_recovery_grows [OF ok(1,2) current cap, of c2 ?headroom] same(1) by simp
    qed
  next
    case False
    let ?upstream = "if sp_stale pool then 0 else max 0 (limit - allocated)"
    let ?global = "if global_exempt ?config c then max_int64 else max 0 (ec_scaling_global_max ?config - sb_allocated budget)"
    have run: "pool_resize pool c2 ?config (quotas (c_id c)) ?current ?upstream ?global (allocated, budget) = (c', st')"
      using steps False unfolding diffs by (simp only: if_False simp_thms)
    have steps: "capacity_range (ec_scaling_step_up ?config)" "capacity_range (ec_scaling_step_down ?config)"
      using ok(3) by (simp_all add: pool_config_def)
    have headroom: "capacity_range ?upstream" "?upstream \<le> max 0 (limit - allocated)" "capacity_range ?global"
      "?global \<le> max 0 (global_cap configs c - sb_allocated budget) \<or> global_cap configs c = max_int64"
      using range ok(2) g by (auto simp: capacity_range_def global_cap_def max_int64_def)
    have "planned_use c2 \<le> ?current" using item False by (simp add: pool_item_def same)
    from pool_resize_grows [OF ok(1,2) current quota steps headroom this run] show ?thesis using same(1) by simp
  qed
qed

lemma pool_grants_grows:
  assumes "totals_ok st" "capacity_range limit" "cap \<le> max_int64"
    and "\<forall>c \<in> set cs. pool_config (configs (c_group c)) \<and> capacity_range (capacity_of (sp_current pool) (c_id c)) \<and>
      capacity_range (quotas (c_id c)) \<and> pool_item pool c \<and> global_cap configs c \<le> cap"
    and "pool_grants pool configs limit quotas cs st = (cs', st')"
  shows "\<exists>g. grows_by g limit cap st st' \<and>
    sum_list (map planned_use cs') \<le> sum_list (map (\<lambda>c. capacity_of (sp_current pool) (c_id c)) cs) + g \<and>
    map c_account cs' = map c_account cs"
  using assms(1,4,5)
proof (induction cs arbitrary: st cs' st')
  case Nil
  then show ?case by (intro exI [of _ 0]) simp
next
  case (Cons c cs)
  obtain c1 st1 where first: "pool_grant pool configs limit quotas c st = (c1, st1)" by (metis surj_pair)
  obtain cs2 st2 where rest: "pool_grants pool configs limit quotas cs st1 = (cs2, st2)" by (metis surj_pair)
  have out: "cs' = c1 # cs2" "st' = st2" using Cons.prems(3) first rest by simp_all
  obtain g where g: "grows_by g limit (global_cap configs c) st st1"
    "planned_use c1 \<le> capacity_of (sp_current pool) (c_id c) + g" "c_account c1 = c_account c"
    using pool_grant_grows [of "fst st" "snd st" limit configs c pool quotas c1 st1] Cons.prems(1,2) first assms(2) by auto
  have g': "grows_by g limit cap st st1" by (rule grows_by_mono [OF g(1)]) (use Cons.prems(2) in simp)
  have ok: "totals_ok st1" by (rule grows_by_ok [OF g' Cons.prems(1)]) (use assms(2,3) in \<open>simp_all add: capacity_range_def\<close>)
  obtain h where "grows_by h limit cap st1 st2"
    "sum_list (map planned_use cs2) \<le> sum_list (map (\<lambda>c. capacity_of (sp_current pool) (c_id c)) cs) + h"
    "map c_account cs2 = map c_account cs"
    using Cons.IH [OF ok _ rest] Cons.prems(2) by auto
  then show ?case using grows_by_trans [OF g'] g(2,3) by (intro exI [of _ "g + h"]) (auto simp: out)
qed

lemma sum_capacities_eq:
  "list_all (\<lambda>e. capacity_range (snd e)) m \<Longrightarrow> sum_capacities m = min max_int64 (sum_list (map snd m))"
  unfolding sum_capacities_def using fold_saturating [of m snd 0] by (simp add: list_all_iff capacity_range_def max_int64_def)

lemma capacities_split:
  assumes "distinct (map fst m)" "distinct is" "set is \<subseteq> fst ` set m"
  shows "sum_list (map (capacity_of m) is) + sum_list (map snd (outside is m)) = sum_list (map snd m)"
proof -
  have dist: "distinct m" "inj_on fst (set m)" using assms(1) by (auto simp: distinct_map)
  have at: "capacity_of m (fst e) = snd e" if "e \<in> set m" for e
    using map_of_is_SomeI [OF assms(1), of "fst e" "snd e"] that by (simp add: capacity_of_def)
  have sums: "sum_list (map snd (filter P m)) = sum (capacity_of m) (fst ` {e \<in> set m. P e})" for P
  proof -
    have "sum_list (map snd (filter P m)) = sum snd {e \<in> set m. P e}"
      using dist(1) by (simp add: sum_list_distinct_conv_sum_set)
    also have "\<dots> = sum (\<lambda>e. capacity_of m (fst e)) {e \<in> set m. P e}" by (rule sum.cong) (auto simp: at)
    also have "\<dots> = sum (capacity_of m) (fst ` {e \<in> set m. P e})"
      by (subst sum.reindex) (auto intro: inj_on_subset [OF dist(2)])
    finally show ?thesis .
  qed
  have "fst ` {e \<in> set m. fst e \<notin> set is} = fst ` set m - set is" by auto
  then have "sum_list (map snd (outside is m)) = sum (capacity_of m) (fst ` set m - set is)"
    unfolding outside_def sums [of "\<lambda>e. fst e \<notin> set is"] by simp
  moreover have "sum_list (map snd m) = sum (capacity_of m) (fst ` set m)" using sums [of "\<lambda>_. True"] by simp
  moreover have "sum_list (map (capacity_of m) is) = sum (capacity_of m) (set is)"
    using assms(2) by (simp add: sum_list_distinct_conv_sum_set)
  moreover have "sum (capacity_of m) (fst ` set m) = sum (capacity_of m) (set is) + sum (capacity_of m) (fst ` set m - set is)"
    using assms(3) by (simp add: sum.subset_diff add.commute)
  ultimately show ?thesis by simp
qed

definition pool_total :: "scaling_pool \<Rightarrow> int" where
  "pool_total pool = sum_list (map snd (sp_current pool))"

text \<open>What the accounts of the pool may use once the planned targets apply: the planned accounts what their
  targets say, the others what is reserved for them.\<close>

definition pool_use :: "scaling_pool \<Rightarrow> candidate list \<Rightarrow> int" where
  "pool_use pool items = sum_list (map snd (outside (map c_id items) (sp_current pool))) + sum_list (map planned_use items)"

definition items_cap :: "configs \<Rightarrow> candidate list \<Rightarrow> int64" where
  "items_cap configs items = fold (\<lambda>c m. max m (global_cap configs c)) items 0"

lemma items_cap_ge: "c \<in> set items \<Longrightarrow> global_cap configs c \<le> items_cap configs items"
proof -
  have "m \<le> fold (\<lambda>c m. max m (global_cap configs c)) xs m \<and>
    (c \<in> set xs \<longrightarrow> global_cap configs c \<le> fold (\<lambda>c m. max m (global_cap configs c)) xs m)" for xs m
    by (induction xs arbitrary: m) (auto intro: order_trans [OF max.cobounded1] order_trans [OF max.cobounded2])
  then show "c \<in> set items \<Longrightarrow> global_cap configs c \<le> items_cap configs items" by (simp add: items_cap_def)
qed

lemma items_cap_le:
  assumes "\<And>c. c \<in> set items \<Longrightarrow> ec_scaling_global_max (configs (c_group c)) \<le> max_int64"
  shows "items_cap configs items \<le> max_int64"
  unfolding items_cap_def by (rule fold_invariant) (use assms in \<open>auto simp: global_cap_def max_int64_def\<close>)

text \<open>What the callers pass: accounts of the pool, once each, under policies as they are accepted.\<close>

definition pool_ready :: "scaling_pool \<Rightarrow> candidate list \<Rightarrow> configs \<Rightarrow> scaling_budget \<Rightarrow> bool" where
  "pool_ready pool items configs budget \<longleftrightarrow>
     distinct (map fst (sp_current pool)) \<and> list_all (\<lambda>e. capacity_range (snd e)) (sp_current pool) \<and>
     distinct (map c_id items) \<and>
     list_all (\<lambda>c. c_id c \<in> set (map fst (sp_current pool)) \<and> pool_item pool c \<and> pool_config (configs (c_group c)) \<and>
       0 \<le> c_weight c \<and> representable (c_weight c)) items \<and>
     sum_list (map (\<lambda>c. ec_scaling_max (configs (c_group c))) items) \<le> 2 ^ 53 \<and>
     capacity_range (sb_allocated budget) \<and> capacity_range (effective_limit pool)"

lemma pool_use_keeps:
  assumes "pool_ready pool items configs budget" "map c_account items' = map c_account items"
    and "sum_list (map planned_use items') \<le> sum_list (map (\<lambda>c. capacity_of (sp_current pool) (c_id c)) items) + g"
  shows "pool_use pool items' \<le> pool_total pool + g"
proof -
  have "map acc_id (map c_account items') = map acc_id (map c_account items)" using assms(2) by (rule arg_cong)
  then have ids: "map c_id items' = map c_id items" by (simp add: comp_def)
  have "sum_list (map (capacity_of (sp_current pool)) (map c_id items)) +
    sum_list (map snd (outside (map c_id items) (sp_current pool))) = pool_total pool"
    unfolding pool_total_def by (rule capacities_split) (use assms(1) in \<open>auto simp: pool_ready_def list_all_iff\<close>)
  then show ?thesis using assms(3) unfolding pool_use_def ids by (simp add: comp_def)
qed

lemma sum_prefix_le:
  fixes f :: "'a \<Rightarrow> int"
  assumes "\<And>x. x \<in> set xs \<Longrightarrow> 0 \<le> f x"
  shows "sum_list (map f (take n xs)) \<le> sum_list (map f xs)"
proof -
  have "sum_list (map f xs) = sum_list (map f (take n xs)) + sum_list (map f (drop n xs))"
    by (metis append_take_drop_id map_append sum_list_append)
  moreover have "0 \<le> sum_list (map f (drop n xs))"
    by (rule sum_list_nonneg) (use assms in \<open>auto dest: in_set_dropD\<close>)
  ultimately show ?thesis by simp
qed

lemma pool_quotas_return:
  assumes ready: "pool_ready pool items configs budget" and n: "n = nat (min (int (length items)) available)"
    and "take n items \<noteq> []" "available \<le> max_int64"
  shows "\<exists>q. upstream_concurrency_quotas (take n items) configs available = Some q \<and>
    (\<forall>c \<in> set (take n items). capacity_range (q (c_id c)))"
proof -
  let ?bounds = "\<lambda>c. (ec_scaling_min (configs (c_group c)), ec_scaling_max (configs (c_group c)))"
  let ?eligible = "take n items"
  have item: "pool_config (configs (c_group c)) \<and> 0 \<le> c_weight c \<and> representable (c_weight c)" if "c \<in> set items" for c
    using ready that by (auto simp: pool_ready_def list_all_iff)
  have sub: "set ?eligible \<subseteq> set items" by (rule set_take_subset)
  have "sum_maximum ?bounds ?eligible \<le> sum_maximum ?bounds items"
    unfolding sum_maximum_def by (rule sum_prefix_le) (use item in \<open>auto simp: pool_config_def capacity_range_def\<close>)
  also have "\<dots> \<le> 2 ^ 53" using ready by (simp add: pool_ready_def sum_maximum_def)
  finally have small: "min available (sum_maximum ?bounds ?eligible) \<le> 2 ^ 53" by simp
  have "distinct (map c_id ?eligible)" using ready by (simp add: pool_ready_def take_map [symmetric])
  moreover have "int (length ?eligible) \<le> available" using assms(3) unfolding n by (cases "available \<le> 0") auto
  ultimately have "quota_input ?eligible available ?bounds"
    using item sub small assms(4)
    by (auto simp: quota_input_def quota_items_def list_all_iff pool_config_def capacity_range_def)
  from quota_distribution [OF this refl] obtain q where q: "bounded_concurrency_quotas ?eligible available ?bounds = Some q"
    and bounds: "list_all (\<lambda>c. (if sum_minimum ?bounds ?eligible \<le> min available (sum_maximum ?bounds ?eligible) then fst (?bounds c) else 1)
      \<le> q (c_id c) \<and> q (c_id c) \<le> snd (?bounds c)) ?eligible" by blast
  have "capacity_range (q (c_id c))" if "c \<in> set ?eligible" for c
  proof -
    have "pool_config (configs (c_group c))" using item sub that by blast
    moreover have "1 \<le> q (c_id c) \<or> ec_scaling_min (configs (c_group c)) \<le> q (c_id c)" "q (c_id c) \<le> ec_scaling_max (configs (c_group c))"
      using bounds that by (auto simp: list_all_iff split: if_splits)
    ultimately show ?thesis by (auto simp: pool_config_def capacity_range_def)
  qed
  then show ?thesis using q by (auto simp: upstream_concurrency_quotas_def)
qed

text \<open>The outcome of a plan: it comes back, touches no account row, keeps the upstream within its limit (or
  within what was reserved, if that was more) and the global budget within its bound.\<close>

definition plan_fits :: "scaling_pool \<Rightarrow> candidate list \<Rightarrow> configs \<Rightarrow> scaling_budget \<Rightarrow>
    candidate list \<times> scaling_budget \<Rightarrow> bool" where
  "plan_fits pool items configs budget out \<longleftrightarrow>
     map c_account (fst out) = map c_account items \<and>
     pool_use pool (fst out) \<le> max (pool_total pool) (effective_limit pool) \<and>
     sb_allocated (snd out) \<le> max (sb_allocated budget) (items_cap configs items)"

lemma pool_item_use:
  assumes "pool_ready pool items configs budget" "c \<in> set items"
  shows "0 \<le> capacity_of (sp_current pool) (c_id c)" "capacity_range (capacity_of (sp_current pool) (c_id c))"
    "acc_schedulable (c_account c) = Some False \<or> planned_use c \<le> capacity_of (sp_current pool) (c_id c)"
proof -
  obtain v where "map_of (sp_current pool) (c_id c) = Some v" "(c_id c, v) \<in> set (sp_current pool)"
    using assms by (fastforce simp: pool_ready_def list_all_iff)
  then show range: "capacity_range (capacity_of (sp_current pool) (c_id c))"
    using assms(1) by (auto simp: capacity_of_def pool_ready_def list_all_iff)
  then show "0 \<le> capacity_of (sp_current pool) (c_id c)" by (simp add: capacity_range_def)
  show "acc_schedulable (c_account c) = Some False \<or> planned_use c \<le> capacity_of (sp_current pool) (c_id c)"
    using assms by (auto simp: pool_ready_def list_all_iff pool_item_def)
qed

lemma pool_hold_fits:
  assumes ready: "pool_ready pool items configs budget" and "pool_unconfirmed pool"
  shows "\<exists>out. pool_apply pool items configs budget = Some out \<and> plan_fits pool items configs budget out"
proof -
  let ?hold = "\<lambda>c. if \<not> remote_schedulable (c_account c) then limit_concurrency CN_Limit_Unknown c
    else append_concurrency_reason CN_Limit_Unknown c"
  have one: "planned_use (?hold c) \<le> capacity_of (sp_current pool) (c_id c)" if "c \<in> set items" for c
    using pool_item_use [OF ready that] by (auto simp: remote_schedulable_def)
  have same: "map c_account (map ?hold items) = map c_account items" by simp
  have "sum_list (map planned_use (map ?hold items)) \<le> sum_list (map (\<lambda>c. capacity_of (sp_current pool) (c_id c)) items) + 0"
    unfolding map_map add_0_right comp_def by (rule sum_list_map_le) (rule one)
  from pool_use_keeps [OF ready same this] have "pool_use pool (map ?hold items) \<le> pool_total pool" by simp
  then have "plan_fits pool items configs budget (map ?hold items, budget)"
    unfolding plan_fits_def fst_conv snd_conv using same by simp
  then show ?thesis using assms(2) unfolding pool_apply_def by auto
qed

lemma pool_apply_fits:
  assumes ready: "pool_ready pool items configs budget"
  shows "\<exists>out. pool_apply pool items configs budget = Some out \<and> plan_fits pool items configs budget out"
proof (cases "pool_unconfirmed pool")
  case True
  then show ?thesis by (rule pool_hold_fits [OF ready])
next
  case False
  define limit where "limit = effective_limit pool"
  define allocated where "allocated = sum_capacities (sp_current pool)"
  define reserved where "reserved = sum_capacities (outside (map c_id items) (sp_current pool))"
  define available where "available = pool_available pool configs items budget limit reserved"
  define n where "n = nat (min (int (length items)) available)"
  define waiting where "waiting = map (limit_concurrency (waiting_note configs items budget limit reserved available)) (drop n items)"
  have limit: "capacity_range limit" using ready by (simp add: limit_def pool_ready_def)
  have "list_all (\<lambda>e. capacity_range (snd e)) (sp_current pool)" using ready by (simp add: pool_ready_def)
  then have total: "allocated = min max_int64 (pool_total pool)" "0 \<le> pool_total pool"
    unfolding allocated_def pool_total_def
    by (auto simp: sum_capacities_eq list_all_iff capacity_range_def intro!: sum_list_nonneg)
  have ok: "totals_ok (allocated, budget)"
    using total ready by (auto simp: totals_ok_def pool_ready_def capacity_range_def max_int64_def)
  have "i64 (limit - reserved) \<le> max_int64" using i64_range [of "limit - reserved"] by (simp add: in_int64_def)
  then have available_le: "available \<le> max_int64"
    unfolding available_def pool_available_def Let_def by (auto simp: max_int64_def min.coboundedI1 split: option.split)
  have wait: "sum_list (map planned_use waiting) = 0" "map c_account waiting = map c_account (drop n items)"
    by (rule sum_list_map_zero) (auto simp: waiting_def)
  have run: "pool_apply pool items configs budget =
    (if take n items = [] then Some (waiting, budget)
     else case upstream_concurrency_quotas (take n items) configs available of
       None \<Rightarrow> None
     | Some quotas \<Rightarrow> (let (granted, allocated, budget) = pool_grants pool configs limit quotas (take n items) (allocated, budget)
         in Some (granted @ waiting, budget)))"
    using False by (simp only: pool_apply_def Let_def limit_def [symmetric] allocated_def [symmetric] reserved_def [symmetric]
        available_def [symmetric] n_def [symmetric] waiting_def [symmetric] if_False)
  have sums: "sum_list (map (\<lambda>c. capacity_of (sp_current pool) (c_id c)) (take n items)) \<le>
    sum_list (map (\<lambda>c. capacity_of (sp_current pool) (c_id c)) items)"
    by (rule sum_prefix_le) (rule pool_item_use(1) [OF ready])
  show ?thesis
  proof (cases "take n items = []")
    case True
    have accounts: "map c_account waiting = map c_account items" using wait(2) append_take_drop_id [of n items] True by simp
    have "sum_list (map planned_use waiting) \<le> sum_list (map (\<lambda>c. capacity_of (sp_current pool) (c_id c)) items) + 0"
      using wait(1) sums True by simp
    from pool_use_keeps [OF ready accounts this] show ?thesis using True accounts by (simp add: run plan_fits_def)
  next
    case some: False
    obtain q where q: "upstream_concurrency_quotas (take n items) configs available = Some q"
      "\<forall>c \<in> set (take n items). capacity_range (q (c_id c))"
      using pool_quotas_return [OF ready n_def some available_le] by blast
    obtain granted st where grants: "pool_grants pool configs limit q (take n items) (allocated, budget) = (granted, st)" by (metis surj_pair)
    have cap: "items_cap configs items \<le> max_int64"
      by (rule items_cap_le) (use ready in \<open>auto simp: pool_ready_def list_all_iff pool_config_def capacity_range_def\<close>)
    have "\<forall>c \<in> set (take n items). pool_config (configs (c_group c)) \<and> capacity_range (capacity_of (sp_current pool) (c_id c)) \<and>
      capacity_range (q (c_id c)) \<and> pool_item pool c \<and> global_cap configs c \<le> items_cap configs items"
      using q(2) ready pool_item_use(2) [OF ready] items_cap_ge by (auto simp: pool_ready_def list_all_iff dest!: in_set_takeD)
    from pool_grants_grows [OF ok limit cap this grants] obtain g where g: "grows_by g limit (items_cap configs items) (allocated, budget) st"
      "sum_list (map planned_use granted) \<le> sum_list (map (\<lambda>c. capacity_of (sp_current pool) (c_id c)) (take n items)) + g"
      "map c_account granted = map c_account (take n items)" by blast
    have accounts: "map c_account (granted @ waiting) = map c_account items"
      using g(3) wait(2) by (metis append_take_drop_id map_append)
    have "sum_list (map planned_use (granted @ waiting)) \<le> sum_list (map (\<lambda>c. capacity_of (sp_current pool) (c_id c)) items) + g"
      using g(2) wait(1) sums by simp
    from pool_use_keeps [OF ready accounts this] have use: "pool_use pool (granted @ waiting) \<le> pool_total pool + g" .
    have "pool_total pool + g \<le> max (pool_total pool) limit"
      using g(1) total limit by (cases "g > 0") (auto simp: grows_by_def capacity_range_def min_def split: if_splits)
    then have "plan_fits pool items configs budget (granted @ waiting, snd st)"
      using use accounts g(1) by (simp add: plan_fits_def limit_def grows_by_def)
    moreover have "pool_apply pool items configs budget = Some (granted @ waiting, snd st)"
      using some by (simp add: run q(1) grants split: prod.split)
    ultimately show ?thesis by blast
  qed
qed

text \<open>C36: the plan of an upstream comes back and stays within the limit. Whatever accounts share it, their
  targets together with what is reserved for the others add up to no more than the limit of the
  upstream, or than what was reserved before if that was more: a planned reduction never funds an
  increase. The global budget stays within its bound in the same way, except that an account of a
  shared upstream without global scaling is exempt from it.\<close>

theorem pool_plan_within_limit:
  assumes "pool_ready pool items configs budget"
  shows "\<exists>items' budget'. pool_apply pool items configs budget = Some (items', budget') \<and>
    map c_account items' = map c_account items \<and>
    pool_use pool items' \<le> max (pool_total pool) (effective_limit pool) \<and>
    sb_allocated budget' \<le> max (sb_allocated budget) (items_cap configs items)"
  using pool_apply_fits [OF assms] by (force simp: plan_fits_def)

definition sample_running :: "string \<Rightarrow> rat \<Rightarrow> candidate" where
  "sample_running i w = (plain_candidate ((plain_account i ''g'')\<lparr>acc_concurrency := Some 2\<rparr>))\<lparr>c_weight := w\<rparr>"

definition sample_upstream :: scaling_pool where
  "sample_upstream =
     \<lparr>sp_id = ''u'', sp_limit = Some 7, sp_accounts = [], sp_current = [(''1'', 2), (''2'', 2), (''3'', 1)],
      sp_unknown = False, sp_stale = False\<rparr>"

definition sample_scaling :: engine_config where
  "sample_scaling =
     plain_config\<lparr>ec_scaling_enabled := True, ec_scaling_min := 1, ec_scaling_max := 5, ec_scaling_step_up := 3,
       ec_scaling_step_down := 1, ec_scaling_global_max := 9\<rparr>"

definition sample_budget :: scaling_budget where
  "sample_budget = \<lparr>sb_upstream_shares = [], sb_reservations = [], sb_initial = 5, sb_allocated = 5\<rparr>"

theorem pool_plan_within_limit_witness:
  "\<exists>items' budget'. pool_apply sample_upstream [sample_running ''1'' 3, sample_running ''2'' 1] (\<lambda>_. sample_scaling) sample_budget =
      Some (items', budget') \<and>
    pool_use sample_upstream items' \<le> 7 \<and> sb_allocated budget' \<le> 9"
proof -
  have "pool_ready sample_upstream [sample_running ''1'' 3, sample_running ''2'' 1] (\<lambda>_. sample_scaling) sample_budget"
    using representable_int [of 3] representable_int [of 1]
    by (simp add: pool_ready_def sample_upstream_def sample_running_def sample_scaling_def sample_budget_def plain_candidate_def
        plain_account_def plain_config_def capacity_range_def pool_item_def pool_config_def planned_use_def
        configured_capacity_def capacity_of_def effective_limit_def max_int64_def)
  from pool_plan_within_limit [OF this] show ?thesis
    by (auto simp: pool_total_def sample_upstream_def effective_limit_def items_cap_def global_cap_def global_exempt_def
        sample_running_def sample_budget_def sample_scaling_def plain_candidate_def)
qed

end
