(* ===== verification/Assignment.thy ===== *)
theory Assignment
  imports Pools
begin

text \<open>
  The account-level plan of a round (routing/service.go, \<open>assignAccountPlacements\<close>): one weight per
  account, the group that owns it, ranks and priorities, load factors, concurrency; and its composition
  with the weights before it and the final states after it (\<open>finalizeAccountStates\<close>).
\<close>

subsection \<open>Weights and load\<close>

definition average_weight :: "candidate list \<Rightarrow> rat" where
  "average_weight memberships =
     fdiv (fold (\<lambda>c t. fadd t (c_weight c)) memberships 0) (fl (of_int (int (length memberships))))"

definition reset_placement :: "round \<Rightarrow> candidate \<Rightarrow> candidate" where
  "reset_placement cs c =
     c\<lparr>c_weight := average_weight (account_members (c_id c) cs), c_rank := None, c_desired_priority := None,
       c_desired_load := None, c_desired_concurrency := None\<rparr>"

text \<open>The candidate of the owning group, for every account of the round.\<close>

definition primaries :: "round \<Rightarrow> candidate list" where
  "primaries cs = List.map_filter (\<lambda>a. primary_membership (account_members a cs)) (remdups (map c_id cs))"

text \<open>The memberships of an account with more than one; its primary candidate stands for itself.\<close>

definition placement_memberships :: "round \<Rightarrow> candidate \<Rightarrow> candidate list" where
  "placement_memberships cs c =
     (let ms = account_members (c_id c) cs in
      if length ms > 1 then map (\<lambda>m. if c_group m = c_group c then c else m) ms else [])"

definition load_factor :: "engine_config \<Rightarrow> nat \<Rightarrow> candidate \<Rightarrow> int64" where
  "load_factor config n c =
     (let average = fdiv (fl (of_int (ec_weight_budget config))) (fl (of_int (int n)));
          scale = (if average > 0 then fdiv (c_weight c) average else 1);
          midpoint = max 1 (fdiv (fl (of_int (i64 (ec_min_load_factor config + ec_max_load_factor config)))) 2);
          desired = int_of_float (of_int (math_round (fmul scale midpoint)));
          desired =
            (if c_state c = ''degraded'' \<and> \<not> c_evidence_pending c
             then max (ec_degrade_min_load config)
                    (int_of_float (of_int (math_round (fmul (fl (of_int desired)) (ec_degrade_load_ratio config)))))
             else if c_state c = ''survivor'' then ec_min_load_factor config
             else desired)
      in min (ec_max_load_factor config) (max (ec_min_load_factor config) desired))"

definition assign_load :: "engine_config \<Rightarrow> nat \<Rightarrow> candidate \<Rightarrow> candidate" where
  "assign_load config n c =
     (if ec_weights_enabled config \<and> placement_load_factor_eligible c
      then c\<lparr>c_desired_load := Some (int_text (load_factor config n c))\<rparr> else c)"

subsection \<open>The groups\<close>

definition place_group :: "go_env \<Rightarrow> configs \<Rightarrow> (candidate \<Rightarrow> candidate list) \<Rightarrow> pools \<Rightarrow> string \<Rightarrow>
    candidate list \<times> scaling_budget \<Rightarrow> (candidate list \<times> scaling_budget \<times> bool) option" where
  "place_group env configs memberships ps g st =
     (let (primary, budget) = st;
          owned = filter (\<lambda>c. c_group c = g) primary;
          config = configs g
      in if owned = [] then Some (primary, budget, False)
         else
           case assign_stable_priorities config (sort_owned_with_hysteresis env configs memberships config owned) of
             None \<Rightarrow> None
           | Some placed_items \<Rightarrow>
               let loaded = map (assign_load config (length owned)) placed_items;
                   legacy = filter (\<lambda>c. \<not> pools_manage ps (c_account c)) loaded;
                   (scaled, budget, short) = apply_scaling_with_budget legacy config budget
               in Some (put_back scaled (put_back loaded primary), budget, short))"

fun place_groups :: "go_env \<Rightarrow> configs \<Rightarrow> (candidate \<Rightarrow> candidate list) \<Rightarrow> pools \<Rightarrow> string list \<Rightarrow>
    candidate list \<times> scaling_budget \<Rightarrow> (candidate list \<times> scaling_budget \<times> bool) option" where
  "place_groups env configs memberships ps [] st = Some (fst st, snd st, False)"
| "place_groups env configs memberships ps (g # gs) st =
     (case place_group env configs memberships ps g st of
        None \<Rightarrow> None
      | Some (primary, budget, short) \<Rightarrow>
          (case place_groups env configs memberships ps gs (primary, budget) of
             None \<Rightarrow> None
           | Some (primary, budget, shorts) \<Rightarrow> Some (primary, budget, short \<or> shorts)))"

text \<open>The memberships take over what the owner of their account was assigned.\<close>

definition follow_owner :: "candidate list \<Rightarrow> candidate \<Rightarrow> candidate" where
  "follow_owner primary c =
     (case primary_of primary (c_id c) of
        None \<Rightarrow> c
      | Some p \<Rightarrow>
          if c_group c = c_group p then p
          else c\<lparr>c_rank := c_rank p, c_desired_priority := c_desired_priority p, c_desired_load := c_desired_load p,
                 c_desired_concurrency := c_desired_concurrency p\<rparr>)"

text \<open>
  \<open>names\<close> are the groups of the configurations. None where a loop of the plan does not come back; else the
  round and whether the global budget left an account below its minimum.
\<close>

definition assign_account_placements ::
  "go_env \<Rightarrow> configs \<Rightarrow> string list \<Rightarrow> routing_account list \<Rightarrow> round \<Rightarrow> (round \<times> bool) option" where
  "assign_account_placements env configs names inventory cs =
     (let cs = map (reset_placement cs) cs;
          primary = primaries cs;
          memberships = placement_memberships cs;
          order = (\<lambda>allocation. sort_capacity_with_hysteresis env configs memberships allocation);
          capacity_inventory = inventory @ map c_account primary;
          fallback = fold (\<lambda>g m. max m (ec_scaling_min (configs g))) names 0;
          st = (new_scaling_budget capacity_inventory fallback, new_upstream_scaling_pools capacity_inventory);
          st = release_confirmed_stop_reservations capacity_inventory primary configs st;
          st = reserve_outside_allocation_scope primary configs st;
          (primary, budget, ps) = restore_unconstrained_concurrency primary configs st
      in case plan_global_upstream_shares order primary configs ps budget of
           None \<Rightarrow> None
         | Some budget \<Rightarrow>
             (case place_groups env configs memberships ps (sort names) (primary, budget) of
                None \<Rightarrow> None
              | Some (primary, budget, short) \<Rightarrow>
                  (case apply_pools order configs ps (primary, budget) of
                     None \<Rightarrow> None
                   | Some (primary, budget) \<Rightarrow> Some (map (follow_owner primary) cs, short))))"

end
