(* ===== verification/Policy_Rules.thy ===== *)
theory Policy_Rules
  imports Sample_Round "HOL-Library.AList"
begin

text \<open>
  The policy document and its rules (business/policy.go): the values the console accepts for each field
  of the advanced sections, the normalised values it stores, the relations between fields, and the
  partial update of the document (\<open>normalizePolicyPatch\<close>); with the pause window of the probe
  (business/probe_pause.go).

  A document is a \<open>gomap\<close>. The code ranges over Go maps in an unspecified order, the model in the order
  of the list: which of several errors is reported can depend on it, what is accepted and what is
  stored cannot. An error is a constructor with the path of its field. The numbers of a document are
  int64 or finite float64, as \<open>normalizeJSONNumbers\<close> leaves them.
\<close>

subsection \<open>Errors and scalar values\<close>

datatype rule_error =
    Unknown_Section string
  | Unknown_Field string string
  | Not_A_Bool string
  | Not_An_Integer string
  | Out_Of_Range string
  | Not_A_Number string
  | Not_A_Text string
  | Not_An_Option string
  | Not_An_Object string
  | Not_A_List string
  | Blank_Text string
  | Bad_Id string
  | Bad_Decimal string
  | Small_Group string
  | Duplicate_Group string
  | Rate_Limit_Code string
  | Batch_Conflict
  | Unmanaged_Group string
  | Bad_Pause_Window
  | Null_Value string
  | Core_Field string string
  | Bad_Value string
  | Bad_Relation string

type_synonym 'a checked = "rule_error + 'a"

text \<open>business.strictInteger: a number that is an integer, or the canonical text of one.\<close>

fun strict_policy_integer :: "goval \<Rightarrow> int option" where
  "strict_policy_integer (GInt n) = Some n"
| "strict_policy_integer (GFloat x) = (if x \<noteq> fl (of_int (int_of_float x)) then None else Some (int_of_float x))"
| "strict_policy_integer (GString s) =
     (case parse_int64 (trim_space s) of
        None \<Rightarrow> None
      | Some n \<Rightarrow> if int_text n \<noteq> trim_space s then None else Some n)"
| "strict_policy_integer _ = None"

definition bounded_integer :: "string \<Rightarrow> goval \<Rightarrow> int \<Rightarrow> int \<Rightarrow> int checked" where
  "bounded_integer field v minimum maximum =
     (case strict_policy_integer v of
        None \<Rightarrow> Inl (Not_An_Integer field)
      | Some n \<Rightarrow> if n < minimum \<or> n > maximum then Inl (Out_Of_Range field) else Inr n)"

fun finite_number :: "goval \<Rightarrow> rat option" where
  "finite_number (GInt n) = Some (fl (of_int n))"
| "finite_number (GFloat x) = Some x"
| "finite_number _ = None"

fun normalized_items :: "string \<Rightarrow> goval list \<Rightarrow> string list checked" where
  "normalized_items field [] = Inr []"
| "normalized_items field (item # items) =
     (case item of
        GString s \<Rightarrow>
          if trim_space s = [] then Inl (Blank_Text field)
          else map_sum id ((#) (trim_space s)) (normalized_items field items)
      | _ \<Rightarrow> Inl (Blank_Text field))"

definition normalized_string_array :: "string \<Rightarrow> goval \<Rightarrow> string list checked" where
  "normalized_string_array field v =
     (case v of GList items \<Rightarrow> normalized_items field items | _ \<Rightarrow> Inl (Not_A_List field))"

definition text_list :: "string list \<Rightarrow> goval" where
  "text_list ss = GList (map GString ss)"

text \<open>\<open>strconv.ParseUint(s, 10, 64)\<close>: decimal digits only.\<close>

definition parse_uint64 :: "string \<Rightarrow> int option" where
  "parse_uint64 s =
     (if s = [] then None
      else (case digits_value 0 s of None \<Rightarrow> None | Some n \<Rightarrow> if n < 2 ^ 64 then Some n else None))"

definition positive_numeric_id :: "string \<Rightarrow> bool" where
  "positive_numeric_id s \<longleftrightarrow> (case parse_uint64 s of Some n \<Rightarrow> n > 0 | None \<Rightarrow> False)"

definition stable_numeric_id :: "string \<Rightarrow> bool" where
  "stable_numeric_id s \<longleftrightarrow> s \<noteq> [] \<and> trim_space s = s \<and> positive_numeric_id s"

subsection \<open>The pause window of the probe\<close>

record probe_pause_window =
  pp_enabled :: bool
  pp_start :: string
  pp_end :: string
  pp_timezone :: string

text \<open>\<open>time.Parse("15:04", s)\<close> and formatting back to the same text: two digits, a colon, two digits.\<close>

definition clock_minutes :: "string \<Rightarrow> int option" where
  "clock_minutes s =
     (case s of
        [a, b, c, d, e] \<Rightarrow>
          (case (digit_value a, digit_value b, digit_value d, digit_value e) of
             (Some h1, Some h2, Some m1, Some m2) \<Rightarrow>
               if c = CHR '':'' \<and> h1 * 10 + h2 < 24 \<and> m1 < 6 then Some ((h1 * 10 + h2) * 60 + (m1 * 10 + m2)) else None
           | _ \<Rightarrow> None)
      | _ \<Rightarrow> None)"

definition map_text :: "gomap \<Rightarrow> string \<Rightarrow> string" where
  "map_text m k = (case map_of m k of Some (GString s) \<Rightarrow> s | _ \<Rightarrow> [])"

text \<open>\<open>zone\<close> says which names \<open>time.LoadLocation\<close> knows.\<close>

definition parse_probe_pause_window :: "(string \<Rightarrow> bool) \<Rightarrow> goval \<Rightarrow> probe_pause_window checked" where
  "parse_probe_pause_window zone raw =
     (case raw of
        GMap m \<Rightarrow>
          if list_ex (\<lambda>e. fst e \<notin> {''enabled'', ''start'', ''end'', ''timezone''}) m then Inl Bad_Pause_Window
          else
            (case map_of m ''enabled'' of
               Some (GBool enabled) \<Rightarrow>
                 let start = map_text m ''start''; finish = map_text m ''end''; timezone = map_text m ''timezone'' in
                 if clock_minutes start = None \<or> clock_minutes finish = None \<or> start = finish then Inl Bad_Pause_Window
                 else if timezone = [] \<or> timezone = ''Local'' \<or> length timezone > 128 \<or> \<not> zone timezone
                 then Inl Bad_Pause_Window
                 else Inr \<lparr>pp_enabled = enabled, pp_start = start, pp_end = finish, pp_timezone = timezone\<rparr>
             | _ \<Rightarrow> Inl Bad_Pause_Window)
      | _ \<Rightarrow> Inl Bad_Pause_Window)"

definition clock_paused :: "probe_pause_window \<Rightarrow> string \<Rightarrow> bool" where
  "clock_paused w clock =
     (if pp_start w > pp_end w then clock \<ge> pp_start w \<or> clock < pp_end w
      else clock \<ge> pp_start w \<and> clock < pp_end w)"

text \<open>\<open>clock\<close> is \<open>now.In(location).Format("15:04")\<close>; the reason shown names the window.\<close>

definition probe_pause_reason ::
  "(string \<Rightarrow> bool) \<Rightarrow> (string \<Rightarrow> gotime \<Rightarrow> string) \<Rightarrow> gomap \<Rightarrow> gotime \<Rightarrow> probe_pause_window option checked" where
  "probe_pause_reason zone clock policy now =
     (case map_of policy ''probe'' of
        None \<Rightarrow> Inr None
      | Some (GMap m) \<Rightarrow>
          (case map_of m ''pause_window'' of
             None \<Rightarrow> Inr None
           | Some raw \<Rightarrow>
               map_sum id (\<lambda>w. if pp_enabled w \<and> clock_paused w (clock (pp_timezone w) now) then Some w else None)
                 (parse_probe_pause_window zone raw))
      | Some _ \<Rightarrow> Inl (Not_An_Object ''probe''))"

subsection \<open>Rules\<close>

datatype advanced_rule =
    Rule_Pause_Window
  | Rule_Bool
  | Rule_Int int int
  | Rule_Number rat rat
  | Rule_Positive rat
  | Rule_Ratio
  | Rule_Text nat
  | Rule_Enum "string list"
  | Rule_Account_Bool_Map
  | Rule_Upstream_Bool_Map
  | Rule_Account_Ids
  | Rule_Strings
  | Rule_Group_Decimals
  | Rule_String_Groups
  | Rule_Status_Codes
  | Rule_Event_Scores

type_synonym section_rules = "(string \<times> advanced_rule) list"

definition upstream_concurrency_rules :: section_rules where
  "upstream_concurrency_rules =
    [(''enabled'', Rule_Bool), (''account_mode'', Rule_Enum [''all'', ''selected'', ''upstreams'']),
     (''account_ids'', Rule_Account_Ids), (''upstream_ids'', Rule_Strings),
     (''account_overrides'', Rule_Account_Bool_Map), (''upstream_overrides'', Rule_Upstream_Bool_Map)]"

definition cost_wall_rules :: section_rules where
  "cost_wall_rules =
    [(''enabled'', Rule_Bool), (''fallback_enabled'', Rule_Bool), (''stop_auto_probe'', Rule_Bool)]"

definition weights_rules :: section_rules where
  "weights_rules =
    [(''enabled'', Rule_Bool), (''budget'', Rule_Int 1 1000000), (''gate_floor'', Rule_Number 0 100),
     (''price_exp'', Rule_Positive 100), (''speed_exp'', Rule_Positive 100), (''balanced_price_ratio'', Rule_Number 0 1),
     (''performance_min_samples'', Rule_Int 1 200), (''speed_advantage_cap'', Rule_Number 1 100),
     (''min_load_factor'', Rule_Int 1 1000000), (''max_load_factor'', Rule_Int 1 1000000)]"

definition manual_priority_rules :: section_rules where
  "manual_priority_rules =
    [(''latency_priority_enabled'', Rule_Bool), (''reserved_max'', Rule_Int 1 1000)]"

definition scope_rules :: section_rules where
  "scope_rules =
    [(''manage_all_accounts'', Rule_Bool), (''managed_group_mode'', Rule_Enum [''all'', ''selected'']),
     (''managed_group_ids'', Rule_Strings), (''excluded_group_ids'', Rule_Strings), (''account_types'', Rule_Strings),
     (''platforms'', Rule_Strings), (''paused_account_ids'', Rule_Strings), (''excluded_account_ids'', Rule_Strings),
     (''manual_fused_account_ids'', Rule_Strings), (''ignore_cost_wall_account_ids'', Rule_Strings)]"

definition probe_rules :: section_rules where
  "probe_rules =
    [(''performance_exploration_enabled'', Rule_Bool), (''pause_window'', Rule_Pause_Window),
     (''freshness_seconds'', Rule_Int 1 86400), (''enabled'', Rule_Bool), (''timeout_seconds'', Rule_Int 1 86400),
     (''concurrency'', Rule_Int 1 32), (''prompt'', Rule_Text 10000), (''skip_when_traffic_fresh'', Rule_Bool),
     (''traffic_fresh_seconds'', Rule_Int 1 86400), (''retry_enabled'', Rule_Bool),
     (''retry_source'', Rule_Enum [''fixed'', ''sub2api_pool'']), (''retry_count'', Rule_Int 0 10),
     (''retry_status_codes'', Rule_Status_Codes)]"

definition traffic_rules :: section_rules where
  "traffic_rules =
    [(''refresh_seconds'', Rule_Int 1 86400)]"

definition scoring_rules :: section_rules where
  "scoring_rules =
    [(''history_window_minutes'', Rule_Int 1 10080), (''short_window'', Rule_Int 1 10000), (''long_window'', Rule_Int 1 100000),
     (''latest_weight'', Rule_Ratio), (''short_ratio'', Rule_Ratio), (''slow_ttfb_ms'', Rule_Int 1 3600000),
     (''event_scores'', Rule_Event_Scores)]"

definition breaker_rules :: section_rules where
  "breaker_rules =
    [(''enabled'', Rule_Bool), (''hard_fatal'', Rule_Bool), (''http_degrade_only'', Rule_Bool),
     (''latency_degrade_only'', Rule_Bool), (''http_window'', Rule_Int 1 10000), (''http_failures'', Rule_Int 1 10000),
     (''http_score_below'', Rule_Number 0 100), (''latency_window'', Rule_Int 1 10000),
     (''transient_consecutive_failures'', Rule_Int 1 10000), (''latency_occurrences'', Rule_Int 1 10000),
     (''latency_ttfb_ms'', Rule_Int 1 3600000), (''max_switch_per_round'', Rule_Int 1 10000),
     (''fused_cooldown_seconds'', Rule_Int 0 86400), (''instant_status_codes'', Rule_Status_Codes),
     (''min_pool_size'', Rule_Int 0 10000), (''min_pool_score'', Rule_Number 0 100)]"

definition degrade_rules :: section_rules where
  "degrade_rules =
    [(''enabled'', Rule_Bool), (''score_threshold'', Rule_Number 0 100), (''priority_step'', Rule_Int 1 1000000),
     (''load_factor_ratio'', Rule_Ratio), (''min_load_factor'', Rule_Int 1 1000000)]"

definition recovery_rules :: section_rules where
  "recovery_rules =
    [(''enabled'', Rule_Bool), (''probe_interval_seconds'', Rule_Int 1 86400), (''target_score'', Rule_Number 0 100),
     (''success_count'', Rule_Int 1 10000), (''hold_seconds'', Rule_Int 0 86400)]"

definition scaling_rules :: section_rules where
  "scaling_rules =
    [(''enabled'', Rule_Bool), (''global_max_concurrency'', Rule_Int 1 10000000), (''min_per_account'', Rule_Int 1 1000000),
     (''max_per_account'', Rule_Int 1 1000000), (''scale_up_ratio'', Rule_Ratio), (''step_up'', Rule_Int 1 1000000),
     (''step_down'', Rule_Int 1 1000000), (''cooldown_seconds'', Rule_Int 0 86400)]"

definition binding_cleanup_rules :: section_rules where
  "binding_cleanup_rules =
    [(''enabled'', Rule_Bool), (''max_per_round'', Rule_Int 1 10000)]"

definition abnormal_cleanup_rules :: section_rules where
  "abnormal_cleanup_rules =
    [(''enabled'', Rule_Bool), (''action'', Rule_Enum [''pause'', ''disable'', ''delete'']),
     (''duration_minutes'', Rule_Int 1 525600), (''max_per_round'', Rule_Int 1 10000), (''keep_last_in_group'', Rule_Bool)]"

definition cleanup_rules :: section_rules where
  "cleanup_rules =
    [(''enabled'', Rule_Bool), (''action'', Rule_Enum [''none'', ''pause'', ''disable'', ''delete'']),
     (''occurrences'', Rule_Int 1 10000), (''window'', Rule_Int 1 10000), (''min_fused_minutes'', Rule_Int 0 10080),
     (''max_per_round'', Rule_Int 1 10000), (''keep_last_in_group'', Rule_Bool), (''only_auth_errors'', Rule_Bool),
     (''trigger_status_codes'', Rule_Status_Codes)]"

definition upstream_multiplier_rules :: section_rules where
  "upstream_multiplier_rules =
    [(''interval_seconds'', Rule_Int 30 86400)]"

definition account_rate_sync_rules :: section_rules where
  "account_rate_sync_rules =
    [(''interval_seconds'', Rule_Int 30 86400), (''batch_size'', Rule_Int 0 100000), (''batch_percent'', Rule_Int 0 100)]"

definition price_management_rules :: section_rules where
  "price_management_rules =
    [(''enabled'', Rule_Bool), (''profit_margin'', Rule_Number 0 (fl (99 / 100))), (''exchange_group_sets'', Rule_String_Groups),
     (''exchange_group_set_names'', Rule_Strings), (''group_min_cost_multipliers'', Rule_Group_Decimals),
     (''interval_seconds'', Rule_Int 30 86400), (''write_concurrency'', Rule_Int 1 16)]"

definition writeback_rules :: section_rules where
  "writeback_rules =
    [(''concurrency'', Rule_Int 1 16), (''verification'', Rule_Bool)]"

definition classify_rules :: section_rules where
  "classify_rules =
    [(''client_error_status_codes'', Rule_Status_Codes), (''fatal_patterns'', Rule_Strings),
     (''gateway_status_codes'', Rule_Status_Codes)]"

definition advanced_rules :: "(string \<times> section_rules) list" where
  "advanced_rules =
     [(''selection'', []), (''upstream_concurrency'', upstream_concurrency_rules),
      (''cost_wall'', cost_wall_rules), (''weights'', weights_rules),
      (''manual_priority'', manual_priority_rules), (''scope'', scope_rules), (''probe'', probe_rules),
      (''traffic'', traffic_rules), (''scoring'', scoring_rules), (''breaker'', breaker_rules),
      (''degrade'', degrade_rules), (''recovery'', recovery_rules), (''scaling'', scaling_rules),
      (''binding_cleanup'', binding_cleanup_rules), (''abnormal_cleanup'', abnormal_cleanup_rules),
      (''cleanup'', cleanup_rules), (''upstream_multiplier'', upstream_multiplier_rules),
      (''account_rate_sync'', account_rate_sync_rules), (''price_management'', price_management_rules),
      (''writeback'', writeback_rules), (''classify'', classify_rules)]"

subsection \<open>Validation of a value\<close>

definition check_bool :: "string \<Rightarrow> goval \<Rightarrow> goval checked" where
  "check_bool path v = (case v of GBool b \<Rightarrow> Inr v | _ \<Rightarrow> Inl (Not_A_Bool path))"

definition check_number :: "string \<Rightarrow> goval \<Rightarrow> (rat \<Rightarrow> bool) \<Rightarrow> goval checked" where
  "check_number path v accepts =
     (case finite_number v of
        None \<Rightarrow> Inl (Not_A_Number path)
      | Some x \<Rightarrow> if accepts x then Inr (GFloat x) else Inl (Out_Of_Range path))"

fun check_bool_entries :: "string \<Rightarrow> bool \<Rightarrow> gomap \<Rightarrow> unit checked" where
  "check_bool_entries path numeric [] = Inr ()"
| "check_bool_entries path numeric ((i, raw) # es) =
     (if trim_space i \<noteq> i \<or> i = [] \<or> (numeric \<and> \<not> positive_numeric_id i) then Inl (Bad_Id path)
      else (case raw of GBool _ \<Rightarrow> check_bool_entries path numeric es | _ \<Rightarrow> Inl (Not_A_Bool path)))"

definition check_bool_map :: "string \<Rightarrow> bool \<Rightarrow> goval \<Rightarrow> goval checked" where
  "check_bool_map path numeric v =
     (case v of GMap m \<Rightarrow> map_sum id (\<lambda>_. v) (check_bool_entries path numeric m) | _ \<Rightarrow> Inl (Not_An_Object path))"

fun check_minimums :: "string \<Rightarrow> gomap \<Rightarrow> gomap checked" where
  "check_minimums path [] = Inr []"
| "check_minimums path ((i, raw) # es) =
     (if \<not> stable_numeric_id i then Inl (Bad_Id path)
      else
        case raw of
          GString s \<Rightarrow>
            let minimum = trim_space s in
            if minimum = [] then check_minimums path es
            else if (case decimal_parse minimum of None \<Rightarrow> True | Some x \<Rightarrow> x < 0) then Inl (Bad_Decimal path)
            else map_sum id ((#) (i, GString minimum)) (check_minimums path es)
        | _ \<Rightarrow> Inl (Bad_Decimal path))"

fun check_groups :: "string \<Rightarrow> string list \<Rightarrow> goval list \<Rightarrow> string list list checked" where
  "check_groups path seen [] = Inr []"
| "check_groups path seen (item # items) =
     sum_bind (normalized_string_array path item) (\<lambda>ids.
     if length ids < 2 then Inl (Small_Group path)
     else if \<not> distinct ids \<or> list_ex (\<lambda>i. i \<in> set seen) ids then Inl (Duplicate_Group path)
     else map_sum id ((#) ids) (check_groups path (seen @ ids) items))"

definition code_range :: "string \<Rightarrow> int \<times> int" where
  "code_range path = (if path = ''classify.client_error_status_codes'' then (400, 499) else (100, 599))"

fun check_codes :: "string \<Rightarrow> int list \<Rightarrow> goval list \<Rightarrow> int list checked" where
  "check_codes path seen [] = Inr []"
| "check_codes path seen (item # items) =
     sum_bind (bounded_integer path item (fst (code_range path)) (snd (code_range path))) (\<lambda>code.
     if code = 429 \<and> (path = ''breaker.instant_status_codes'' \<or> path = ''cleanup.trigger_status_codes'')
     then Inl (Rate_Limit_Code path)
     else if code \<in> set seen then check_codes path seen items
     else map_sum id ((#) code) (check_codes path (code # seen) items))"

definition check_status_codes :: "string \<Rightarrow> goval \<Rightarrow> goval checked" where
  "check_status_codes path v =
     (case v of
        GList items \<Rightarrow>
          map_sum id
            (\<lambda>codes. GList (map GInt
               (if path = ''classify.gateway_status_codes'' \<and> codes = [] then [429, 500, 502, 503, 504] else codes)))
            (check_codes path [] items)
      | _ \<Rightarrow> Inl (Not_A_List path))"

fun check_scores :: "string \<Rightarrow> gomap \<Rightarrow> gomap checked" where
  "check_scores path [] = Inr []"
| "check_scores path ((key, raw) # es) =
     (if key \<notin> {''perfect'', ''slow_ttfb'', ''empty_response'', ''upstream_unknown'', ''gateway_error'',
                 ''quota_exhausted'', ''probe_fail'', ''fatal''}
      then Inl (Unknown_Field path key)
      else
        case finite_number raw of
          None \<Rightarrow> Inl (Not_A_Number path)
        | Some score \<Rightarrow>
            if score < (if key = ''quota_exhausted'' then 1 else 0) \<or> score > 100 then Inl (Out_Of_Range path)
            else map_sum id ((#) (key, GFloat score)) (check_scores path es))"

text \<open>The account ids of a scope.\<close>

definition check_account_ids :: "string \<Rightarrow> goval \<Rightarrow> goval checked" where
  "check_account_ids path v =
     sum_bind (normalized_string_array path v) (\<lambda>ids.
     if list_ex (\<lambda>i. \<not> stable_numeric_id i) ids then Inl (Bad_Id path) else Inr (text_list ids))"

fun validate_advanced_value :: "(string \<Rightarrow> bool) \<Rightarrow> string \<Rightarrow> goval \<Rightarrow> advanced_rule \<Rightarrow> goval checked" where
  "validate_advanced_value zone path v Rule_Pause_Window = map_sum id (\<lambda>_. v) (parse_probe_pause_window zone v)"
| "validate_advanced_value zone path v Rule_Bool = check_bool path v"
| "validate_advanced_value zone path v (Rule_Int lo hi) = map_sum id GInt (bounded_integer path v lo hi)"
| "validate_advanced_value zone path v (Rule_Number lo hi) = check_number path v (\<lambda>x. lo \<le> x \<and> x \<le> hi)"
| "validate_advanced_value zone path v (Rule_Positive hi) = check_number path v (\<lambda>x. 0 < x \<and> x \<le> hi)"
| "validate_advanced_value zone path v Rule_Ratio = check_number path v (\<lambda>x. 0 < x \<and> x \<le> 1)"
| "validate_advanced_value zone path v (Rule_Text n) =
     (case v of GString s \<Rightarrow> if n > 0 \<and> length s > n then Inl (Not_A_Text path) else Inr v | _ \<Rightarrow> Inl (Not_A_Text path))"
| "validate_advanced_value zone path v (Rule_Enum options) =
     (case v of GString s \<Rightarrow> if s \<in> set options then Inr v else Inl (Not_An_Option path) | _ \<Rightarrow> Inl (Not_A_Text path))"
| "validate_advanced_value zone path v Rule_Account_Bool_Map = check_bool_map path True v"
| "validate_advanced_value zone path v Rule_Upstream_Bool_Map = check_bool_map path False v"
| "validate_advanced_value zone path v Rule_Account_Ids = check_account_ids path v"
| "validate_advanced_value zone path v Rule_Strings = map_sum id text_list (normalized_string_array path v)"
| "validate_advanced_value zone path v Rule_Group_Decimals =
     (case v of GMap m \<Rightarrow> map_sum id GMap (check_minimums path m) | _ \<Rightarrow> Inl (Not_An_Object path))"
| "validate_advanced_value zone path v Rule_String_Groups =
     (case v of GList items \<Rightarrow> map_sum id (\<lambda>gs. GList (map text_list gs)) (check_groups path [] items)
      | _ \<Rightarrow> Inl (Not_A_List path))"
| "validate_advanced_value zone path v Rule_Status_Codes = check_status_codes path v"
| "validate_advanced_value zone path v Rule_Event_Scores =
     (case v of GMap m \<Rightarrow> map_sum id GMap (check_scores path m) | _ \<Rightarrow> Inl (Not_An_Object path))"

subsection \<open>Validation of a section\<close>

fun validate_fields :: "(string \<Rightarrow> bool) \<Rightarrow> string \<Rightarrow> (string \<times> advanced_rule) list \<Rightarrow> gomap \<Rightarrow> gomap checked" where
  "validate_fields zone section rules [] = Inr []"
| "validate_fields zone section rules ((field, v) # es) =
     (case map_of rules field of
        None \<Rightarrow> Inl (Unknown_Field section field)
      | Some rule \<Rightarrow>
          sum_bind (validate_advanced_value zone (section @ ''.'' @ field) v rule) (\<lambda>normalized.
          map_sum id ((#) (field, normalized)) (validate_fields zone section rules es)))"

definition integer_entry :: "gomap \<Rightarrow> string \<Rightarrow> int" where
  "integer_entry m k = (case map_of m k of Some (GInt n) \<Rightarrow> n | _ \<Rightarrow> 0)"

fun list_entries :: "goval \<Rightarrow> goval list" where
  "list_entries (GList items) = items"
| "list_entries _ = []"

definition group_managed_ids :: "gomap \<Rightarrow> goval list" where
  "group_managed_ids m =
     (case map_of m ''exchange_group_sets'' of Some v \<Rightarrow> concat (map list_entries (list_entries v)) | None \<Rightarrow> [])"

definition section_relations :: "string \<Rightarrow> gomap \<Rightarrow> unit checked" where
  "section_relations section m =
     (if section = ''account_rate_sync'' \<and> integer_entry m ''batch_size'' > 0 \<and> integer_entry m ''batch_percent'' > 0
      then Inl Batch_Conflict
      else if section = ''price_management''
      then
        (case map_of m ''group_min_cost_multipliers'' of
           Some (GMap minimums) \<Rightarrow>
             (case find (\<lambda>e. GString (fst e) \<notin> set (group_managed_ids m)) minimums of
                Some e \<Rightarrow> Inl (Unmanaged_Group (fst e))
              | None \<Rightarrow> Inr ())
         | _ \<Rightarrow> Inr ())
      else Inr ())"

definition validate_advanced_section :: "(string \<Rightarrow> bool) \<Rightarrow> string \<Rightarrow> gomap \<Rightarrow> gomap checked" where
  "validate_advanced_section zone section m =
     (case map_of advanced_rules section of
        None \<Rightarrow> Inl (Unknown_Section section)
      | Some rules \<Rightarrow>
          sum_bind (validate_fields zone section rules m) (\<lambda>result.
          sum_bind (section_relations section result) (\<lambda>_. Inr result)))"

subsection \<open>What is stored is accepted again\<close>

lemma bounded_integer_GInt: "bounded_integer path v lo hi = Inr n \<Longrightarrow> bounded_integer path (GInt n) lo hi = Inr n"
  by (auto simp: bounded_integer_def split: option.splits if_splits)

lemma check_number_again: "check_number path v accepts = Inr w \<Longrightarrow> check_number path w accepts = Inr w"
  by (auto simp: check_number_def split: option.splits if_splits)

lemma normalized_items_again:
  "normalized_items field items = Inr ss \<Longrightarrow> normalized_items field (map GString ss) = Inr ss"
proof (induction items arbitrary: ss)
  case (Cons item items)
  then show ?case by (auto simp: map_sum_Inr split: goval.splits if_splits)
qed simp

lemma normalized_array_again:
  "normalized_string_array field v = Inr ss \<Longrightarrow> normalized_string_array field (text_list ss) = Inr ss"
  by (auto simp: normalized_string_array_def text_list_def normalized_items_again split: goval.splits)

lemma check_account_ids_again: "check_account_ids path v = Inr w \<Longrightarrow> check_account_ids path w = Inr w"
  by (auto simp: check_account_ids_def sum_bind_Inr normalized_array_again split: if_splits)

lemma check_bool_map_again: "check_bool_map path numeric v = Inr w \<Longrightarrow> check_bool_map path numeric w = Inr w"
  by (auto simp: check_bool_map_def map_sum_Inr split: goval.splits)

lemma check_minimums_again: "check_minimums path m = Inr r \<Longrightarrow> check_minimums path r = Inr r"
proof (induction m arbitrary: r)
  case (Cons e m)
  then show ?case by (cases e) (auto simp: map_sum_Inr Let_def split: goval.splits if_splits option.splits)
qed simp

lemma check_groups_again:
  "check_groups path seen items = Inr gs \<Longrightarrow> check_groups path seen (map text_list gs) = Inr gs"
proof (induction items arbitrary: seen gs)
  case (Cons item items)
  then show ?case by (auto simp: sum_bind_Inr map_sum_Inr normalized_array_again split: if_splits)
qed simp

lemma check_codes_again:
  "check_codes path seen items = Inr codes \<Longrightarrow> check_codes path seen (map GInt codes) = Inr codes"
proof (induction items arbitrary: seen codes)
  case (Cons item items)
  then show ?case by (auto simp: sum_bind_Inr map_sum_Inr bounded_integer_GInt split: if_splits)
qed simp

lemma check_status_codes_again: "check_status_codes path v = Inr w \<Longrightarrow> check_status_codes path w = Inr w"
proof -
  assume ok: "check_status_codes path v = Inr w"
  obtain items codes where v: "v = GList items" "check_codes path [] items = Inr codes"
    and w: "w = GList (map GInt (if path = ''classify.gateway_status_codes'' \<and> codes = [] then [429, 500, 502, 503, 504] else codes))"
    using ok by (auto simp: check_status_codes_def map_sum_Inr split: goval.splits)
  have default: "check_codes ''classify.gateway_status_codes'' [] (map GInt [429, 500, 502, 503, 504]) = Inr [429, 500, 502, 503, 504]"
    by code_simp
  show ?thesis
    using default check_codes_again [OF v(2)] unfolding w check_status_codes_def by (auto split: if_splits)
qed

lemma check_scores_again: "check_scores path m = Inr r \<Longrightarrow> check_scores path r = Inr r"
proof (induction m arbitrary: r)
  case (Cons e m)
  obtain key raw where e: "e = (key, raw)" by (cases e)
  show ?case using Cons unfolding e by (auto simp: map_sum_Inr simp del: insert_iff split: option.splits if_splits)
qed simp

lemma validate_value_again:
  "validate_advanced_value zone path v rule = Inr w \<Longrightarrow> validate_advanced_value zone path w rule = Inr w"
  by (cases rule)
    (auto simp: map_sum_Inr check_bool_def bounded_integer_GInt normalized_array_again check_minimums_again check_groups_again
       check_scores_again
     split: goval.splits if_splits
     intro: check_number_again check_bool_map_again check_account_ids_again check_status_codes_again)

lemma validate_fields_again:
  "validate_fields zone section rules m = Inr r \<Longrightarrow> validate_fields zone section rules r = Inr r"
proof (induction m arbitrary: r)
  case (Cons e m)
  obtain field v where e: "e = (field, v)" by (cases e)
  show ?case
    using Cons unfolding e by (auto simp: sum_bind_Inr map_sum_Inr dest: validate_value_again split: option.splits)
qed simp

text \<open>C37: what is stored is accepted again, unchanged. Validating the normalised form of a section of the
  advanced policy succeeds and gives the same form, so that reading a stored document and writing it
  back, or reading it with the same validation elsewhere, changes nothing.\<close>

theorem stored_section_accepted_again:
  assumes "validate_advanced_section zone section m = Inr stored"
  shows "validate_advanced_section zone section stored = Inr stored"
  using assms validate_fields_again by (fastforce simp: validate_advanced_section_def sum_bind_Inr split: option.splits)

theorem stored_section_accepted_again_witness:
  "validate_advanced_section (\<lambda>_. True) ''price_management''
     [(''exchange_group_sets'', GList [GList [GString ''1'', GString ''2'']]),
      (''group_min_cost_multipliers'', GMap [(''2'', GString ''0.5'')])] =
   Inr [(''exchange_group_sets'', GList [GList [GString ''1'', GString ''2'']]),
      (''group_min_cost_multipliers'', GMap [(''2'', GString ''0.5'')])]"
proof -
  have "validate_advanced_section (\<lambda>_. True) ''price_management''
     [(''exchange_group_sets'', GList [GList [GString '' 1 '', GString ''2'']]),
      (''group_min_cost_multipliers'', GMap [(''2'', GString ''0.5 ''), (''3'', GString '' '')])] =
   Inr [(''exchange_group_sets'', GList [GList [GString ''1'', GString ''2'']]),
      (''group_min_cost_multipliers'', GMap [(''2'', GString ''0.5'')])]"
    by code_simp
  then show ?thesis by (rule stored_section_accepted_again)
qed

subsection \<open>Relations between fields\<close>

definition effective_policy_integer :: "gomap \<Rightarrow> string \<Rightarrow> string \<Rightarrow> int \<Rightarrow> int checked" where
  "effective_policy_integer policy section field fallback =
     (case map_of policy section of
        None \<Rightarrow> Inr fallback
      | Some (GMap m) \<Rightarrow>
          (case map_of m field of
             None \<Rightarrow> Inr fallback
           | Some raw \<Rightarrow>
               (case strict_policy_integer raw of
                  None \<Rightarrow> Inl (Not_An_Integer (section @ ''.'' @ field))
                | Some n \<Rightarrow> Inr n))
      | Some _ \<Rightarrow> Inl (Not_An_Object section))"

definition policy_relations :: "(string \<times> string \<times> string \<times> int \<times> int) list" where
  "policy_relations =
     [(''scoring'', ''short_window'', ''long_window'', 10, 60),
      (''breaker'', ''http_failures'', ''http_window'', 3, 5),
      (''breaker'', ''latency_occurrences'', ''latency_window'', 5, 10),
      (''weights'', ''min_load_factor'', ''max_load_factor'', 1, 100),
      (''scaling'', ''min_per_account'', ''max_per_account'', 3, 250),
      (''cleanup'', ''occurrences'', ''window'', 3, 5)]"

fun check_relations :: "(string \<times> string \<times> string \<times> int \<times> int) list \<Rightarrow> gomap \<Rightarrow> unit checked" where
  "check_relations [] policy = Inr ()"
| "check_relations ((section, left, right, left_default, right_default) # rs) policy =
     sum_bind (effective_policy_integer policy section left left_default) (\<lambda>l.
     sum_bind (effective_policy_integer policy section right right_default) (\<lambda>r.
     if l > r then Inl (Bad_Relation (section @ ''.'' @ left)) else check_relations rs policy))"

definition validate_policy_relationships :: "gomap \<Rightarrow> unit checked" where
  "validate_policy_relationships policy = check_relations policy_relations policy"

subsection \<open>The partial update\<close>

text \<open>A path, split at its points; a part below a value that is no object reads nil.\<close>

fun lookup_policy_path :: "goval \<Rightarrow> string list \<Rightarrow> goval option" where
  "lookup_policy_path current [] = Some current"
| "lookup_policy_path current (p # ps) =
     (case current of
        GMap m \<Rightarrow> (case map_of m p of None \<Rightarrow> None | Some v \<Rightarrow> lookup_policy_path v ps)
      | _ \<Rightarrow> Some GNil)"

definition patch_or_current :: "gomap \<Rightarrow> string \<Rightarrow> gomap \<Rightarrow> string list \<Rightarrow> goval \<Rightarrow> goval checked" where
  "patch_or_current patch field current path fallback =
     (case map_of patch field of
        Some GNil \<Rightarrow> Inl (Null_Value field)
      | Some v \<Rightarrow> Inr v
      | None \<Rightarrow>
          (case lookup_policy_path (GMap current) path of
             Some GNil \<Rightarrow> Inl (Null_Value field)
           | Some v \<Rightarrow> Inr v
           | None \<Rightarrow> Inr fallback))"

definition normalize_strategy :: "goval \<Rightarrow> string option" where
  "normalize_strategy v =
     (case v of
        GString s \<Rightarrow>
          let t = to_lower (trim_space s) in
          if t \<in> {''balanced'', ''price_first'', ''speed_first'', ''reliability''} then Some t else None
      | _ \<Rightarrow> None)"

text \<open>The object under a key of the document (an empty one if there is none), and a field of it set.\<close>

definition object_at :: "gomap \<Rightarrow> string \<Rightarrow> gomap" where
  "object_at doc section = (case map_of doc section of Some (GMap m) \<Rightarrow> m | _ \<Rightarrow> [])"

definition set_field :: "string \<Rightarrow> string \<Rightarrow> goval \<Rightarrow> gomap \<Rightarrow> gomap" where
  "set_field section field v doc = AList.update section (GMap (AList.update field v (object_at doc section))) doc"

definition core_sections :: "string list" where
  "core_sections = [''selection'', ''weights'', ''scope'', ''probe'', ''traffic'']"

fun open_sections :: "string list \<Rightarrow> gomap \<Rightarrow> gomap checked" where
  "open_sections [] doc = Inr doc"
| "open_sections (s # ss) doc =
     (case map_of doc s of
        None \<Rightarrow> open_sections ss (AList.update s (GMap []) doc)
      | Some (GMap m) \<Rightarrow> open_sections ss doc
      | Some _ \<Rightarrow> Inl (Not_An_Object s))"

definition advanced_policy_core_fields :: "(string \<times> string list) list" where
  "advanced_policy_core_fields =
     [(''selection'', [''strategy'']),
      (''weights'', [''scheduling_missing_rate_fallback'', ''change_threshold'', ''cooldown_seconds'']),
      (''manual_priority'', []), (''scope'', [''excluded_group_ids'']),
      (''probe'', [''interval_seconds'', ''model'']),
      (''traffic'', [''enabled'', ''lookback_minutes'', ''max_samples_per_account'']),
      (''scoring'', []), (''breaker'', []), (''degrade'', []), (''recovery'', []), (''scaling'', []), (''cleanup'', []),
      (''binding_cleanup'', []), (''abnormal_cleanup'', []), (''upstream_multiplier'', []), (''upstream_concurrency'', []),
      (''cost_wall'', []), (''account_rate_sync'', []), (''price_management'', []), (''writeback'', []), (''classify'', [])]"

text \<open>What a section keeps when it is replaced: its core fields and the locked accounts of the scope.\<close>

definition kept_fields :: "string \<Rightarrow> string list \<Rightarrow> gomap \<Rightarrow> gomap" where
  "kept_fields section core existing =
     filter (\<lambda>e. fst e \<in> set core \<or> (section = ''scope'' \<and> fst e = ''group_locked_account_ids'')) existing"

fun patch_sections :: "(string \<Rightarrow> bool) \<Rightarrow> gomap \<Rightarrow> gomap \<Rightarrow> gomap checked" where
  "patch_sections zone [] doc = Inr doc"
| "patch_sections zone ((section, raw) # es) doc =
     (let core = (case map_of advanced_policy_core_fields section of Some fs \<Rightarrow> fs | None \<Rightarrow> []) in
      case raw of
        GMap incoming \<Rightarrow>
          (case find (\<lambda>e. fst e \<in> set core) incoming of
             Some e \<Rightarrow> Inl (Core_Field section (fst e))
           | None \<Rightarrow>
               sum_bind (validate_advanced_section zone section incoming) (\<lambda>normalized.
               patch_sections zone es
                 (AList.update section
                    (GMap (AList.updates (map fst normalized) (map snd normalized) (kept_fields section core (object_at doc section))))
                    doc)))
      | _ \<Rightarrow> Inl (Not_An_Object section))"

definition patch_advanced :: "(string \<Rightarrow> bool) \<Rightarrow> gomap \<Rightarrow> gomap \<Rightarrow> gomap checked" where
  "patch_advanced zone patch doc =
     (case map_of patch ''advanced_policy'' of
        None \<Rightarrow> Inr doc
      | Some (GMap advanced) \<Rightarrow>
          (case find (\<lambda>e. map_of advanced_policy_core_fields (fst e) = None) advanced of
             Some e \<Rightarrow> Inl (Unknown_Section (fst e))
           | None \<Rightarrow> patch_sections zone advanced doc)
      | Some _ \<Rightarrow> Inl (Not_An_Object ''advanced_policy''))"

fun patch_switches :: "gomap \<Rightarrow> gomap \<Rightarrow> gomap checked" where
  "patch_switches [] switches = Inr switches"
| "patch_switches ((key, v) # es) switches =
     (if key \<notin> {''schedulable'', ''priority'', ''load_factor'', ''concurrency''} then Inl (Unknown_Field ''auto_apply'' key)
      else (case v of GBool b \<Rightarrow> patch_switches es (AList.update key (GBool b) switches) | _ \<Rightarrow> Inl (Not_A_Bool (''auto_apply.'' @ key))))"

definition patch_auto_apply :: "gomap \<Rightarrow> gomap \<Rightarrow> gomap checked" where
  "patch_auto_apply patch doc =
     (let stored = map_of doc ''auto_apply'' in
      case map_of patch ''auto_apply'' of
        Some (GMap switches) \<Rightarrow>
          if switches = [] then Inr (AList.update ''auto_apply'' (GMap []) doc)
          else if (case stored of None \<Rightarrow> False | Some GNil \<Rightarrow> False | Some (GMap _) \<Rightarrow> False | Some _ \<Rightarrow> True)
          then Inl (Not_An_Object ''auto_apply'')
          else map_sum id (\<lambda>m. AList.update ''auto_apply'' (GMap m) doc) (patch_switches switches (object_at doc ''auto_apply''))
      | Some _ \<Rightarrow> Inl (Not_An_Object ''auto_apply'')
      | None \<Rightarrow>
          (case stored of
             None \<Rightarrow> Inr (AList.update ''auto_apply'' (GMap []) doc)
           | Some (GMap _) \<Rightarrow> Inr doc
           | Some _ \<Rightarrow> Inl (Not_An_Object ''auto_apply'')))"

text \<open>\<open>registered\<close> is the answer of the database for the stable id of a group.\<close>

fun patch_strategies :: "(string \<Rightarrow> bool) \<Rightarrow> gomap \<Rightarrow> gomap \<Rightarrow> gomap checked" where
  "patch_strategies registered [] bindings = Inr bindings"
| "patch_strategies registered ((g, raw) # es) bindings =
     (if \<not> stable_numeric_id g then Inl (Bad_Id g)
      else if \<not> registered g then Inl (Bad_Id g)
      else
        let binding = object_at bindings g;
            changed = (if raw = GNil then Inr (AList.delete ''strategy'' binding)
                       else (case normalize_strategy raw of
                               None \<Rightarrow> Inl (Bad_Value g)
                             | Some s \<Rightarrow> Inr (AList.update ''strategy'' (GString s) binding)))
        in sum_bind changed (\<lambda>binding.
           patch_strategies registered es
             (if binding = [] then AList.delete g bindings else AList.update g (GMap binding) bindings)))"

definition patch_group_strategies :: "(string \<Rightarrow> bool) \<Rightarrow> gomap \<Rightarrow> gomap \<Rightarrow> (gomap \<times> string list) checked" where
  "patch_group_strategies registered patch doc =
     (case map_of patch ''group_strategies'' of
        None \<Rightarrow> Inr (doc, [])
      | Some (GMap strategies) \<Rightarrow>
          if (case map_of doc ''group_policy_bindings'' of None \<Rightarrow> False | Some GNil \<Rightarrow> False | Some (GMap _) \<Rightarrow> False | Some _ \<Rightarrow> True)
          then Inl (Not_An_Object ''group_policy_bindings'')
          else map_sum id
            (\<lambda>bindings. (AList.update ''group_policy_bindings'' (GMap bindings) doc, sort (map fst strategies)))
            (patch_strategies registered strategies (object_at doc ''group_policy_bindings''))
      | Some _ \<Rightarrow> Inl (Not_An_Object ''group_strategies''))"

definition patch_probe_model :: "gomap \<Rightarrow> gomap \<Rightarrow> gomap checked" where
  "patch_probe_model patch doc =
     (case map_of patch ''probe_model'' of
        None \<Rightarrow> Inr doc
      | Some (GString s) \<Rightarrow>
          if length s > 256 then Inl (Bad_Value ''probe_model'')
          else Inr (set_field ''probe'' ''model'' (GString (trim_space s)) doc)
      | Some _ \<Rightarrow> Inl (Bad_Value ''probe_model''))"

text \<open>A bounded integer of the patch or the current document, stored in a field of a core section.\<close>

definition patch_integer ::
  "gomap \<Rightarrow> gomap \<Rightarrow> string \<Rightarrow> string \<Rightarrow> string \<Rightarrow> int \<Rightarrow> int \<Rightarrow> int \<Rightarrow> int checked" where
  "patch_integer patch current field section key fallback lo hi =
     sum_bind (patch_or_current patch field current [section, key] (GInt fallback)) (\<lambda>raw. bounded_integer field raw lo hi)"

definition patch_strategy :: "gomap \<Rightarrow> gomap \<Rightarrow> gomap \<Rightarrow> (gomap \<times> string) checked" where
  "patch_strategy patch current doc =
     sum_bind (patch_or_current patch ''global_strategy'' current [''selection'', ''strategy''] (GString ''balanced'')) (\<lambda>raw.
     case normalize_strategy raw of
       None \<Rightarrow> Inl (Bad_Value ''global_strategy'')
     | Some strategy \<Rightarrow>
         Inr (set_field ''selection'' ''strategy'' (GString strategy) (AList.update ''strategy'' (GString strategy) doc), strategy))"

definition patch_weights :: "go_env \<Rightarrow> gomap \<Rightarrow> gomap \<Rightarrow> gomap \<Rightarrow> gomap checked" where
  "patch_weights env patch current doc =
     sum_bind (patch_or_current patch ''missing_rate_fallback'' current [''weights'', ''scheduling_missing_rate_fallback'']
       (GString ''current_cost_wall'')) (\<lambda>raw.
     let missing = trim_space (sprint env raw) in
     if missing \<notin> {''current_cost_wall'', ''fail_closed'', ''fail_open''} then Inl (Bad_Value ''missing_rate_fallback'')
     else
     sum_bind (patch_or_current patch ''change_threshold'' current [''weights'', ''change_threshold''] (GString ''0.1'')) (\<lambda>raw.
     let threshold = trim_space (sprint env raw) in
     if (case decimal_parse threshold of None \<Rightarrow> True | Some x \<Rightarrow> x \<le> 0 \<or> x > 1) then Inl (Bad_Value ''change_threshold'')
     else
     sum_bind (patch_integer patch current ''cooldown_seconds'' ''weights'' ''cooldown_seconds'' 60 0 86400) (\<lambda>cooldown.
     Inr (set_field ''weights'' ''cooldown_seconds'' (GInt cooldown)
           (set_field ''weights'' ''change_threshold'' (GString threshold)
             (set_field ''weights'' ''scheduling_missing_rate_fallback'' (GString missing) doc))))))"

definition patch_scope :: "gomap \<Rightarrow> gomap \<Rightarrow> gomap \<Rightarrow> gomap checked" where
  "patch_scope patch current doc =
     sum_bind (patch_or_current patch ''excluded_group_ids'' current [''scope'', ''excluded_group_ids''] (GList [])) (\<lambda>raw.
     sum_bind (normalized_string_array ''excluded_group_ids'' raw) (\<lambda>ids.
     Inr (set_field ''scope'' ''excluded_group_ids'' (text_list ids) doc)))"

definition patch_traffic_enabled :: "gomap \<Rightarrow> gomap \<Rightarrow> gomap \<Rightarrow> gomap checked" where
  "patch_traffic_enabled patch current doc =
     sum_bind (patch_or_current patch ''traffic_enabled'' current [''traffic'', ''enabled''] (GBool True)) (\<lambda>raw.
     case raw of
       GBool enabled \<Rightarrow> Inr (set_field ''traffic'' ''enabled'' (GBool enabled) doc)
     | _ \<Rightarrow> Inl (Not_A_Bool ''traffic_enabled''))"

definition patch_probe :: "gomap \<Rightarrow> gomap \<Rightarrow> gomap \<Rightarrow> gomap checked" where
  "patch_probe patch current doc =
     sum_bind (patch_integer patch current ''probe_interval_seconds'' ''probe'' ''interval_seconds'' 300 30 86400) (\<lambda>interval.
     patch_probe_model patch (set_field ''probe'' ''interval_seconds'' (GInt interval) doc))"

definition patch_traffic :: "gomap \<Rightarrow> gomap \<Rightarrow> gomap \<Rightarrow> gomap checked" where
  "patch_traffic patch current doc =
     sum_bind (patch_integer patch current ''traffic_lookback_minutes'' ''traffic'' ''lookback_minutes'' 120 1 10080) (\<lambda>lookback.
     sum_bind (patch_integer patch current ''max_samples_per_account'' ''traffic'' ''max_samples_per_account'' 60 1 200) (\<lambda>samples.
     Inr (set_field ''traffic'' ''max_samples_per_account'' (GInt samples)
           (set_field ''traffic'' ''lookback_minutes'' (GInt lookback) doc))))"

text \<open>The updated document, the groups whose strategy the patch names and the global strategy.\<close>

definition normalize_policy_patch ::
  "go_env \<Rightarrow> (string \<Rightarrow> bool) \<Rightarrow> (string \<Rightarrow> bool) \<Rightarrow> gomap \<Rightarrow> gomap \<Rightarrow> (gomap \<times> string list \<times> string) checked" where
  "normalize_policy_patch env zone registered current patch =
     sum_bind (open_sections core_sections current) (\<lambda>doc.
     sum_bind (patch_advanced zone patch doc) (\<lambda>doc.
     sum_bind (patch_strategy patch current doc) (\<lambda>(doc, strategy).
     sum_bind (patch_weights env patch current doc) (\<lambda>doc.
     sum_bind (patch_auto_apply patch doc) (\<lambda>doc.
     sum_bind (patch_scope patch current doc) (\<lambda>doc.
     sum_bind (patch_traffic_enabled patch current doc) (\<lambda>doc.
     sum_bind (patch_probe patch current doc) (\<lambda>doc.
     sum_bind (patch_traffic patch current doc) (\<lambda>doc.
     sum_bind (patch_group_strategies registered patch doc) (\<lambda>(doc, touched).
     sum_bind (validate_policy_relationships doc) (\<lambda>_.
     Inr (doc, touched, strategy))))))))))))"

subsection \<open>What an update keeps\<close>

lemma map_of_set_field: "s \<noteq> section \<Longrightarrow> map_of (set_field section field v doc) s = map_of doc s"
  by (simp add: set_field_def update_conv')

lemma open_sections_keeps: "open_sections ss doc = Inr doc' \<Longrightarrow> s \<notin> set ss \<Longrightarrow> map_of doc' s = map_of doc s"
  by (induction ss doc rule: open_sections.induct) (auto simp: update_conv' split: option.splits goval.splits)

lemma patch_sections_keeps:
  "patch_sections zone es doc = Inr doc' \<Longrightarrow> s \<notin> fst ` set es \<Longrightarrow> map_of doc' s = map_of doc s"
  by (induction zone es doc rule: patch_sections.induct)
    (auto simp: update_conv' sum_bind_Inr Let_def split: option.splits goval.splits)

definition patched_sections :: "gomap \<Rightarrow> string list" where
  "patched_sections patch = map fst (object_at patch ''advanced_policy'')"

lemma patch_advanced_keeps:
  "patch_advanced zone patch doc = Inr doc' \<Longrightarrow> s \<notin> set (patched_sections patch) \<Longrightarrow> map_of doc' s = map_of doc s"
  by (auto simp: patch_advanced_def patched_sections_def object_at_def patch_sections_keeps split: option.splits goval.splits)

lemma patch_auto_apply_keeps: "patch_auto_apply patch doc = Inr doc' \<Longrightarrow> s \<noteq> ''auto_apply'' \<Longrightarrow> map_of doc' s = map_of doc s"
  by (auto simp: patch_auto_apply_def Let_def update_conv' map_sum_Inr split: option.splits goval.splits if_splits)

lemma patch_probe_model_keeps:
  "patch_probe_model patch doc = Inr doc' \<Longrightarrow> s \<noteq> ''probe'' \<Longrightarrow> map_of doc' s = map_of doc s"
  by (auto simp: patch_probe_model_def map_of_set_field split: option.splits goval.splits if_splits)

lemma patch_strategy_keeps:
  "patch_strategy patch current doc = Inr (doc', strategy) \<Longrightarrow> s \<noteq> ''selection'' \<Longrightarrow> s \<noteq> ''strategy'' \<Longrightarrow> map_of doc' s = map_of doc s"
  by (auto simp: patch_strategy_def sum_bind_Inr map_of_set_field update_conv' split: option.splits)

lemma patch_weights_keeps: "patch_weights env patch current doc = Inr doc' \<Longrightarrow> s \<noteq> ''weights'' \<Longrightarrow> map_of doc' s = map_of doc s"
  unfolding patch_weights_def Let_def by (auto simp: sum_bind_Inr map_of_set_field simp del: insert_iff split: if_splits)

lemma patch_scope_keeps: "patch_scope patch current doc = Inr doc' \<Longrightarrow> s \<noteq> ''scope'' \<Longrightarrow> map_of doc' s = map_of doc s"
  by (auto simp: patch_scope_def sum_bind_Inr map_of_set_field)

lemma patch_traffic_enabled_keeps:
  "patch_traffic_enabled patch current doc = Inr doc' \<Longrightarrow> s \<noteq> ''traffic'' \<Longrightarrow> map_of doc' s = map_of doc s"
proof -
  assume "patch_traffic_enabled patch current doc = Inr doc'" "s \<noteq> ''traffic''"
  moreover from this obtain raw where "(case raw of GBool enabled \<Rightarrow> Inr (set_field ''traffic'' ''enabled'' (GBool enabled) doc)
     | _ \<Rightarrow> Inl (Not_A_Bool ''traffic_enabled'')) = Inr doc'" unfolding patch_traffic_enabled_def sum_bind_Inr by blast
  ultimately show ?thesis by (cases raw) (auto simp: map_of_set_field)
qed

lemma patch_probe_keeps: "patch_probe patch current doc = Inr doc' \<Longrightarrow> s \<noteq> ''probe'' \<Longrightarrow> map_of doc' s = map_of doc s"
  by (auto simp: patch_probe_def sum_bind_Inr map_of_set_field dest!: patch_probe_model_keeps)

lemma patch_traffic_keeps: "patch_traffic patch current doc = Inr doc' \<Longrightarrow> s \<noteq> ''traffic'' \<Longrightarrow> map_of doc' s = map_of doc s"
  by (auto simp: patch_traffic_def sum_bind_Inr map_of_set_field)

lemmas patch_core_keeps =
  patch_strategy_keeps patch_weights_keeps patch_scope_keeps patch_traffic_enabled_keeps patch_probe_keeps patch_traffic_keeps

lemma patch_group_strategies_keeps:
  "patch_group_strategies registered patch doc = Inr (doc', touched) \<Longrightarrow> s \<noteq> ''group_policy_bindings'' \<Longrightarrow> map_of doc' s = map_of doc s"
  by (auto simp: patch_group_strategies_def update_conv' map_sum_Inr split: option.splits goval.splits if_splits)

text \<open>The same for a single field of a section: what each step may write are the core fields of its section.\<close>

definition core_fields :: "string \<Rightarrow> string list" where
  "core_fields section = (case map_of advanced_policy_core_fields section of Some fs \<Rightarrow> fs | None \<Rightarrow> [])"

definition field_at :: "gomap \<Rightarrow> string \<Rightarrow> string \<Rightarrow> goval option" where
  "field_at doc s f = map_of (object_at doc s) f"

lemma field_at_update: "s \<noteq> k \<Longrightarrow> field_at (AList.update k v doc) s f = field_at doc s f"
  by (simp add: field_at_def object_at_def update_conv')

lemma field_at_object: "field_at (AList.update s (GMap m) doc) s f = map_of m f"
  by (simp add: field_at_def object_at_def update_conv')

lemma field_at_set_field:
  "\<not> (s = section \<and> f = field) \<Longrightarrow> field_at (set_field section field v doc) s f = field_at doc s f"
  by (cases "s = section") (simp_all add: set_field_def field_at_update field_at_object update_conv', simp add: field_at_def)

lemma core_fields_simps [simp]:
  "core_fields ''selection'' = [''strategy'']"
  "core_fields ''weights'' = [''scheduling_missing_rate_fallback'', ''change_threshold'', ''cooldown_seconds'']"
  "core_fields ''scope'' = [''excluded_group_ids'']" "core_fields ''probe'' = [''interval_seconds'', ''model'']"
  "core_fields ''traffic'' = [''enabled'', ''lookback_minutes'', ''max_samples_per_account'']"
  by (simp_all add: core_fields_def advanced_policy_core_fields_def)

lemma open_sections_field: "open_sections ss doc = Inr doc' \<Longrightarrow> field_at doc' s f = field_at doc s f"
proof (induction ss doc rule: open_sections.induct)
  case (2 x ss doc)
  have "field_at (AList.update x (GMap []) doc) s f = field_at doc s f" if "map_of doc x = None"
    using that by (cases "s = x") (simp_all add: field_at_update field_at_object, simp add: field_at_def object_at_def)
  then show ?case using 2 by (auto split: option.splits goval.splits)
qed simp

lemma patch_strategy_field:
  "patch_strategy patch current doc = Inr (doc', strategy) \<Longrightarrow> s \<noteq> ''strategy'' \<Longrightarrow> f \<notin> set (core_fields s) \<Longrightarrow>
   field_at doc' s f = field_at doc s f"
  by (cases "s = ''selection''")
    (auto simp: patch_strategy_def sum_bind_Inr field_at_set_field field_at_update split: option.splits)

lemma patch_weights_field:
  assumes "patch_weights env patch current doc = Inr doc'" "f \<notin> set (core_fields s)"
  shows "field_at doc' s f = field_at doc s f"
proof -
  obtain missing threshold cooldown where "doc' =
      set_field ''weights'' ''cooldown_seconds'' cooldown
        (set_field ''weights'' ''change_threshold'' threshold
          (set_field ''weights'' ''scheduling_missing_rate_fallback'' missing doc))"
    using assms(1) unfolding patch_weights_def Let_def by (auto simp: sum_bind_Inr simp del: insert_iff split: if_splits)
  then show ?thesis using assms(2) by (cases "s = ''weights''") (simp_all add: field_at_set_field)
qed

lemma patch_scope_field:
  "patch_scope patch current doc = Inr doc' \<Longrightarrow> f \<notin> set (core_fields s) \<Longrightarrow> field_at doc' s f = field_at doc s f"
  by (cases "s = ''scope''") (auto simp: patch_scope_def sum_bind_Inr field_at_set_field)

lemma patch_traffic_enabled_field:
  assumes "patch_traffic_enabled patch current doc = Inr doc'" "f \<notin> set (core_fields s)"
  shows "field_at doc' s f = field_at doc s f"
proof -
  obtain raw where "(case raw of GBool enabled \<Rightarrow> Inr (set_field ''traffic'' ''enabled'' (GBool enabled) doc)
     | _ \<Rightarrow> Inl (Not_A_Bool ''traffic_enabled'')) = Inr doc'"
    using assms(1) unfolding patch_traffic_enabled_def sum_bind_Inr by blast
  then show ?thesis using assms(2) by (cases raw; cases "s = ''traffic''") (auto simp: field_at_set_field)
qed

lemma patch_probe_model_field:
  "patch_probe_model patch doc = Inr doc' \<Longrightarrow> f \<notin> set (core_fields s) \<Longrightarrow> field_at doc' s f = field_at doc s f"
  by (cases "s = ''probe''") (auto simp: patch_probe_model_def field_at_set_field split: option.splits goval.splits if_splits)

lemma patch_probe_field:
  "patch_probe patch current doc = Inr doc' \<Longrightarrow> f \<notin> set (core_fields s) \<Longrightarrow> field_at doc' s f = field_at doc s f"
  by (cases "s = ''probe''") (auto simp: patch_probe_def sum_bind_Inr field_at_set_field dest!: patch_probe_model_field [where s = s and f = f])

lemma patch_traffic_field:
  "patch_traffic patch current doc = Inr doc' \<Longrightarrow> f \<notin> set (core_fields s) \<Longrightarrow> field_at doc' s f = field_at doc s f"
  by (cases "s = ''traffic''") (auto simp: patch_traffic_def sum_bind_Inr field_at_set_field)

lemma keeps_field: "map_of doc' s = map_of doc s \<Longrightarrow> field_at doc' s f = field_at doc s f"
  by (simp add: field_at_def object_at_def)

lemmas patch_core_field =
  patch_strategy_field patch_weights_field patch_scope_field patch_traffic_enabled_field patch_probe_field patch_traffic_field
  open_sections_field keeps_field [OF patch_auto_apply_keeps] keeps_field [OF patch_group_strategies_keeps]

text \<open>A section the patch replaces: the normalised fields it was given, and what the section keeps.\<close>

definition replaced_field :: "gomap \<Rightarrow> gomap \<Rightarrow> string \<Rightarrow> string \<Rightarrow> goval option" where
  "replaced_field current normalized s f =
     (case map_of (rev normalized) f of
        Some v \<Rightarrow> Some v
      | None \<Rightarrow> if s = ''scope'' \<and> f = ''group_locked_account_ids'' then field_at current s f else None)"

lemma replaced_field_same:
  "field_at doc s f = field_at doc' s f \<Longrightarrow> replaced_field doc normalized s f = replaced_field doc' normalized s f"
  by (auto simp: replaced_field_def split: option.split)

lemma map_of_filter_keys: "map_of (filter (\<lambda>e. P (fst e)) m) k = (if P k then map_of m k else None)"
  by (induction m) auto

lemma kept_fields_other:
  "f \<notin> set core \<Longrightarrow> map_of (kept_fields s core m) f =
     (if s = ''scope'' \<and> f = ''group_locked_account_ids'' then map_of m f else None)"
  unfolding kept_fields_def by (subst map_of_filter_keys) simp

lemma replacement_field:
  assumes "f \<notin> set core"
  shows "map_of (AList.updates (map fst normalized) (map snd normalized) (kept_fields s core (object_at doc s))) f =
    replaced_field doc normalized s f"
  using kept_fields_other [OF assms, of s "object_at doc s"]
  by (auto simp: updates_conv' map_upds_def zip_map_fst_snd map_add_def replaced_field_def field_at_def split: option.splits)

lemma patch_sections_replaced:
  assumes "patch_sections zone es doc = Inr doc'" "distinct (map fst es)" "s \<in> fst ` set es" "f \<notin> set (core_fields s)"
  shows "\<exists>incoming normalized. map_of es s = Some (GMap incoming) \<and>
    validate_advanced_section zone s incoming = Inr normalized \<and> field_at doc' s f = replaced_field doc normalized s f"
  using assms
proof (induction es arbitrary: doc)
  case (Cons e es)
  obtain sec raw where e: "e = (sec, raw)" by (cases e)
  obtain incoming normalized where here: "raw = GMap incoming" "validate_advanced_section zone sec incoming = Inr normalized"
    and rest: "patch_sections zone es (AList.update sec
      (GMap (AList.updates (map fst normalized) (map snd normalized)
         (kept_fields sec (core_fields sec) (object_at doc sec)))) doc) = Inr doc'"
    using Cons.prems(1) unfolding e by (auto simp: Let_def sum_bind_Inr core_fields_def split: goval.splits option.splits)
  show ?case
  proof (cases "s = sec")
    case True
    have "map_of doc' s = map_of (AList.update sec (GMap (AList.updates (map fst normalized) (map snd normalized)
        (kept_fields sec (core_fields sec) (object_at doc sec)))) doc) s"
      by (rule patch_sections_keeps [OF rest]) (use Cons.prems(2) True e in auto)
    then have "field_at doc' s f = replaced_field doc normalized s f"
      using Cons.prems(4) True by (simp add: keeps_field field_at_object replacement_field)
    then show ?thesis using here True by (simp add: e)
  next
    case False
    have "s \<in> fst ` set es" using Cons.prems(3) False by (auto simp: e)
    then obtain incoming' normalized' where later: "map_of es s = Some (GMap incoming')"
      "validate_advanced_section zone s incoming' = Inr normalized'"
      "field_at doc' s f = replaced_field (AList.update sec (GMap (AList.updates (map fst normalized) (map snd normalized)
         (kept_fields sec (core_fields sec) (object_at doc sec)))) doc) normalized' s f"
      using Cons.IH [OF rest] Cons.prems(2,4) e by auto
    moreover note replaced_field_same [OF field_at_update [OF False]]
    ultimately show ?thesis using False by (simp add: e)
  qed
qed simp

lemma patch_advanced_replaced:
  assumes "patch_advanced zone patch doc = Inr doc'" "distinct (patched_sections patch)" "s \<in> set (patched_sections patch)"
    "f \<notin> set (core_fields s)"
  shows "\<exists>incoming normalized. map_of (object_at patch ''advanced_policy'') s = Some (GMap incoming) \<and>
    validate_advanced_section zone s incoming = Inr normalized \<and> field_at doc' s f = replaced_field doc normalized s f"
proof -
  obtain advanced where "map_of patch ''advanced_policy'' = Some (GMap advanced)" "patch_sections zone advanced doc = Inr doc'"
    using assms(1,3) by (auto simp: patch_advanced_def patched_sections_def object_at_def split: option.splits goval.splits)
  moreover have "object_at patch ''advanced_policy'' = advanced" using calculation(1) by (simp add: object_at_def)
  ultimately show ?thesis using patch_sections_replaced [of zone advanced doc doc' s f] assms(2-4) by (simp add: patched_sections_def)
qed

text \<open>C38: an update changes what it names, and nothing else. Of a section the patch does not replace, an
  accepted update keeps every field but the core fields of the section (which the simple settings of the
  patch are stored in), and the whole section if it has none that are written; of a section the patch does
  replace, every other field becomes the normalised one of the patch, or is dropped (the locked accounts of
  the scope excepted, which stay). The updated document satisfies the relations between fields.\<close>

theorem patch_changes_what_it_names:
  assumes "normalize_policy_patch env zone registered current patch = Inr (doc, touched, strategy)"
    and "distinct (patched_sections patch)"
    and "s \<noteq> ''strategy''" and "s \<noteq> ''auto_apply''" and "s \<noteq> ''group_policy_bindings''"
    and "f \<notin> set (core_fields s)"
  shows "validate_policy_relationships doc = Inr () \<and>
    (s \<notin> set (patched_sections patch) \<longrightarrow>
       field_at doc s f = field_at current s f \<and> (s \<notin> set core_sections \<longrightarrow> map_of doc s = map_of current s)) \<and>
    (s \<in> set (patched_sections patch) \<longrightarrow>
       (\<exists>incoming normalized. map_of (object_at patch ''advanced_policy'') s = Some (GMap incoming) \<and>
          validate_advanced_section zone s incoming = Inr normalized \<and>
          field_at doc s f = replaced_field current normalized s f))"
proof -
  obtain d1 d2 d3 d4 d5 d6 d7 d8 d9 where steps:
    "open_sections core_sections current = Inr d1" "patch_advanced zone patch d1 = Inr d2"
    "patch_strategy patch current d2 = Inr (d3, strategy)" "patch_weights env patch current d3 = Inr d4"
    "patch_auto_apply patch d4 = Inr d5" "patch_scope patch current d5 = Inr d6" "patch_traffic_enabled patch current d6 = Inr d7"
    "patch_probe patch current d7 = Inr d8" "patch_traffic patch current d8 = Inr d9"
    "patch_group_strategies registered patch d9 = Inr (doc, touched)" "validate_policy_relationships doc = Inr ()"
    using assms(1) by (auto simp: normalize_policy_patch_def sum_bind_Inr)
  have opened: "field_at d1 s g = field_at current s g" for g using steps(1) by (rule open_sections_field)
  have kept: "replaced_field d1 normalized s f = replaced_field current normalized s f" for normalized
    by (rule replaced_field_same) (rule opened)
  have after: "field_at doc s f = field_at d2 s f" using steps(3-10) assms(3-6) by (simp add: patch_core_field)
  have "field_at doc s f = field_at current s f" if "s \<notin> set (patched_sections patch)"
    using after opened keeps_field [OF patch_advanced_keeps [OF steps(2) that]] by simp
  moreover have "map_of doc s = map_of current s" if "s \<notin> set (patched_sections patch)" "s \<notin> set core_sections"
  proof -
    have "s \<noteq> ''selection''" "s \<noteq> ''weights''" "s \<noteq> ''scope''" "s \<noteq> ''probe''" "s \<noteq> ''traffic''"
      using that(2) by (auto simp: core_sections_def)
    then show ?thesis using steps assms(3-5) that
      by (simp add: open_sections_keeps patch_advanced_keeps patch_core_keeps patch_auto_apply_keeps patch_group_strategies_keeps)
  qed
  moreover have "\<exists>incoming normalized. map_of (object_at patch ''advanced_policy'') s = Some (GMap incoming) \<and>
      validate_advanced_section zone s incoming = Inr normalized \<and> field_at doc s f = replaced_field current normalized s f"
    if "s \<in> set (patched_sections patch)"
    using patch_advanced_replaced [OF steps(2) assms(2) that assms(6)] after kept by simp
  ultimately show ?thesis using steps(11) by simp
qed

definition sample_patch :: gomap where
  "sample_patch = [(''global_strategy'', GString ''Reliability''), (''cooldown_seconds'', GInt 90),
     (''advanced_policy'', GMap [(''scoring'', GMap [(''short_window'', GInt 5)])])]"

definition sample_policy :: gomap where
  "sample_policy = [(''breaker'', GMap [(''http_window'', GInt 7)]), (''scoring'', GMap [(''short_window'', GInt 9)])]"

definition sample_updated :: gomap where
  "sample_updated = [(''breaker'', GMap [(''http_window'', GInt 7)]), (''scoring'', GMap [(''short_window'', GInt 5)]),
     (''selection'', GMap [(''strategy'', GString ''reliability'')]),
     (''weights'', GMap [(''scheduling_missing_rate_fallback'', GString ''current_cost_wall''),
        (''change_threshold'', GString ''0.1''), (''cooldown_seconds'', GInt 90)]),
     (''scope'', GMap [(''excluded_group_ids'', GList [])]), (''probe'', GMap [(''interval_seconds'', GInt 300)]),
     (''traffic'', GMap [(''enabled'', GBool True), (''lookback_minutes'', GInt 120), (''max_samples_per_account'', GInt 60)]),
     (''strategy'', GString ''reliability''), (''auto_apply'', GMap [])]"

lemma sample_update_accepted:
  "normalize_policy_patch plain_env (\<lambda>_. True) (\<lambda>_. True) sample_policy sample_patch
     = Inr (sample_updated, [], ''reliability'')"
  by code_simp

theorem patch_changes_what_it_names_witness:
  "validate_policy_relationships sample_updated = Inr () \<and>
   map_of sample_updated ''breaker'' = map_of sample_policy ''breaker'' \<and>
   (\<exists>normalized. validate_advanced_section (\<lambda>_. True) ''scoring'' [(''short_window'', GInt 5)] = Inr normalized \<and>
      field_at sample_updated ''scoring'' ''short_window'' = replaced_field sample_policy normalized ''scoring'' ''short_window'')"
proof -
  have named: "patched_sections sample_patch = [''scoring'']" and scoring: "core_fields ''scoring'' = []" and breaker: "core_fields ''breaker'' = []"
    by code_simp+
  have incoming: "map_of (object_at sample_patch ''advanced_policy'') ''scoring'' = Some (GMap [(''short_window'', GInt 5)])"
    by code_simp
  note update = patch_changes_what_it_names [OF sample_update_accepted]
  show ?thesis
    using update [of "''breaker''" "[]"] update [of "''scoring''" "''short_window''"]
    by (simp add: named scoring breaker incoming core_sections_def)
qed

end
