(* ===== verification/Policy.thy ===== *)
theory Policy
  imports Policy_Rules Pools
begin

text \<open>
  The policy as the routing engine reads it (routing/service.go): \<open>parseEngineConfig\<close> turns the document
  into the configuration of a round, \<open>forGroup\<close> specialises it to a group, and the scope of the upstream
  allocation is read by business/upstream_allocation_scope.go. The property of this theory is a type: what the
  parser accepts lies in the ranges the other components are written for.

  The code fills one struct literal from a \<open>policyReader\<close> that keeps its first error. Here a reader is a
  value, \<open>engine_readers\<close> lists them in the order of the literal, and \<open>run_readers\<close> runs them until one
  refuses. Maps are ranged over in the order of their list, which only matters for the error reported.
\<close>

subsection \<open>Errors and single fields\<close>

datatype config_error =
    Scoring_Refused policy_error
  | Section_Not_Object string
  | Strategy_Refused
  | Change_Threshold_Refused
  | Missing_Rate_Refused
  | Codes_Refused string
  | Action_Refused string
  | Bindings_Not_Object
  | Managed_Mode_Refused
  | Scope_Refused rule_error
  | Integer_Refused string
  | Boolean_Refused string
  | Number_Refused string
  | Strings_Refused string
  | Relation_Refused
  | Binding_Refused string string

type_synonym 'a parsed = "config_error + 'a"

definition required_object :: "gomap \<Rightarrow> string \<Rightarrow> gomap parsed" where
  "required_object parent key =
     (case map_of parent key of
        None \<Rightarrow> Inr []
      | Some (GMap m) \<Rightarrow> Inr m
      | Some _ \<Rightarrow> Inl (Section_Not_Object key))"

definition normalize_strategy_name :: "goval \<Rightarrow> string parsed" where
  "normalize_strategy_name raw =
     (case raw of
        GString s \<Rightarrow>
          let t = to_lower (trim_space s) in
          if t \<in> {''balanced'', ''price_first'', ''speed_first'', ''reliability''} then Inr t else Inl Strategy_Refused
      | _ \<Rightarrow> Inl Strategy_Refused)"

definition strategy_field :: "gomap \<Rightarrow> string \<Rightarrow> string \<Rightarrow> string parsed" where
  "strategy_field source key fallback =
     normalize_strategy_name (case map_of source key of None \<Rightarrow> GString fallback | Some raw \<Rightarrow> raw)"

definition read_integer :: "go_env \<Rightarrow> gomap \<Rightarrow> string \<Rightarrow> string \<Rightarrow> int \<Rightarrow> int \<Rightarrow> int \<Rightarrow> int parsed" where
  "read_integer env source field key fallback minimum maximum =
     (case map_of source key of
        None \<Rightarrow> Inr fallback
      | Some raw \<Rightarrow>
          (case exact_integer env raw of
             None \<Rightarrow> Inl (Integer_Refused field)
           | Some v \<Rightarrow> if v < minimum \<or> v > maximum then Inl (Integer_Refused field) else Inr v))"

definition read_boolean :: "gomap \<Rightarrow> string \<Rightarrow> string \<Rightarrow> bool \<Rightarrow> bool parsed" where
  "read_boolean source field key fallback =
     (case map_of source key of
        None \<Rightarrow> Inr fallback
      | Some (GBool b) \<Rightarrow> Inr b
      | Some _ \<Rightarrow> Inl (Boolean_Refused field))"

definition read_number :: "gomap \<Rightarrow> string \<Rightarrow> string \<Rightarrow> rat \<Rightarrow> rat \<Rightarrow> rat \<Rightarrow> rat parsed" where
  "read_number source field key fallback minimum maximum =
     (case map_of source key of
        None \<Rightarrow> Inr fallback
      | Some raw \<Rightarrow>
          (case strict_number raw of
             None \<Rightarrow> Inl (Number_Refused field)
           | Some v \<Rightarrow> if v < minimum \<or> v > maximum then Inl (Number_Refused field) else Inr v))"

fun read_strings :: "string \<Rightarrow> goval list \<Rightarrow> string list parsed" where
  "read_strings field [] = Inr []"
| "read_strings field (item # items) =
     (case item of
        GString s \<Rightarrow>
          let v = to_lower (trim_space s) in
          if v = [] then Inl (Strings_Refused field) else map_sum id ((#) v) (read_strings field items)
      | _ \<Rightarrow> Inl (Strings_Refused field))"

definition read_string_set :: "gomap \<Rightarrow> string \<Rightarrow> string \<Rightarrow> string list parsed" where
  "read_string_set source field key =
     (case map_of source key of
        None \<Rightarrow> Inr []
      | Some (GList items) \<Rightarrow> read_strings field items
      | Some _ \<Rightarrow> Inl (Strings_Refused field))"

fun read_codes :: "go_env \<Rightarrow> string \<Rightarrow> int \<Rightarrow> int \<Rightarrow> goval list \<Rightarrow> int list parsed" where
  "read_codes env key minimum maximum [] = Inr []"
| "read_codes env key minimum maximum (item # items) =
     (case exact_integer env item of
        None \<Rightarrow> Inl (Codes_Refused key)
      | Some v \<Rightarrow>
          if v < minimum \<or> v > maximum then Inl (Codes_Refused key)
          else map_sum id ((#) v) (read_codes env key minimum maximum items))"

definition integer_set :: "go_env \<Rightarrow> gomap \<Rightarrow> string \<Rightarrow> int \<Rightarrow> int \<Rightarrow> int list parsed" where
  "integer_set env source key minimum maximum =
     (case map_of source key of
        None \<Rightarrow> Inr []
      | Some (GList items) \<Rightarrow> read_codes env key minimum maximum items
      | Some _ \<Rightarrow> Inl (Codes_Refused key))"

text \<open>\<open>decimalField\<close> with \<open>positive\<close> false: a number that is not negative, from its printed form.\<close>

definition decimal_field :: "go_env \<Rightarrow> gomap \<Rightarrow> string \<Rightarrow> string \<Rightarrow> rat option" where
  "decimal_field env source key fallback =
     (case map_of source key of
        Some (GBool _) \<Rightarrow> None
      | raw \<Rightarrow>
          nonneg_rat (Some (sprint env (case raw of None \<Rightarrow> GString fallback | Some v \<Rightarrow> v))))"

subsection \<open>The disposal sections and the scopes\<close>

definition parse_binding_cleanup :: "go_env \<Rightarrow> gomap \<Rightarrow> binding_cleanup_config parsed" where
  "parse_binding_cleanup env policy =
     sum_bind (required_object policy ''binding_cleanup'') (\<lambda>section.
     sum_bind (read_boolean section ''binding_cleanup.enabled'' ''enabled'' False) (\<lambda>enabled.
     sum_bind (read_integer env section ''binding_cleanup.max_per_round'' ''max_per_round'' 1 1 10000) (\<lambda>limit.
     Inr \<lparr>bc_enabled = enabled, bc_max_per_round = limit\<rparr>)))"

definition abnormal_action :: "gomap \<Rightarrow> string parsed" where
  "abnormal_action section =
     (case map_of section ''action'' of
        None \<Rightarrow> Inr ''pause''
      | Some (GString s) \<Rightarrow>
          if s \<in> {''pause'', ''disable'', ''delete''} then Inr s else Inl (Action_Refused ''abnormal_cleanup.action'')
      | Some _ \<Rightarrow> Inl (Action_Refused ''abnormal_cleanup.action''))"

definition parse_abnormal_cleanup :: "go_env \<Rightarrow> gomap \<Rightarrow> abnormal_cleanup_config parsed" where
  "parse_abnormal_cleanup env policy =
     sum_bind (required_object policy ''abnormal_cleanup'') (\<lambda>section.
     sum_bind (abnormal_action section) (\<lambda>action.
     sum_bind (read_boolean section ''abnormal_cleanup.enabled'' ''enabled'' False) (\<lambda>enabled.
     sum_bind (read_integer env section ''abnormal_cleanup.duration_minutes'' ''duration_minutes'' 1440 1 525600) (\<lambda>minutes.
     sum_bind (read_integer env section ''abnormal_cleanup.max_per_round'' ''max_per_round'' 1 1 10000) (\<lambda>limit.
     sum_bind (read_boolean section ''abnormal_cleanup.keep_last_in_group'' ''keep_last_in_group'' True) (\<lambda>keep_last.
     Inr \<lparr>ac_enabled = enabled, ac_action = action, ac_duration = minutes * nmin,
          ac_max_per_round = limit, ac_keep_last = keep_last\<rparr>))))))"

definition global_scaling_enabled :: "gomap \<Rightarrow> bool" where
  "global_scaling_enabled policy \<longleftrightarrow>
     map_of (object_at policy ''scaling'') ''enabled'' = Some (GBool True) \<or>
     list_ex (\<lambda>(g, raw). case raw of
        GMap binding \<Rightarrow>
          map_of binding ''enabled'' \<noteq> Some (GBool False) \<and> map_of binding ''scaling_enabled'' = Some (GBool True)
      | _ \<Rightarrow> False) (object_at policy ''group_policy_bindings'')"

definition scope_ids :: "gomap \<Rightarrow> string \<Rightarrow> string list" where
  "scope_ids m key =
     (case map_of m key of
        Some (GList items) \<Rightarrow> List.map_filter (\<lambda>v. case v of GString s \<Rightarrow> Some s | _ \<Rightarrow> None) items
      | _ \<Rightarrow> [])"

definition scope_overrides :: "gomap \<Rightarrow> string \<Rightarrow> (string \<times> bool) list" where
  "scope_overrides m key =
     List.map_filter (\<lambda>(i, v). case v of GBool b \<Rightarrow> Some (i, b) | _ \<Rightarrow> None) (object_at m key)"

definition parse_allocation_scope :: "(string \<Rightarrow> bool) \<Rightarrow> gomap \<Rightarrow> allocation_scope checked" where
  "parse_allocation_scope zone raw =
     map_sum id
       (\<lambda>m. \<lparr>as_enabled = (map_of m ''enabled'' = Some (GBool True)),
             as_mode = (case map_of m ''account_mode'' of Some (GString s) \<Rightarrow> s | _ \<Rightarrow> ''all''),
             as_account_ids = scope_ids m ''account_ids'', as_upstream_ids = scope_ids m ''upstream_ids'',
             as_account_overrides = scope_overrides m ''account_overrides'',
             as_upstream_overrides = scope_overrides m ''upstream_overrides''\<rparr>)
       (validate_advanced_section zone ''upstream_concurrency'' raw)"

definition cleanup_action_field :: "gomap \<Rightarrow> string parsed" where
  "cleanup_action_field cleanup =
     (case map_of cleanup ''action'' of
        None \<Rightarrow> Inr ''pause''
      | Some (GString s) \<Rightarrow>
          let t = to_lower (trim_space s) in
          if t \<in> {''none'', ''pause'', ''disable'', ''delete''} then Inr t else Inl (Action_Refused ''cleanup.action'')
      | Some _ \<Rightarrow> Inl (Action_Refused ''cleanup.action''))"

definition missing_rate_field :: "gomap \<Rightarrow> string parsed" where
  "missing_rate_field weights =
     (case map_of weights ''scheduling_missing_rate_fallback'' of
        Some (GString s) \<Rightarrow>
          let t = to_lower (trim_space s) in
          if t \<in> {''current_cost_wall'', ''fail_closed'', ''fail_open''} then Inr t else Inl Missing_Rate_Refused
      | _ \<Rightarrow> Inl Missing_Rate_Refused)"

definition change_threshold_field :: "go_env \<Rightarrow> gomap \<Rightarrow> rat parsed" where
  "change_threshold_field env weights =
     (case decimal_field env weights ''change_threshold'' ''0.1'' of
        None \<Rightarrow> Inl Change_Threshold_Refused
      | Some x \<Rightarrow> if x \<le> 0 \<or> x > 1 then Inl Change_Threshold_Refused else Inr x)"

definition bindings_field :: "gomap \<Rightarrow> gomap parsed" where
  "bindings_field policy =
     (case map_of policy ''group_policy_bindings'' of
        None \<Rightarrow> Inr []
      | Some (GMap m) \<Rightarrow> Inr m
      | Some _ \<Rightarrow> Inl Bindings_Not_Object)"

text \<open>A mode that is no string reads like a missing one.\<close>

definition managed_mode_field :: "gomap \<Rightarrow> string parsed" where
  "managed_mode_field scope =
     (let mode = map_text scope ''managed_group_mode'';
          mode = (if mode = [] then ''all'' else mode)
      in if mode \<noteq> ''all'' \<and> mode \<noteq> ''selected'' then Inl Managed_Mode_Refused else Inr mode)"

subsection \<open>The readers of the configuration\<close>

datatype reader =
    Read_Integer string string int int int "int \<Rightarrow> engine_config \<Rightarrow> engine_config"
  | Read_Number string string rat rat rat "rat \<Rightarrow> engine_config \<Rightarrow> engine_config"
  | Read_Boolean string string bool "bool \<Rightarrow> engine_config \<Rightarrow> engine_config"
  | Read_Strings string string "string list \<Rightarrow> engine_config \<Rightarrow> engine_config"

fun run_reader :: "go_env \<Rightarrow> gomap \<Rightarrow> reader \<Rightarrow> engine_config \<Rightarrow> engine_config parsed" where
  "run_reader env policy (Read_Integer section key fallback lo hi put) c =
     map_sum id (\<lambda>v. put v c) (read_integer env (object_at policy section) (section @ ''.'' @ key) key fallback lo hi)"
| "run_reader env policy (Read_Number section key fallback lo hi put) c =
     map_sum id (\<lambda>v. put v c) (read_number (object_at policy section) (section @ ''.'' @ key) key fallback lo hi)"
| "run_reader env policy (Read_Boolean section key fallback put) c =
     map_sum id (\<lambda>v. put v c) (read_boolean (object_at policy section) (section @ ''.'' @ key) key fallback)"
| "run_reader env policy (Read_Strings section key put) c =
     map_sum id (\<lambda>v. put v c) (read_string_set (object_at policy section) (section @ ''.'' @ key) key)"

fun run_readers :: "go_env \<Rightarrow> gomap \<Rightarrow> reader list \<Rightarrow> engine_config \<Rightarrow> engine_config parsed" where
  "run_readers env policy [] c = Inr c"
| "run_readers env policy (r # rs) c = sum_bind (run_reader env policy r c) (run_readers env policy rs)"

definition engine_readers :: "reader list" where
  "engine_readers =
     [Read_Boolean ''traffic'' ''enabled'' True (\<lambda>v c. c\<lparr>ec_traffic_enabled := v\<rparr>),
      Read_Integer ''traffic'' ''lookback_minutes'' 120 1 10080 (\<lambda>v c. c\<lparr>ec_traffic_max_age := v * nmin\<rparr>),
      Read_Integer ''probe'' ''freshness_seconds'' 900 1 86400 (\<lambda>v c. c\<lparr>ec_probe_max_age := v * nsec\<rparr>),
      Read_Integer ''probe'' ''interval_seconds'' 300 1 86400 (\<lambda>v c. c\<lparr>ec_probe_interval := v * nsec\<rparr>),
      Read_Boolean ''probe'' ''performance_exploration_enabled'' True (\<lambda>v c. c\<lparr>ec_probe_performance_enabled := v\<rparr>),
      Read_Integer ''scoring'' ''history_window_minutes'' 1440 1 10080 (\<lambda>v c. c\<lparr>ec_history_max_age := v * nmin\<rparr>),
      Read_Integer ''scoring'' ''short_window'' 10 1 10000 (\<lambda>v c. c\<lparr>ec_short_window := nat v\<rparr>),
      Read_Integer ''scoring'' ''long_window'' 60 1 100000 (\<lambda>v c. c\<lparr>ec_long_window := nat v\<rparr>),
      Read_Boolean ''breaker'' ''enabled'' True (\<lambda>v c. c\<lparr>ec_breaker_enabled := v\<rparr>),
      Read_Boolean ''breaker'' ''hard_fatal'' True (\<lambda>v c. c\<lparr>ec_hard_fatal := v\<rparr>),
      Read_Integer ''breaker'' ''http_window'' 5 1 10000 (\<lambda>v c. c\<lparr>ec_http_window := nat v\<rparr>),
      Read_Integer ''breaker'' ''http_failures'' 3 1 10000 (\<lambda>v c. c\<lparr>ec_http_failures := v\<rparr>),
      Read_Number ''breaker'' ''http_score_below'' 60 0 100 (\<lambda>v c. c\<lparr>ec_http_score_below := v\<rparr>),
      Read_Integer ''breaker'' ''transient_consecutive_failures'' 2 1 10000 (\<lambda>v c. c\<lparr>ec_transient_failures := v\<rparr>),
      Read_Integer ''breaker'' ''latency_window'' 10 1 10000 (\<lambda>v c. c\<lparr>ec_latency_window := nat v\<rparr>),
      Read_Integer ''breaker'' ''latency_occurrences'' 5 1 10000 (\<lambda>v c. c\<lparr>ec_latency_occurrences := v\<rparr>),
      Read_Number ''breaker'' ''latency_ttfb_ms'' 15000 1 3600000 (\<lambda>v c. c\<lparr>ec_latency_ttfb_ms := v\<rparr>),
      Read_Integer ''breaker'' ''max_switch_per_round'' 1 1 10000 (\<lambda>v c. c\<lparr>ec_max_switch := v\<rparr>),
      Read_Integer ''breaker'' ''min_pool_size'' 1 0 10000 (\<lambda>v c. c\<lparr>ec_min_pool := v\<rparr>),
      Read_Number ''breaker'' ''min_pool_score'' 3 0 100 (\<lambda>v c. c\<lparr>ec_min_pool_score := v\<rparr>),
      Read_Integer ''breaker'' ''fused_cooldown_seconds'' 180 0 86400 (\<lambda>v c. c\<lparr>ec_fused_cooldown := v * nsec\<rparr>),
      Read_Boolean ''breaker'' ''http_degrade_only'' True (\<lambda>v c. c\<lparr>ec_http_degrade_only := v\<rparr>),
      Read_Boolean ''breaker'' ''latency_degrade_only'' True (\<lambda>v c. c\<lparr>ec_latency_degrade_only := v\<rparr>),
      Read_Boolean ''degrade'' ''enabled'' True (\<lambda>v c. c\<lparr>ec_degrade_enabled := v\<rparr>),
      Read_Number ''degrade'' ''score_threshold'' 75 0 100 (\<lambda>v c. c\<lparr>ec_degrade_threshold := v\<rparr>),
      Read_Integer ''degrade'' ''priority_step'' 10 1 1000000 (\<lambda>v c. c\<lparr>ec_degrade_priority_step := v\<rparr>),
      Read_Number ''degrade'' ''load_factor_ratio'' (1/2) smallest_float 1 (\<lambda>v c. c\<lparr>ec_degrade_load_ratio := v\<rparr>),
      Read_Integer ''degrade'' ''min_load_factor'' 1 1 1000000 (\<lambda>v c. c\<lparr>ec_degrade_min_load := v\<rparr>),
      Read_Boolean ''recovery'' ''enabled'' True (\<lambda>v c. c\<lparr>ec_recovery_enabled := v\<rparr>),
      Read_Number ''recovery'' ''target_score'' 75 0 100 (\<lambda>v c. c\<lparr>ec_recovery_target := v\<rparr>),
      Read_Integer ''recovery'' ''success_count'' 2 1 10000 (\<lambda>v c. c\<lparr>ec_recovery_successes := v\<rparr>),
      Read_Integer ''recovery'' ''hold_seconds'' 60 0 86400 (\<lambda>v c. c\<lparr>ec_recovery_hold := v * nsec\<rparr>),
      Read_Boolean ''weights'' ''enabled'' True (\<lambda>v c. c\<lparr>ec_weights_enabled := v\<rparr>),
      Read_Integer ''weights'' ''budget'' 400 1 1000000 (\<lambda>v c. c\<lparr>ec_weight_budget := v\<rparr>),
      Read_Integer ''manual_priority'' ''reserved_max'' 10 1 1000 (\<lambda>v c. c\<lparr>ec_manual_priority_max := v\<rparr>),
      Read_Boolean ''scope'' ''manage_all_accounts'' True (\<lambda>v c. c\<lparr>ec_manage_all_accounts := v\<rparr>),
      Read_Number ''weights'' ''gate_floor'' 40 0 100 (\<lambda>v c. c\<lparr>ec_gate_floor := v\<rparr>),
      Read_Number ''weights'' ''price_exp'' 1 smallest_float 100 (\<lambda>v c. c\<lparr>ec_price_exp := v\<rparr>),
      Read_Number ''weights'' ''speed_exp'' 1 smallest_float 100 (\<lambda>v c. c\<lparr>ec_speed_exp := v\<rparr>),
      Read_Number ''weights'' ''balanced_price_ratio'' (1/2) 0 1 (\<lambda>v c. c\<lparr>ec_balanced_price_ratio := v\<rparr>),
      Read_Integer ''weights'' ''performance_min_samples'' 5 1 200 (\<lambda>v c. c\<lparr>ec_performance_min_samples := v\<rparr>),
      Read_Number ''weights'' ''speed_advantage_cap'' 4 1 100 (\<lambda>v c. c\<lparr>ec_speed_advantage_cap := v\<rparr>),
      Read_Integer ''weights'' ''cooldown_seconds'' 60 0 86400 (\<lambda>v c. c\<lparr>ec_cooldown := v * nsec\<rparr>),
      Read_Integer ''weights'' ''min_load_factor'' 1 1 1000000 (\<lambda>v c. c\<lparr>ec_min_load_factor := v\<rparr>),
      Read_Integer ''weights'' ''max_load_factor'' 100 1 1000000 (\<lambda>v c. c\<lparr>ec_max_load_factor := v\<rparr>),
      Read_Boolean ''scaling'' ''enabled'' False (\<lambda>v c. c\<lparr>ec_scaling_enabled := v\<rparr>),
      Read_Integer ''scaling'' ''global_max_concurrency'' 900 1 10000000 (\<lambda>v c. c\<lparr>ec_scaling_global_max := v\<rparr>),
      Read_Boolean ''upstream_concurrency'' ''enabled'' False (\<lambda>v c. c\<lparr>ec_upstream_reduction_enabled := v\<rparr>),
      Read_Boolean ''cost_wall'' ''enabled'' True (\<lambda>v c. c\<lparr>ec_cost_wall_enabled := v\<rparr>),
      Read_Boolean ''cost_wall'' ''fallback_enabled'' True (\<lambda>v c. c\<lparr>ec_cost_wall_fallback_enabled := v\<rparr>),
      Read_Boolean ''cost_wall'' ''stop_auto_probe'' True (\<lambda>v c. c\<lparr>ec_cost_wall_stop_auto_probe := v\<rparr>),
      Read_Integer ''scaling'' ''min_per_account'' 3 1 1000000 (\<lambda>v c. c\<lparr>ec_scaling_min := v\<rparr>),
      Read_Integer ''scaling'' ''max_per_account'' 250 1 1000000 (\<lambda>v c. c\<lparr>ec_scaling_max := v\<rparr>),
      Read_Number ''scaling'' ''scale_up_ratio'' (fl (8/10)) smallest_float 1 (\<lambda>v c. c\<lparr>ec_scaling_up_ratio := v\<rparr>),
      Read_Integer ''scaling'' ''step_up'' 5 1 1000000 (\<lambda>v c. c\<lparr>ec_scaling_step_up := v\<rparr>),
      Read_Integer ''scaling'' ''step_down'' 5 1 1000000 (\<lambda>v c. c\<lparr>ec_scaling_step_down := v\<rparr>),
      Read_Integer ''scaling'' ''cooldown_seconds'' 60 0 86400 (\<lambda>v c. c\<lparr>ec_scaling_cooldown := v * nsec\<rparr>),
      Read_Boolean ''auto_apply'' ''concurrency'' False (\<lambda>v c. c\<lparr>ec_apply_concurrency := v\<rparr>),
      Read_Boolean ''auto_apply'' ''schedulable'' False (\<lambda>v c. c\<lparr>ec_apply_schedulable := v\<rparr>),
      Read_Strings ''scope'' ''excluded_group_ids'' (\<lambda>v c. c\<lparr>ec_excluded_groups := v\<rparr>),
      Read_Strings ''scope'' ''excluded_account_ids'' (\<lambda>v c. c\<lparr>ec_excluded_accounts := v\<rparr>),
      Read_Strings ''scope'' ''ignore_cost_wall_account_ids'' (\<lambda>v c. c\<lparr>ec_ignore_cost_wall_accounts := v\<rparr>),
      Read_Strings ''scope'' ''paused_account_ids'' (\<lambda>v c. c\<lparr>ec_paused_accounts := v\<rparr>),
      Read_Strings ''scope'' ''manual_fused_account_ids'' (\<lambda>v c. c\<lparr>ec_manual_fused_accounts := v\<rparr>),
      Read_Strings ''scope'' ''managed_group_ids'' (\<lambda>v c. c\<lparr>ec_managed_groups := v\<rparr>),
      Read_Strings ''scope'' ''account_types'' (\<lambda>v c. c\<lparr>ec_account_types := v\<rparr>),
      Read_Strings ''scope'' ''platforms'' (\<lambda>v c. c\<lparr>ec_platforms := v\<rparr>),
      Read_Boolean ''cleanup'' ''enabled'' False (\<lambda>v c. c\<lparr>ec_cleanup_enabled := v\<rparr>),
      Read_Integer ''cleanup'' ''occurrences'' 3 1 10000 (\<lambda>v c. c\<lparr>ec_cleanup_occurrences := v\<rparr>),
      Read_Integer ''cleanup'' ''window'' 5 1 10000 (\<lambda>v c. c\<lparr>ec_cleanup_window := nat v\<rparr>),
      Read_Integer ''cleanup'' ''min_fused_minutes'' 30 0 10080 (\<lambda>v c. c\<lparr>ec_cleanup_observation := v * nmin\<rparr>),
      Read_Integer ''cleanup'' ''max_per_round'' 1 1 10000 (\<lambda>v c. c\<lparr>ec_cleanup_max_per_round := v\<rparr>),
      Read_Boolean ''cleanup'' ''keep_last_in_group'' True (\<lambda>v c. c\<lparr>ec_cleanup_keep_last := v\<rparr>),
      Read_Boolean ''cleanup'' ''only_auth_errors'' True (\<lambda>v c. c\<lparr>ec_cleanup_only_auth := v\<rparr>)]"

text \<open>
  The literal before its readers: every field they set starts at its fallback (each reader sets its field
  whatever it finds, so no other value shows), and the fields \<open>parseEngineConfig\<close> leaves out are zero.
\<close>

definition initial_config :: engine_config where
  "initial_config =
     \<lparr>ec_binding_cleanup = \<lparr>bc_enabled = False, bc_max_per_round = 1\<rparr>,
      ec_abnormal_cleanup = \<lparr>ac_enabled = False, ac_action = ''pause'', ac_duration = 1440 * nmin, ac_max_per_round = 1, ac_keep_last = True\<rparr>,
      ec_sample_classification =
        \<lparr>sc_short_window = 10, sc_long_window = 60, sc_latest_weight = 1/2, sc_short_ratio = fl (7/10), sc_slow_ttfb_ms = 5000,
         sc_event_scores = default_event_score, sc_fatal_patterns = default_fatal_patterns,
         sc_quota_patterns = default_quota_patterns, sc_gateway_codes = default_gateway_codes,
         sc_client_codes = default_client_codes\<rparr>,
      ec_strategy = ''balanced'', ec_traffic_enabled = True, ec_traffic_max_age = 120 * nmin, ec_probe_max_age = 900 * nsec,
      ec_probe_interval = 300 * nsec, ec_probe_performance_enabled = True, ec_history_max_age = 1440 * nmin,
      ec_short_window = 10, ec_long_window = 60, ec_breaker_enabled = True, ec_hard_fatal = True, ec_http_window = 5,
      ec_http_failures = 3, ec_http_score_below = 60, ec_transient_failures = 2, ec_latency_window = 10,
      ec_latency_occurrences = 5, ec_latency_ttfb_ms = 15000, ec_max_switch = 1, ec_min_pool = 1, ec_min_pool_score = 3,
      ec_fused_cooldown = 180 * nsec, ec_instant_codes = [], ec_http_degrade_only = True, ec_latency_degrade_only = True,
      ec_degrade_enabled = True, ec_degrade_threshold = 75, ec_degrade_priority_step = 10, ec_degrade_load_ratio = 1/2,
      ec_degrade_min_load = 1, ec_recovery_enabled = True, ec_recovery_target = 75, ec_recovery_successes = 2,
      ec_recovery_hold = 60 * nsec, ec_weights_enabled = True, ec_weight_budget = 400, ec_manual_priority_max = 10,
      ec_manage_all_accounts = True, ec_gate_floor = 40, ec_price_exp = 1, ec_speed_exp = 1, ec_balanced_price_ratio = 1/2,
      ec_performance_min_samples = 5, ec_speed_advantage_cap = 4, ec_missing_rate_fallback = [], ec_change_threshold = None,
      ec_cooldown = 60 * nsec, ec_min_load_factor = 1, ec_max_load_factor = 100, ec_scaling_enabled = False,
      ec_global_scaling_enabled = False, ec_upstream_reduction_enabled = False,
      ec_upstream_allocation_scope = \<lparr>as_enabled = False, as_mode = ''all'', as_account_ids = [], as_upstream_ids = [],
         as_account_overrides = [], as_upstream_overrides = []\<rparr>,
      ec_cost_wall_enabled = True, ec_cost_wall_fallback_enabled = True, ec_cost_wall_stop_auto_probe = True,
      ec_scaling_global_max = 900, ec_scaling_min = 3, ec_scaling_max = 250, ec_scaling_up_ratio = fl (8/10),
      ec_scaling_step_up = 5, ec_scaling_step_down = 5, ec_scaling_cooldown = 60 * nsec, ec_apply_concurrency = False,
      ec_apply_schedulable = False, ec_excluded_groups = [], ec_excluded_accounts = [], ec_ignore_cost_wall_accounts = [],
      ec_paused_accounts = [], ec_manual_fused_accounts = [], ec_managed_mode = ''all'', ec_managed_groups = [],
      ec_account_types = [], ec_platforms = [], ec_group_bindings = [], ec_cleanup_enabled = False,
      ec_cleanup_action = ''pause'', ec_cleanup_occurrences = 3, ec_cleanup_window = 5, ec_cleanup_observation = 30 * nmin,
      ec_cleanup_max_per_round = 1, ec_cleanup_keep_last = True, ec_cleanup_only_auth = True, ec_cleanup_status_codes = [],
      ec_animation_enabled = False, ec_animation_pass_multiplier = 0, ec_animation_fail_multiplier = 0,
      ec_animation_failure_action = []\<rparr>"

subsection \<open>parseEngineConfig\<close>

fun require_objects :: "gomap \<Rightarrow> string list \<Rightarrow> unit parsed" where
  "require_objects policy [] = Inr ()"
| "require_objects policy (s # ss) = sum_bind (required_object policy s) (\<lambda>_. require_objects policy ss)"

definition engine_sections :: "string list" where
  "engine_sections =
     [''selection'', ''weights'', ''traffic'', ''probe'', ''breaker'', ''degrade'', ''recovery'', ''scaling'', ''auto_apply'',
      ''upstream_concurrency'', ''cost_wall'', ''cleanup'', ''scope'', ''manual_priority'']"

definition thresholds_related :: "engine_config \<Rightarrow> bool" where
  "thresholds_related c \<longleftrightarrow>
     ec_http_failures c \<le> int (ec_http_window c) \<and> ec_latency_occurrences c \<le> int (ec_latency_window c) \<and>
     ec_min_load_factor c \<le> ec_max_load_factor c \<and> ec_scaling_min c \<le> ec_scaling_max c \<and>
     ec_cleanup_occurrences c \<le> int (ec_cleanup_window c)"

text \<open>The status 429 is dropped from both sets of codes.\<close>

definition parse_engine_config ::
  "go_env \<Rightarrow> (string \<Rightarrow> bool) \<Rightarrow> (event \<times> string) list \<Rightarrow> gomap \<Rightarrow> engine_config parsed" where
  "parse_engine_config env zone order policy =
     sum_bind (map_sum Scoring_Refused id (parse_scoring_config order policy)) (\<lambda>classification.
     sum_bind (require_objects policy engine_sections) (\<lambda>_.
     sum_bind (strategy_field (object_at policy ''selection'') ''strategy'' ''balanced'') (\<lambda>strategy.
     sum_bind (change_threshold_field env (object_at policy ''weights'')) (\<lambda>change.
     sum_bind (missing_rate_field (object_at policy ''weights'')) (\<lambda>missing.
     sum_bind (integer_set env (object_at policy ''breaker'') ''instant_status_codes'' 100 599) (\<lambda>instant_codes.
     sum_bind (integer_set env (object_at policy ''cleanup'') ''trigger_status_codes'' 100 599) (\<lambda>cleanup_codes.
     sum_bind (cleanup_action_field (object_at policy ''cleanup'')) (\<lambda>cleanup_action.
     sum_bind (bindings_field policy) (\<lambda>bindings.
     sum_bind (managed_mode_field (object_at policy ''scope'')) (\<lambda>managed_mode.
     sum_bind (map_sum Scope_Refused id (parse_allocation_scope zone (object_at policy ''upstream_concurrency''))) (\<lambda>scope.
     sum_bind (parse_binding_cleanup env policy) (\<lambda>binding_cleanup.
     sum_bind (parse_abnormal_cleanup env policy) (\<lambda>abnormal_cleanup.
     sum_bind (run_readers env policy engine_readers
       (initial_config
          \<lparr>ec_sample_classification := classification, ec_global_scaling_enabled := global_scaling_enabled policy,
           ec_strategy := strategy, ec_change_threshold := Some change, ec_missing_rate_fallback := missing,
           ec_instant_codes := filter ((\<noteq>) 429) instant_codes, ec_cleanup_status_codes := filter ((\<noteq>) 429) cleanup_codes,
           ec_cleanup_action := cleanup_action, ec_group_bindings := bindings, ec_managed_mode := managed_mode,
           ec_upstream_allocation_scope := scope, ec_binding_cleanup := binding_cleanup,
           ec_abnormal_cleanup := abnormal_cleanup\<rparr>)) (\<lambda>config.
     if thresholds_related config then Inr config else Inl Relation_Refused))))))))))))))"

subsection \<open>forGroup\<close>

definition binding_bool :: "string \<Rightarrow> gomap \<Rightarrow> string \<Rightarrow> (bool \<Rightarrow> 'a) \<Rightarrow> 'a \<Rightarrow> 'a parsed" where
  "binding_bool g binding field put unchanged =
     (case map_of binding field of
        None \<Rightarrow> Inr unchanged
      | Some (GBool b) \<Rightarrow> Inr (put b)
      | Some _ \<Rightarrow> Inl (Binding_Refused g field))"

definition binding_integer ::
  "go_env \<Rightarrow> string \<Rightarrow> gomap \<Rightarrow> string \<Rightarrow> (int \<Rightarrow> bool) \<Rightarrow> (int \<Rightarrow> engine_config \<Rightarrow> engine_config)
     \<Rightarrow> engine_config \<Rightarrow> engine_config parsed" where
  "binding_integer env g binding field accepts put c =
     (case map_of binding field of
        None \<Rightarrow> Inr c
      | Some raw \<Rightarrow>
          (case exact_integer env raw of
             None \<Rightarrow> Inl (Binding_Refused g field)
           | Some v \<Rightarrow> if accepts v then Inr (put v c) else Inl (Binding_Refused g field)))"

definition binding_number ::
  "string \<Rightarrow> gomap \<Rightarrow> string \<Rightarrow> rat \<Rightarrow> (rat \<Rightarrow> engine_config \<Rightarrow> engine_config) \<Rightarrow> engine_config \<Rightarrow> engine_config parsed" where
  "binding_number g binding field hi put c =
     (case map_of binding field of
        None \<Rightarrow> Inr c
      | Some raw \<Rightarrow>
          (case strict_number raw of
             None \<Rightarrow> Inl (Binding_Refused g field)
           | Some v \<Rightarrow> if v < 0 \<or> v > hi then Inl (Binding_Refused g field) else Inr (put v c)))"

definition binding_strategy :: "string \<Rightarrow> gomap \<Rightarrow> engine_config \<Rightarrow> engine_config parsed" where
  "binding_strategy g binding c =
     (case map_of binding ''strategy'' of
        None \<Rightarrow> Inr c
      | Some raw \<Rightarrow>
          (case normalize_strategy_name raw of
             Inl _ \<Rightarrow> Inl (Binding_Refused g ''strategy'')
           | Inr s \<Rightarrow> Inr (c\<lparr>ec_strategy := s\<rparr>)))"

definition binding_animation_action :: "string \<Rightarrow> gomap \<Rightarrow> engine_config \<Rightarrow> engine_config parsed" where
  "binding_animation_action g binding c =
     (case map_of binding ''animation_failure_action'' of
        None \<Rightarrow> Inr c
      | Some (GString s) \<Rightarrow>
          if s \<in> {''ignore'', ''degrade'', ''fuse''} then Inr (c\<lparr>ec_animation_failure_action := s\<rparr>)
          else Inl (Binding_Refused g ''animation_failure_action'')
      | Some _ \<Rightarrow> Inl (Binding_Refused g ''animation_failure_action''))"

definition animation_defaults :: "engine_config \<Rightarrow> engine_config" where
  "animation_defaults c =
     (let c = (if ec_animation_pass_multiplier c = 0 \<and> ec_animation_fail_multiplier c = 0
               then c\<lparr>ec_animation_pass_multiplier := 1, ec_animation_fail_multiplier := 1\<rparr> else c)
      in if ec_animation_failure_action c = [] then c\<lparr>ec_animation_failure_action := ''ignore''\<rparr> else c)"

text \<open>The switches and the two integers are ranged over in a Go map; here in the order they are written.\<close>

definition apply_binding :: "go_env \<Rightarrow> string \<Rightarrow> gomap \<Rightarrow> engine_config \<Rightarrow> (engine_config \<times> bool) parsed" where
  "apply_binding env g binding c =
     (let c = animation_defaults c in
     sum_bind (binding_bool g binding ''enabled'' id True) (\<lambda>enabled.
     sum_bind (binding_strategy g binding c) (\<lambda>c.
     sum_bind (binding_integer env g binding ''probe_interval_seconds'' (\<lambda>v. 30 \<le> v \<and> v \<le> 86400) (\<lambda>v c. c\<lparr>ec_probe_interval := v * nsec\<rparr>) c) (\<lambda>c.
     sum_bind (binding_bool g binding ''breaker_enabled'' (\<lambda>b. c\<lparr>ec_breaker_enabled := b\<rparr>) c) (\<lambda>c.
     sum_bind (binding_bool g binding ''recovery_enabled'' (\<lambda>b. c\<lparr>ec_recovery_enabled := b\<rparr>) c) (\<lambda>c.
     sum_bind (binding_bool g binding ''weights_enabled'' (\<lambda>b. c\<lparr>ec_weights_enabled := b\<rparr>) c) (\<lambda>c.
     sum_bind (binding_bool g binding ''scaling_enabled'' (\<lambda>b. c\<lparr>ec_scaling_enabled := b\<rparr>) c) (\<lambda>c.
     sum_bind (binding_integer env g binding ''min_pool_size'' (\<lambda>v. 0 \<le> v) (\<lambda>v c. c\<lparr>ec_min_pool := v\<rparr>) c) (\<lambda>c.
     sum_bind (binding_integer env g binding ''weight_budget'' (\<lambda>v. 1 \<le> v) (\<lambda>v c. c\<lparr>ec_weight_budget := v\<rparr>) c) (\<lambda>c.
     sum_bind (binding_number g binding ''balanced_price_ratio'' 1 (\<lambda>v c. c\<lparr>ec_balanced_price_ratio := v\<rparr>) c) (\<lambda>c.
     sum_bind (binding_bool g binding ''animation_enabled'' (\<lambda>b. c\<lparr>ec_animation_enabled := b\<rparr>) c) (\<lambda>c.
     sum_bind (binding_number g binding ''animation_pass_multiplier'' 10 (\<lambda>v c. c\<lparr>ec_animation_pass_multiplier := v\<rparr>) c) (\<lambda>c.
     sum_bind (binding_number g binding ''animation_fail_multiplier'' 10 (\<lambda>v c. c\<lparr>ec_animation_fail_multiplier := v\<rparr>) c) (\<lambda>c.
     sum_bind (binding_animation_action g binding c) (\<lambda>c.
     Inr (c, enabled))))))))))))))))"

definition for_group :: "go_env \<Rightarrow> engine_config \<Rightarrow> string option \<Rightarrow> (engine_config \<times> bool) parsed" where
  "for_group env c group_id =
     (case group_id of
        None \<Rightarrow> Inr (c, True)
      | Some g \<Rightarrow>
          (case map_of (ec_group_bindings c) g of
             None \<Rightarrow> Inr (c, True)
           | Some (GMap binding) \<Rightarrow> apply_binding env g binding c
           | Some _ \<Rightarrow> Inl (Binding_Refused g [])))"

subsection \<open>What a configuration guarantees\<close>

definition between :: "'a::order \<Rightarrow> 'a \<Rightarrow> 'a \<Rightarrow> bool" where
  "between lo hi v \<longleftrightarrow> lo \<le> v \<and> v \<le> hi"

definition evidence_ranges :: "engine_config \<Rightarrow> bool" where
  "evidence_ranges c \<longleftrightarrow>
     config_ok (ec_sample_classification c) \<and>
     between nmin (10080 * nmin) (ec_traffic_max_age c) \<and> between nsec (86400 * nsec) (ec_probe_max_age c) \<and>
     between nsec (86400 * nsec) (ec_probe_interval c) \<and> between nmin (10080 * nmin) (ec_history_max_age c) \<and>
     between 1 10000 (ec_short_window c) \<and> between 1 100000 (ec_long_window c) \<and>
     between 1 200 (ec_performance_min_samples c)"

definition breaker_ranges :: "engine_config \<Rightarrow> bool" where
  "breaker_ranges c \<longleftrightarrow>
     between 1 10000 (ec_http_window c) \<and> between 1 10000 (ec_http_failures c) \<and>
     between 0 100 (ec_http_score_below c) \<and> between 1 10000 (ec_transient_failures c) \<and>
     between 1 10000 (ec_latency_window c) \<and> between 1 10000 (ec_latency_occurrences c) \<and>
     between 1 3600000 (ec_latency_ttfb_ms c) \<and> between 1 10000 (ec_max_switch c) \<and> 0 \<le> ec_min_pool c \<and>
     between 0 100 (ec_min_pool_score c) \<and> between 0 (86400 * nsec) (ec_fused_cooldown c) \<and>
     list_all (\<lambda>s. between 100 599 s \<and> s \<noteq> 429) (ec_instant_codes c) \<and>
     between 0 100 (ec_recovery_target c) \<and> between 1 10000 (ec_recovery_successes c) \<and>
     between 0 (86400 * nsec) (ec_recovery_hold c)"

definition placement_ranges :: "engine_config \<Rightarrow> bool" where
  "placement_ranges c \<longleftrightarrow>
     ec_strategy c \<in> {''balanced'', ''price_first'', ''speed_first'', ''reliability''} \<and>
     between 0 100 (ec_degrade_threshold c) \<and> between 1 1000000 (ec_degrade_priority_step c) \<and>
     between smallest_float 1 (ec_degrade_load_ratio c) \<and> between 1 1000000 (ec_degrade_min_load c) \<and>
     1 \<le> ec_weight_budget c \<and> between 1 1000 (ec_manual_priority_max c) \<and> between 0 100 (ec_gate_floor c) \<and>
     between smallest_float 100 (ec_price_exp c) \<and> between smallest_float 100 (ec_speed_exp c) \<and>
     between 0 1 (ec_balanced_price_ratio c) \<and> between 1 100 (ec_speed_advantage_cap c) \<and>
     between 0 (86400 * nsec) (ec_cooldown c) \<and> between 1 1000000 (ec_min_load_factor c) \<and>
     between 1 1000000 (ec_max_load_factor c) \<and>
     (case ec_change_threshold c of None \<Rightarrow> False | Some x \<Rightarrow> 0 < x \<and> x \<le> 1) \<and>
     ec_missing_rate_fallback c \<in> {''current_cost_wall'', ''fail_closed'', ''fail_open''} \<and>
     between 0 10 (ec_animation_pass_multiplier c) \<and> between 0 10 (ec_animation_fail_multiplier c) \<and>
     ec_animation_failure_action c \<in> {[], ''ignore'', ''degrade'', ''fuse''}"

definition capacity_ranges :: "engine_config \<Rightarrow> bool" where
  "capacity_ranges c \<longleftrightarrow>
     between 1 1000000 (ec_scaling_min c) \<and> between 1 1000000 (ec_scaling_max c) \<and>
     between 1 1000000 (ec_scaling_step_up c) \<and> between 1 1000000 (ec_scaling_step_down c) \<and>
     between 1 10000000 (ec_scaling_global_max c) \<and> between smallest_float 1 (ec_scaling_up_ratio c) \<and>
     between 0 (86400 * nsec) (ec_scaling_cooldown c)"

definition cleanup_ranges :: "engine_config \<Rightarrow> bool" where
  "cleanup_ranges c \<longleftrightarrow>
     ec_cleanup_action c \<in> {''none'', ''pause'', ''disable'', ''delete''} \<and>
     between 1 10000 (ec_cleanup_occurrences c) \<and> between 1 10000 (ec_cleanup_window c) \<and>
     between 0 (10080 * nmin) (ec_cleanup_observation c) \<and> between 1 10000 (ec_cleanup_max_per_round c) \<and>
     list_all (\<lambda>s. between 100 599 s \<and> s \<noteq> 429) (ec_cleanup_status_codes c) \<and> between 1 10000 (bc_max_per_round (ec_binding_cleanup c)) \<and>
     ac_action (ec_abnormal_cleanup c) \<in> {''pause'', ''disable'', ''delete''} \<and>
     between nmin (525600 * nmin) (ac_duration (ec_abnormal_cleanup c)) \<and>
     between 1 10000 (ac_max_per_round (ec_abnormal_cleanup c)) \<and>
     ec_managed_mode c \<in> {''all'', ''selected''}"

definition engine_ranges :: "engine_config \<Rightarrow> bool" where
  "engine_ranges c \<longleftrightarrow>
     evidence_ranges c \<and> breaker_ranges c \<and> placement_ranges c \<and> capacity_ranges c \<and> cleanup_ranges c"

definition engine_config_ok :: "engine_config \<Rightarrow> bool" where
  "engine_config_ok c \<longleftrightarrow> engine_ranges c \<and> thresholds_related c \<and> pool_config c"

lemmas range_defs = engine_ranges_def evidence_ranges_def breaker_ranges_def placement_ranges_def capacity_ranges_def
  cleanup_ranges_def

lemma related_pool_config: "capacity_ranges c \<Longrightarrow> thresholds_related c \<Longrightarrow> pool_config c"
  by (auto simp: capacity_ranges_def thresholds_related_def pool_config_def between_def capacity_range_def max_int64_def)

lemma betweenD: "between lo hi v \<Longrightarrow> lo \<le> v"
  by (simp add: between_def)

lemma between_scaled [simp]:
  "between nsec (n * nsec) (v * nsec) \<longleftrightarrow> between 1 n v" "between nmin (n * nmin) (v * nmin) \<longleftrightarrow> between 1 n v"
  "between 0 (n * nsec) (v * nsec) \<longleftrightarrow> between 0 n v" "between 0 (n * nmin) (v * nmin) \<longleftrightarrow> between 0 n v"
  by (auto simp: between_def nsec_def nmin_def)

lemma between_nat [simp]: "between (Suc 0) (numeral n) (nat v) \<longleftrightarrow> between 1 (numeral n) v"
  by (auto simp: between_def nat_le_iff)

lemma read_integer_range:
  "read_integer env source field key fallback lo hi = Inr v \<Longrightarrow> lo \<le> fallback \<Longrightarrow> fallback \<le> hi \<Longrightarrow> between lo hi v"
  by (auto simp: read_integer_def between_def split: option.splits if_splits)

lemma read_number_range:
  "read_number source field key fallback lo hi = Inr v \<Longrightarrow> lo \<le> fallback \<Longrightarrow> fallback \<le> hi \<Longrightarrow> between lo hi v"
  by (auto simp: read_number_def between_def split: option.splits if_splits)

text \<open>A reader keeps the ranges: whatever it may read leaves the configuration within them.\<close>

fun reader_sound :: "reader \<Rightarrow> bool" where
  "reader_sound (Read_Integer section key fallback lo hi put) \<longleftrightarrow>
     lo \<le> fallback \<and> fallback \<le> hi \<and> (\<forall>v c. between lo hi v \<longrightarrow> lo \<le> v \<longrightarrow> engine_ranges c \<longrightarrow> engine_ranges (put v c))"
| "reader_sound (Read_Number section key fallback lo hi put) \<longleftrightarrow>
     lo \<le> fallback \<and> fallback \<le> hi \<and> (\<forall>v c. between lo hi v \<longrightarrow> lo \<le> v \<longrightarrow> engine_ranges c \<longrightarrow> engine_ranges (put v c))"
| "reader_sound (Read_Boolean section key fallback put) \<longleftrightarrow> (\<forall>v c. engine_ranges c \<longrightarrow> engine_ranges (put v c))"
| "reader_sound (Read_Strings section key put) \<longleftrightarrow> (\<forall>v c. engine_ranges c \<longrightarrow> engine_ranges (put v c))"

lemma run_reader_ranges:
  "run_reader env policy r c = Inr c' \<Longrightarrow> reader_sound r \<Longrightarrow> engine_ranges c \<Longrightarrow> engine_ranges c'"
  by (cases r) (auto simp: map_sum_Inr dest: betweenD dest!: read_integer_range read_number_range)

lemma run_readers_ranges:
  "run_readers env policy rs c = Inr c' \<Longrightarrow> list_all reader_sound rs \<Longrightarrow> engine_ranges c \<Longrightarrow> engine_ranges c'"
  by (induction rs arbitrary: c) (auto simp: sum_bind_Inr dest: run_reader_ranges)

lemma default_fractions:
  "smallest_float \<le> 1" "smallest_float * 2 \<le> 1" "smallest_float \<le> fl (4/5)" "fl (4/5) \<le> 1"
proof -
  have s: "smallest_float \<le> 1/2"
    using pow2_le_iff [of "- 1074" "- 1"] by (simp add: smallest_float_def pow2_def)
  then show "smallest_float \<le> 1" "smallest_float * 2 \<le> 1" by linarith+
  have "1/2 \<le> fl (4/5)"
    using fl_mono [of "1/2" "4/5"] fl_grid [of 1 "- 1"] by (simp add: pow2_def)
  then show "smallest_float \<le> fl (4/5)" using s by linarith
  show "fl (4/5) \<le> 1" using fl_mono [of "4/5" 1] by simp
qed

lemma engine_readers_sound: "list_all reader_sound engine_readers"
  unfolding engine_readers_def list.pred_inject reader_sound.simps
  by (intro conjI allI impI) (simp_all add: range_defs default_fractions)

lemma read_codes_range: "read_codes env key lo hi items = Inr codes \<Longrightarrow> list_all (between lo hi) codes"
  by (induction items arbitrary: codes) (auto simp: map_sum_Inr between_def split: option.splits if_splits)

lemma integer_set_range: "integer_set env source key lo hi = Inr codes \<Longrightarrow> list_all (between lo hi) codes"
  by (auto simp: integer_set_def dest: read_codes_range split: option.splits goval.splits)

lemma accepted_codes:
  assumes "integer_set env source key 100 599 = Inr codes"
  shows "list_all (\<lambda>s. between 100 599 s \<and> s \<noteq> 429) (filter ((\<noteq>) 429) codes)"
  using integer_set_range [OF assms] by (auto simp: list_all_iff)

lemma parse_binding_cleanup_range:
  "parse_binding_cleanup env policy = Inr b \<Longrightarrow> between 1 10000 (bc_max_per_round b)"
  by (auto simp: parse_binding_cleanup_def sum_bind_Inr dest!: read_integer_range)

lemma abnormal_action_range: "abnormal_action section = Inr s \<Longrightarrow> s \<in> {''pause'', ''disable'', ''delete''}"
  by (auto simp: abnormal_action_def split: option.splits goval.splits if_splits)

lemma parse_abnormal_cleanup_range:
  assumes "parse_abnormal_cleanup env policy = Inr a"
  shows "ac_action a \<in> {''pause'', ''disable'', ''delete''} \<and> between nmin (525600 * nmin) (ac_duration a) \<and>
    between 1 10000 (ac_max_per_round a)"
proof -
  obtain sec action enabled minutes limit keep_last where
    a: "abnormal_action sec = Inr action"
    "read_integer env sec ''abnormal_cleanup.duration_minutes'' ''duration_minutes'' 1440 1 525600 = Inr minutes"
    "read_integer env sec ''abnormal_cleanup.max_per_round'' ''max_per_round'' 1 1 10000 = Inr limit"
    "a = \<lparr>ac_enabled = enabled, ac_action = action, ac_duration = minutes * nmin, ac_max_per_round = limit, ac_keep_last = keep_last\<rparr>"
    using assms by (auto simp: parse_abnormal_cleanup_def sum_bind_Inr)
  show ?thesis
    using abnormal_action_range [OF a(1)] read_integer_range [OF a(2)] read_integer_range [OF a(3)] by (simp add: a(4))
qed

lemma strategy_range:
  "normalize_strategy_name raw = Inr s \<Longrightarrow> s \<in> {''balanced'', ''price_first'', ''speed_first'', ''reliability''}"
  by (auto simp: normalize_strategy_name_def Let_def split: goval.splits if_splits)

lemma change_threshold_range: "change_threshold_field env weights = Inr x \<Longrightarrow> 0 < x \<and> x \<le> 1"
  by (auto simp: change_threshold_field_def split: option.splits if_splits)

lemma missing_rate_range:
  "missing_rate_field weights = Inr s \<Longrightarrow> s \<in> {''current_cost_wall'', ''fail_closed'', ''fail_open''}"
  by (auto simp: missing_rate_field_def Let_def split: option.splits goval.splits if_splits)

lemma cleanup_action_range:
  "cleanup_action_field cleanup = Inr s \<Longrightarrow> s \<in> {''none'', ''pause'', ''disable'', ''delete''}"
  by (auto simp: cleanup_action_field_def Let_def split: option.splits goval.splits if_splits)

lemma managed_mode_range: "managed_mode_field scope = Inr s \<Longrightarrow> s \<in> {''all'', ''selected''}"
  by (auto simp: managed_mode_field_def Let_def split: if_splits)

lemma parse_engine_config_ok:
  assumes "parse_engine_config env zone order policy = Inr config"
  shows "engine_config_ok config"
proof -
  obtain classification strategy change missing instant_codes cleanup_codes cleanup_action bindings managed_mode scope
      binding_cleanup abnormal_cleanup where
    p: "parse_scoring_config order policy = Inr classification"
      "strategy_field (object_at policy ''selection'') ''strategy'' ''balanced'' = Inr strategy"
      "change_threshold_field env (object_at policy ''weights'') = Inr change"
      "missing_rate_field (object_at policy ''weights'') = Inr missing"
      "cleanup_action_field (object_at policy ''cleanup'') = Inr cleanup_action"
      "managed_mode_field (object_at policy ''scope'') = Inr managed_mode"
      "parse_binding_cleanup env policy = Inr binding_cleanup"
      "parse_abnormal_cleanup env policy = Inr abnormal_cleanup"
      "integer_set env (object_at policy ''breaker'') ''instant_status_codes'' 100 599 = Inr instant_codes"
      "integer_set env (object_at policy ''cleanup'') ''trigger_status_codes'' 100 599 = Inr cleanup_codes" and
    run: "run_readers env policy engine_readers
       (initial_config
          \<lparr>ec_sample_classification := classification, ec_global_scaling_enabled := global_scaling_enabled policy,
           ec_strategy := strategy, ec_change_threshold := Some change, ec_missing_rate_fallback := missing,
           ec_instant_codes := filter ((\<noteq>) 429) instant_codes, ec_cleanup_status_codes := filter ((\<noteq>) 429) cleanup_codes,
           ec_cleanup_action := cleanup_action, ec_group_bindings := bindings, ec_managed_mode := managed_mode,
           ec_upstream_allocation_scope := scope, ec_binding_cleanup := binding_cleanup,
           ec_abnormal_cleanup := abnormal_cleanup\<rparr>) = Inr config" and
    related: "thresholds_related config"
    using assms unfolding parse_engine_config_def sum_bind_Inr map_sum_Inr by (auto split: if_splits)
  have "engine_ranges config"
    by (rule run_readers_ranges [OF run engine_readers_sound])
      (use parse_scoring_config_ok [OF p(1)] strategy_range [OF p(2) [unfolded strategy_field_def]]
        change_threshold_range [OF p(3)] missing_rate_range [OF p(4)] cleanup_action_range [OF p(5)]
        managed_mode_range [OF p(6)] parse_binding_cleanup_range [OF p(7)] parse_abnormal_cleanup_range [OF p(8)]
        accepted_codes [OF p(9)] accepted_codes [OF p(10)]
        in \<open>simp add: range_defs initial_config_def between_def default_fractions nsec_def nmin_def\<close>)
  then show ?thesis using related related_pool_config by (simp add: engine_config_ok_def engine_ranges_def)
qed
lemma binding_bool_cases:
  "binding_bool g binding field put unchanged = Inr x \<Longrightarrow> P unchanged \<Longrightarrow> (\<And>b. P (put b)) \<Longrightarrow> P x"
  by (auto simp: binding_bool_def split: option.splits goval.splits)

lemma binding_integer_cases:
  "binding_integer env g binding field accepts put c = Inr x \<Longrightarrow> P c \<Longrightarrow> (\<And>v. accepts v \<Longrightarrow> P (put v c)) \<Longrightarrow> P x"
  by (auto simp: binding_integer_def split: option.splits if_splits)

lemma binding_number_cases:
  "binding_number g binding field hi put c = Inr x \<Longrightarrow> P c \<Longrightarrow> (\<And>v. between 0 hi v \<Longrightarrow> P (put v c)) \<Longrightarrow> P x"
  by (auto simp: binding_number_def between_def split: option.splits if_splits)

lemmas config_ok_defs = engine_config_ok_def range_defs thresholds_related_def pool_config_def

lemma set_strategy_ok:
  "s \<in> {''balanced'', ''price_first'', ''speed_first'', ''reliability''} \<Longrightarrow> engine_config_ok c \<Longrightarrow> engine_config_ok (c\<lparr>ec_strategy := s\<rparr>)"
  by (simp add: config_ok_defs)

lemma binding_strategy_ok: "binding_strategy g binding c = Inr d \<Longrightarrow> engine_config_ok c \<Longrightarrow> engine_config_ok d"
  by (auto simp only: binding_strategy_def Inr_inject sum.simps set_strategy_ok strategy_range split: option.splits sum.splits)

lemma set_animation_action_ok:
  "s \<in> {''ignore'', ''degrade'', ''fuse''} \<Longrightarrow> engine_config_ok c \<Longrightarrow> engine_config_ok (c\<lparr>ec_animation_failure_action := s\<rparr>)"
  by (simp add: config_ok_defs)

lemma plain_multipliers_ok:
  "engine_config_ok c \<Longrightarrow> engine_config_ok (c\<lparr>ec_animation_pass_multiplier := 1, ec_animation_fail_multiplier := 1\<rparr>)"
  by (simp add: config_ok_defs between_def [of 0 10 "1::rat"])

lemma animation_defaults_ok: "engine_config_ok c \<Longrightarrow> engine_config_ok (animation_defaults c)"
  using set_animation_action_ok [of "''ignore''"] plain_multipliers_ok by (simp add: animation_defaults_def Let_def)

lemma binding_animation_action_ok:
  "binding_animation_action g binding c = Inr d \<Longrightarrow> engine_config_ok c \<Longrightarrow> engine_config_ok d"
  by (auto simp: binding_animation_action_def set_animation_action_ok split: option.splits goval.splits if_splits)

lemma binding_switch_ok:
  "engine_config_ok c \<Longrightarrow> engine_config_ok (c\<lparr>ec_breaker_enabled := b\<rparr>)"
  "engine_config_ok c \<Longrightarrow> engine_config_ok (c\<lparr>ec_recovery_enabled := b\<rparr>)"
  "engine_config_ok c \<Longrightarrow> engine_config_ok (c\<lparr>ec_weights_enabled := b\<rparr>)"
  "engine_config_ok c \<Longrightarrow> engine_config_ok (c\<lparr>ec_scaling_enabled := b\<rparr>)"
  "engine_config_ok c \<Longrightarrow> engine_config_ok (c\<lparr>ec_animation_enabled := b\<rparr>)"
  by (simp_all add: config_ok_defs)

lemma binding_value_ok:
  "30 \<le> v \<and> v \<le> 86400 \<Longrightarrow> engine_config_ok c \<Longrightarrow> engine_config_ok (c\<lparr>ec_probe_interval := v * nsec\<rparr>)"
  "0 \<le> v \<Longrightarrow> engine_config_ok c \<Longrightarrow> engine_config_ok (c\<lparr>ec_min_pool := v\<rparr>)"
  "1 \<le> v \<Longrightarrow> engine_config_ok c \<Longrightarrow> engine_config_ok (c\<lparr>ec_weight_budget := v\<rparr>)"
  "between 0 1 x \<Longrightarrow> engine_config_ok c \<Longrightarrow> engine_config_ok (c\<lparr>ec_balanced_price_ratio := x\<rparr>)"
  "between 0 10 x \<Longrightarrow> engine_config_ok c \<Longrightarrow> engine_config_ok (c\<lparr>ec_animation_pass_multiplier := x\<rparr>)"
  "between 0 10 x \<Longrightarrow> engine_config_ok c \<Longrightarrow> engine_config_ok (c\<lparr>ec_animation_fail_multiplier := x\<rparr>)"
  by (simp_all add: config_ok_defs) (simp add: between_def)

lemma apply_binding_ok:
  assumes "apply_binding env g binding c0 = Inr (c', enabled)" "engine_config_ok c0"
  shows "engine_config_ok c'"
proof -
  obtain c1 c2 c3 c4 c5 c6 c7 c8 c9 c10 c11 c12 where s:
    "binding_strategy g binding (animation_defaults c0) = Inr c1"
    "binding_integer env g binding ''probe_interval_seconds'' (\<lambda>v. 30 \<le> v \<and> v \<le> 86400) (\<lambda>v c. c\<lparr>ec_probe_interval := v * nsec\<rparr>) c1 = Inr c2"
    "binding_bool g binding ''breaker_enabled'' (\<lambda>b. c2\<lparr>ec_breaker_enabled := b\<rparr>) c2 = Inr c3"
    "binding_bool g binding ''recovery_enabled'' (\<lambda>b. c3\<lparr>ec_recovery_enabled := b\<rparr>) c3 = Inr c4"
    "binding_bool g binding ''weights_enabled'' (\<lambda>b. c4\<lparr>ec_weights_enabled := b\<rparr>) c4 = Inr c5"
    "binding_bool g binding ''scaling_enabled'' (\<lambda>b. c5\<lparr>ec_scaling_enabled := b\<rparr>) c5 = Inr c6"
    "binding_integer env g binding ''min_pool_size'' (\<lambda>v. 0 \<le> v) (\<lambda>v c. c\<lparr>ec_min_pool := v\<rparr>) c6 = Inr c7"
    "binding_integer env g binding ''weight_budget'' (\<lambda>v. 1 \<le> v) (\<lambda>v c. c\<lparr>ec_weight_budget := v\<rparr>) c7 = Inr c8"
    "binding_number g binding ''balanced_price_ratio'' 1 (\<lambda>v c. c\<lparr>ec_balanced_price_ratio := v\<rparr>) c8 = Inr c9"
    "binding_bool g binding ''animation_enabled'' (\<lambda>b. c9\<lparr>ec_animation_enabled := b\<rparr>) c9 = Inr c10"
    "binding_number g binding ''animation_pass_multiplier'' 10 (\<lambda>v c. c\<lparr>ec_animation_pass_multiplier := v\<rparr>) c10 = Inr c11"
    "binding_number g binding ''animation_fail_multiplier'' 10 (\<lambda>v c. c\<lparr>ec_animation_fail_multiplier := v\<rparr>) c11 = Inr c12"
    "binding_animation_action g binding c12 = Inr c'"
    using assms(1) unfolding apply_binding_def Let_def sum_bind_Inr by blast
  note ok = binding_switch_ok binding_value_ok
  have "engine_config_ok c1" by (rule binding_strategy_ok [OF s(1) animation_defaults_ok [OF assms(2)]])
  then have "engine_config_ok c2" using s(2) ok by (elim binding_integer_cases)
  then have "engine_config_ok c3" using s(3) ok by (elim binding_bool_cases)
  then have "engine_config_ok c4" using s(4) ok by (elim binding_bool_cases)
  then have "engine_config_ok c5" using s(5) ok by (elim binding_bool_cases)
  then have "engine_config_ok c6" using s(6) ok by (elim binding_bool_cases)
  then have "engine_config_ok c7" using s(7) ok by (elim binding_integer_cases)
  then have "engine_config_ok c8" using s(8) ok by (elim binding_integer_cases)
  then have "engine_config_ok c9" using s(9) ok by (elim binding_number_cases)
  then have "engine_config_ok c10" using s(10) ok by (elim binding_bool_cases)
  then have "engine_config_ok c11" using s(11) ok by (elim binding_number_cases)
  then have "engine_config_ok c12" using s(12) ok by (elim binding_number_cases)
  then show ?thesis by (rule binding_animation_action_ok [OF s(13)])
qed

text \<open>C39: a configuration is well formed. Whatever document the engine accepts, and to whatever group it
  specialises it, the configuration lies in the ranges of \<open>engine_config_ok\<close>: windows, thresholds, cooldowns,
  weights, multipliers and capacities within the bounds of the parser, status codes valid and never 429,
  every choice one of its admitted words, and the thresholds related to their windows.\<close>

theorem parsed_configuration_ok:
  assumes "parse_engine_config env zone order policy = Inr config"
    and "for_group env config group_id = Inr (specialised, enabled)"
  shows "engine_config_ok config \<and> engine_config_ok specialised"
proof -
  have ok: "engine_config_ok config" by (rule parse_engine_config_ok [OF assms(1)])
  moreover have "engine_config_ok specialised"
    using assms(2) ok by (auto simp: for_group_def split: option.splits goval.splits dest: apply_binding_ok)
  ultimately show ?thesis by simp
qed

definition sample_document :: gomap where
  "sample_document =
     [(''weights'', GMap [(''scheduling_missing_rate_fallback'', GString ''fail_open''), (''budget'', GInt 250)]),
      (''breaker'', GMap [(''instant_status_codes'', GList [GInt 429, GInt 503]), (''http_window'', GString ''8'')]),
      (''group_policy_bindings'', GMap [(''3'', GMap [(''strategy'', GString ''reliability''), (''min_pool_size'', GInt 4)])])]"

definition sample_outcome :: "(engine_config \<times> engine_config) option" where
  "sample_outcome =
     (case parse_engine_config plain_env (\<lambda>_. True) event_score_fields sample_document of
        Inl _ \<Rightarrow> None
      | Inr c \<Rightarrow> (case for_group plain_env c (Some ''3'') of Inl _ \<Rightarrow> None | Inr (d, _) \<Rightarrow> Some (c, d)))"

lemma sample_outcome_exists:
  "(case sample_outcome of None \<Rightarrow> False | Some (c, d) \<Rightarrow> ec_instant_codes c = [503] \<and> ec_min_pool d = 4)"
  by code_simp

lemma parsed_configuration_ok_witness:
  "case sample_outcome of None \<Rightarrow> False | Some (c, d) \<Rightarrow> engine_config_ok c \<and> engine_config_ok d"
proof (cases sample_outcome)
  case None
  then show ?thesis using sample_outcome_exists by simp
next
  case (Some p)
  obtain c d where p: "p = (c, d)" by (cases p)
  obtain enabled where "parse_engine_config plain_env (\<lambda>_. True) event_score_fields sample_document = Inr c"
    "for_group plain_env c (Some ''3'') = Inr (d, enabled)"
    using Some by (auto simp: sample_outcome_def p split: sum.splits)
  then have "engine_config_ok c \<and> engine_config_ok d" by (rule parsed_configuration_ok)
  then show ?thesis by (simp add: Some p)
qed

end
