(* ===== verification/Spec2Isabelle.thy ===== *)
theory Spec2Isabelle
  imports Local_Locks Lease_Renewal Mutation_Guard Task_Group Routing_Round Cleanup Assignment Policy
begin

text \<open>
  A verification development for the Go backend of the sub2api console (src/backend/internal).

  \<^bold>\<open>The program.\<close> The console manages the accounts of a sub2api gateway. Its core is a scheduling round
  (routing/service.go, \<open>Calculate\<close>): from the policy document, the inventory of accounts and the samples of
  their traffic and probes it computes, for every account, whether it receives traffic, with which priority,
  weight and concurrency, and whether it is disposed of. Around the round, background jobs run in bounded
  task groups (taskrunner/runner.go), and every mutation of an account or upstream is serialised by a guard
  (mutationguard/guard.go) over leases in the database (business/mutation_lease.go) or over locks of the
  process.

  \<^bold>\<open>How a round runs.\<close> \<open>Policy\<close> parses the document that \<open>Policy_Rules\<close> accepted from the editor.
  \<open>Evidence\<close> selects the samples of an account and scores them with \<open>Scoring\<close>; \<open>Routing_State\<close> judges each
  membership; \<open>Routing_Round\<close> composes the judgements with \<open>Fuse_Budget\<close> (which pending fuses are carried
  out) and \<open>Cost_Wall\<close> (which accounts are too expensive for their group); \<open>Placement\<close>, \<open>Capacity\<close> and
  \<open>Pools\<close> assign priorities and concurrency, composed by \<open>Assignment\<close>; \<open>Cleanup\<close> disposes of accounts.

  \<^bold>\<open>Theories and the code they model.\<close>

  \<^item> \<open>Prelude\<close>: Go strings, times, durations and integers; sorting by a comparison (the locale
    \<open>strict_weak\<close>); folds, sums and results of fallible code. \<open>Float64\<close>: \<open>float64\<close> as rationals rounded to 53
    bits, without NaN and infinities. \<open>Go_Values\<close>: decoded JSON and the conversions of strconv.
  \<^item> \<open>Lease_Store\<close>: \<open>AcquireMutationLease\<close>, \<open>RenewMutationLease\<close> and \<open>ReleaseMutationLease\<close> as transactions
    on a table of leases; the locale \<open>lease_store\<close> is their contract with the guard, interpreted on the model.
  \<^item> \<open>Mutation_Guard\<close>: resource names, the nesting order, automatic leases and \<open>acquire\<close> (the loop
    over the store and over local locks, with its calls as a trace). \<open>Lease_Renewal\<close>: \<open>leaseDeadline\<close>, the
    renewal goroutine and the expiry watchdog as a step relation. \<open>Local_Locks\<close>: the reference-counted
    locks of the process as a step relation.
  \<^item> \<open>Task_Group\<close>: every method of \<open>Group\<close> and \<open>TaskRunner\<close>; events under the mutex are partial functions
    on the state, and a run is a list of events.
  \<^item> \<open>Scoring\<close>: routing/scoring.go, usagequality/usage.go, upstreamerror/capacity.go.
  \<^item> \<open>Routing_Model\<close>: the data of a round (accounts, configuration, candidates) and its predicates.
    \<open>Sample_Round\<close>: small values the witnesses share.
  \<^item> \<open>Evidence\<close>: the evidence files of routing and recovery_status.go. \<open>Fuse_Budget\<close>, \<open>Cost_Wall\<close>,
    \<open>Routing_State\<close>, \<open>Routing_Round\<close>: the phases of routing/service.go, cost_wall.go and manual_cost_wall.go.
  \<^item> \<open>Capacity\<close>, \<open>Placement\<close>, \<open>Pools\<close>, \<open>Assignment\<close>: upstream_scaling.go, stable_placement.go,
    upstream_reduction.go, upstream_allocation.go, global_upstream_allocation.go and their neighbours.
  \<^item> \<open>Cleanup\<close>: the three disposals; each is an interpretation of the locale \<open>disposal\<close>, which proves once
    what a phase may dispose of, how much, and what it leaves in a group.
  \<^item> \<open>Policy_Rules\<close>: business/policy.go (validation and partial update) and probe_pause.go. \<open>Policy\<close>:
    \<open>parseEngineConfig\<close> and \<open>forGroup\<close>, with the section parsers they call.

  \<^bold>\<open>What is shown.\<close>

  \<^item> Coordination: leases exclude each other and are granted as a whole; guarded acquisitions cannot
    deadlock and account for every lease they took; no lease context escapes the watchdog at the lease's
    expiry; local locks are exclusive; task groups count exactly, respect their limits, lose no wake-up
    and drain.
  \<^item> Judgement: classifications agree with their events; scores are bounded; evidence is fresh, bounded
    and newest first; closed states receive no traffic; a fuse is only left on evidence after it; pending
    evidence only lowers a score; fuse budgets resolve every pending fuse within the soft limit and the
    minimum pool; the cost wall closes no group that could stay open.
  \<^item> Assignment: quotas and priorities are computed by loops that end, exactly and within bounds; the
    placement crosses no better account; the plan of an upstream stays within its limit.
  \<^item> Disposal: every disposal has its cause, respects the limits of the round and keeps the last account
    of a group where the policy says so.
  \<^item> Policy: what the editor stores it accepts again, an update changes only what it names, and a
    configuration the engine accepts is within the ranges the other components rely on.

  \<^bold>\<open>Loops and fuel.\<close> Structural recursion wherever the code ranges over data. Loops whose end is not
  evident (the rounds of \<open>boundedConcurrencyQuotas\<close>, of the shared allocation, the search for a free
  priority) are \<open>partial_function (option)\<close>, and their properties state that they return. The only fuel is the
  depth bound the code itself has in capacityErrorValue (seventeen levels). The guard's waiting loops are
  driven by the list of answers their environment gives.

  \<^bold>\<open>Parameters.\<close> What is not under src is an argument: JSON decoding and printing of numbers, time parsing,
  time zones, \<open>math.Pow\<close>, \<open>Log\<close> and \<open>Exp\<close>, the database's answers and the reader of recovery traffic; the
  record \<open>go_env\<close> holds those a round shares. Go ranges over maps in no order; the model takes a list, and
  where the result must not depend on the order the theorems hold for every list.

  \<^bold>\<open>Not modelled.\<close> The SQL text and row scanning of business and the other stores, HTTP handlers and clients,
  browser automation, message delivery, and the localised texts of reasons and errors (reasons are
  constructors). Of the modelled files, the entry points of the upstream scope that parse a document for a
  single new account, \<open>CostWallProbeBlocks\<close> and \<open>probePerformanceEvidence\<close> are left out.
\<close>

end
